(* ===== verification/Prelude.thy ===== *)
theory Prelude
  imports Main "HOL-Library.Word"
begin

text \<open>
  What every component shares: the outcome of a C++ call, byte strings, C strings, big-endian
  integers and the list surgery that \<^verbatim>\<open>std::copy\<close> and \<^verbatim>\<open>std::vector::resize\<close> perform.

  A \<open>char\<close> of HOL is a byte, so \<open>string\<close> (a list of \<open>char\<close>) stands for \<^verbatim>\<open>std::string\<close>,
  \<^verbatim>\<open>std::vector<char>\<close> and raw byte ranges alike. A call that can abort, throw, block or leave
  defined behaviour returns a \<open>fault\<close>; \<open>Inr\<close> is a normal return. The server is built without
  \<^verbatim>\<open>NDEBUG\<close> (server/Makefile), so a failing \<^verbatim>\<open>assert\<close> is a fault, not a comment.
\<close>

section \<open>Outcomes\<close>

datatype fault =
    AssertFailed
  | Exception string
  | Fatal string
  | Blocked
  | UndefinedBehaviour string

type_synonym 'a res = "fault + 'a"

text \<open>Sequencing of calls that may not return: the first fault wins.\<close>

definition andThen :: "'a res \<Rightarrow> ('a \<Rightarrow> 'b res) \<Rightarrow> 'b res" where
  "andThen r f = (case r of Inl e \<Rightarrow> Inl e | Inr x \<Rightarrow> f x)"

definition asserting :: "bool \<Rightarrow> 'a res \<Rightarrow> 'a res" where
  "asserting b r = (if b then r else Inl AssertFailed)"

named_theorems res_simps "evaluation of outcomes"

lemma andThen_Inr [simp, res_simps]: "andThen (Inr x) f = f x"
  by (simp add: andThen_def)

lemma andThen_Inl [simp, res_simps]: "andThen (Inl e) f = Inl e"
  by (simp add: andThen_def)

lemma asserting_True [simp, res_simps]: "asserting True r = r"
  by (simp add: asserting_def)

lemma asserting_False [simp, res_simps]: "asserting False r = Inl AssertFailed"
  by (simp add: asserting_def)

lemma andThen_eq_Inr:
  "andThen r f = Inr y \<longleftrightarrow> (\<exists>x. r = Inr x \<and> f x = Inr y)"
  by (cases r) simp_all

lemma asserting_eq_Inr: "asserting b r = Inr y \<longleftrightarrow> b \<and> r = Inr y"
  by (cases b) simp_all

lemma andThen_eq_Inl:
  "andThen r f = Inl e \<longleftrightarrow> r = Inl e \<or> (\<exists>x. r = Inr x \<and> f x = Inl e)"
  by (cases r) simp_all

lemma andThen_assoc: "andThen (andThen r f) g = andThen r (\<lambda>x. andThen (f x) g)"
  by (cases r) simp_all

lemma andThen_cong [fundef_cong]:
  "r = r' \<Longrightarrow> (\<And>x. r' = Inr x \<Longrightarrow> f x = g x) \<Longrightarrow> andThen r f = andThen r' g"
  by (cases r) auto

lemmas res_elims = andThen_eq_Inr asserting_eq_Inr


section \<open>Programs that change a state\<close>

text \<open>
  Code that threads a state through many calls: it returns a value and the new state, or does
  not return.
\<close>

type_synonym ('s, 'a) prog = "'s \<Rightarrow> ('a \<times> 's) res"

definition ret :: "'a \<Rightarrow> ('s, 'a) prog" where
  "ret x s = Inr (x, s)"

definition chain :: "('s, 'a) prog \<Rightarrow> ('a \<Rightarrow> ('s, 'b) prog) \<Rightarrow> ('s, 'b) prog" where
  "chain m f s = andThen (m s) (\<lambda>(x, s'). f x s')"

definition fail :: "fault \<Rightarrow> ('s, 'a) prog" where
  "fail e s = Inl e"

definition lift :: "'a res \<Rightarrow> ('s, 'a) prog" where
  "lift r s = andThen r (\<lambda>x. Inr (x, s))"

definition state :: "('s, 's) prog" where
  "state s = Inr (s, s)"

definition modify :: "('s \<Rightarrow> 's) \<Rightarrow> ('s, unit) prog" where
  "modify f s = Inr ((), f s)"

named_theorems prog_simps "evaluation of programs"

lemma ret_apply [prog_simps]: "ret x s = Inr (x, s)"
  by (simp add: ret_def)

lemma chain_Inr [prog_simps]: "m s = Inr (x, s') \<Longrightarrow> chain m f s = f x s'"
  by (simp add: chain_def)

lemma chain_Inl [prog_simps]: "m s = Inl e \<Longrightarrow> chain m f s = Inl e"
  by (simp add: chain_def)

lemma chain_ret [simp, prog_simps]: "chain (ret x) f = f x"
  by (rule ext) (simp add: chain_def ret_def)

lemma fail_apply [simp, prog_simps]: "fail e s = Inl e"
  by (simp add: fail_def)

lemma chain_fail [simp, prog_simps]: "chain (fail e) f = fail e"
  by (rule ext) (simp add: chain_def fail_def)

lemma lift_Inr [prog_simps]: "lift (Inr x) = ret x"
  by (rule ext) (simp add: lift_def ret_def)

lemma lift_Inl [prog_simps]: "lift (Inl e) = fail e"
  by (rule ext) (simp add: lift_def fail_def)

lemma modify_apply [prog_simps]: "modify f s = Inr ((), f s)"
  by (simp add: modify_def)

lemma state_apply [prog_simps]: "state s = Inr (s, s)"
  by (simp add: state_def)

lemma chain_eq_Inr:
  "chain m f s = Inr y \<longleftrightarrow> (\<exists>x s'. m s = Inr (x, s') \<and> f x s' = Inr y)"
  by (auto simp: chain_def andThen_eq_Inr)

lemma chain_assoc: "chain (chain m f) g = chain m (\<lambda>x. chain (f x) g)"
  by (rule ext) (auto simp: chain_def andThen_def split: sum.splits)

lemma chain_cong [fundef_cong]:
  "m s = m' s' \<Longrightarrow> (\<And>x t. m' s' = Inr (x, t) \<Longrightarrow> f x t = g x t) \<Longrightarrow> chain m f s = chain m' g s'"
  by (cases "m' s'") (auto simp: chain_def)

lemma lift_eq_Inr: "lift r s = Inr (x, s') \<longleftrightarrow> r = Inr x \<and> s' = s"
  by (auto simp: lift_def andThen_eq_Inr)


text \<open>Total correctness: from every state in \<open>P\<close> the program returns, and \<open>Q\<close> holds of what it returns.\<close>

definition yields :: "('s \<Rightarrow> bool) \<Rightarrow> ('s, 'a) prog \<Rightarrow> ('a \<Rightarrow> 's \<Rightarrow> bool) \<Rightarrow> bool" where
  "yields P m Q \<longleftrightarrow> (\<forall>s. P s \<longrightarrow> (\<exists>x s'. m s = Inr (x, s') \<and> Q x s'))"

lemma yieldsI: "(\<And>s. P s \<Longrightarrow> \<exists>x s'. m s = Inr (x, s') \<and> Q x s') \<Longrightarrow> yields P m Q"
  by (simp add: yields_def)

lemma yieldsD: "yields P m Q \<Longrightarrow> P s \<Longrightarrow> \<exists>x s'. m s = Inr (x, s') \<and> Q x s'"
  by (simp add: yields_def)

lemma yields_chain: "yields P m R \<Longrightarrow> (\<And>x. yields (R x) (f x) Q) \<Longrightarrow> yields P (chain m f) Q"
  unfolding yields_def chain_def by fastforce

lemma yields_ret: "(\<And>s. P s \<Longrightarrow> Q x s) \<Longrightarrow> yields P (ret x) Q"
  by (simp add: yields_def ret_def)

lemma yields_if: "(b \<Longrightarrow> yields P m Q) \<Longrightarrow> (\<not> b \<Longrightarrow> yields P n Q) \<Longrightarrow> yields P (if b then m else n) Q"
  by simp


section \<open>C strings\<close>

abbreviation NUL :: char where
  "NUL \<equiv> CHR 0x00"

text \<open>What a callee that takes a \<^verbatim>\<open>const char*\<close> sees of a \<^verbatim>\<open>std::string\<close>.\<close>

definition c_str :: "string \<Rightarrow> string" where
  "c_str s = takeWhile (\<lambda>c. c \<noteq> NUL) s"

lemma c_str_no_nul: "NUL \<notin> set s \<Longrightarrow> c_str s = s"
  by (auto simp: c_str_def intro: takeWhile_eq_all_conv [THEN iffD2])

lemma c_str_prefix: "\<exists>t. s = c_str s @ t"
  unfolding c_str_def by (metis takeWhile_dropWhile_id)

lemma c_str_nul_free: "NUL \<notin> set (c_str s)"
  unfolding c_str_def by (auto dest: set_takeWhileD)

lemma length_c_str_le: "length (c_str s) \<le> length s"
  by (simp add: c_str_def length_takeWhile_le)

text \<open>\<^verbatim>\<open>snprintf(buf, n, ...)\<close> keeps at most \<open>n - 1\<close> bytes of the formatted text.\<close>

definition snprintf_trunc :: "nat \<Rightarrow> string \<Rightarrow> string" where
  "snprintf_trunc n s = take (n - 1) s"

lemma snprintf_trunc_id: "length s < n \<Longrightarrow> snprintf_trunc n s = s"
  by (simp add: snprintf_trunc_def)


section \<open>Numbers and splitting of lists\<close>

lemma nat_one_plus_int [simp]: "nat (1 + int n) = Suc n"
  by simp

lemma append_eq_longer:
  assumes "xs @ ys = us @ vs" and "length us \<le> length xs"
  obtains r where "xs = us @ r" and "r @ ys = vs"
proof
  have "take (length us) xs = us"
    using arg_cong [OF assms(1), of "take (length us)"] assms(2) by simp
  then show "xs = us @ drop (length us) xs"
    using append_take_drop_id [of "length us" xs] by simp
  show "drop (length us) xs @ ys = vs"
    using arg_cong [OF assms(1), of "drop (length us)"] assms(2) by simp
qed

lemma dropWhile_shorter: "dropWhile P s \<noteq> [] \<Longrightarrow> length (dropWhile (\<lambda>c. \<not> P c) (dropWhile P s)) < length s"
proof -
  assume "dropWhile P s \<noteq> []"
  then obtain c r where "dropWhile P s = c # r" "\<not> P c"
    by (metis hd_dropWhile list.collapse)
  moreover from this have "length r < length s"
    using length_dropWhile_le [of P s] by simp
  ultimately show ?thesis
    using length_dropWhile_le [of "\<lambda>c. \<not> P c" r] by simp
qed


section \<open>Lists of bytes under copy and resize\<close>

text \<open>\<^verbatim>\<open>std::copy(src.begin(), src.end(), dst.begin() + i)\<close>\<close>

definition overwrite :: "nat \<Rightarrow> 'a list \<Rightarrow> 'a list \<Rightarrow> 'a list" where
  "overwrite i src dst = take i dst @ src @ drop (i + length src) dst"

text \<open>\<^verbatim>\<open>std::vector<char>::resize\<close>: new elements are zero.\<close>

definition resize :: "nat \<Rightarrow> string \<Rightarrow> string" where
  "resize n v = take n v @ replicate (n - length v) NUL"

named_theorems bytes_simps "length and segment laws of overwrite and resize"

lemma length_resize [simp, bytes_simps]: "length (resize n v) = n"
  by (simp add: resize_def)

lemma take_resize [bytes_simps]: "k \<le> length v \<Longrightarrow> k \<le> n \<Longrightarrow> take k (resize n v) = take k v"
  by (simp add: resize_def)

lemma length_overwrite [simp, bytes_simps]:
  "i + length src \<le> length dst \<Longrightarrow> length (overwrite i src dst) = length dst"
  by (simp add: overwrite_def)

lemma take_overwrite_before [bytes_simps]:
  "k \<le> i \<Longrightarrow> i \<le> length dst \<Longrightarrow> take k (overwrite i src dst) = take k dst"
  by (simp add: overwrite_def)

lemma take_overwrite_end [bytes_simps]:
  "i \<le> length dst \<Longrightarrow> take (i + length src) (overwrite i src dst) = take i dst @ src"
  by (simp add: overwrite_def)

text \<open>The segment \<open>[i, j)\<close> of a byte vector.\<close>

definition segment :: "nat \<Rightarrow> nat \<Rightarrow> 'a list \<Rightarrow> 'a list" where
  "segment i j v = drop i (take j v)"

lemma length_segment [simp, bytes_simps]: "j \<le> length v \<Longrightarrow> length (segment i j v) = j - i"
  by (simp add: segment_def)

lemma segment_empty [simp, bytes_simps]: "j \<le> i \<Longrightarrow> segment i j v = []"
  by (simp add: segment_def)

lemma drop_segment [bytes_simps]: "drop k (segment i j v) = segment (i + k) j v"
  by (simp add: segment_def add.commute)

lemma take_segment [bytes_simps]: "i + k \<le> j \<Longrightarrow> take k (segment i j v) = segment i (i + k) v"
  by (simp add: segment_def take_drop add.commute min_def)

lemma segment_resize [bytes_simps]:
  "j \<le> length v \<Longrightarrow> j \<le> n \<Longrightarrow> segment i j (resize n v) = segment i j v"
  by (simp add: segment_def take_resize)

lemma segment_overwrite_before [bytes_simps]:
  "j \<le> k \<Longrightarrow> k \<le> length v \<Longrightarrow> segment i j (overwrite k src v) = segment i j v"
  by (simp add: segment_def take_overwrite_before)

lemma segment_overwrite_append [bytes_simps]:
  assumes "i \<le> j" and "j \<le> length v"
  shows "segment i (j + length src) (overwrite j src v) = segment i j v @ src"
  using assms by (simp add: segment_def take_overwrite_end)

lemma segment_overwrite_prepend [bytes_simps]:
  assumes "i + length src \<le> j" and "j \<le> length v"
  shows "segment i j (overwrite i src v) = src @ segment (i + length src) j v"
  using assms by (simp add: segment_def overwrite_def drop_take)

lemma segment_segment_shift:
  assumes "i \<le> j" and "j \<le> length v" and "k \<le> i"
  shows "segment k (k + (j - i)) (overwrite k (segment i j v) v) = segment i j v"
  using assms by (simp add: segment_def overwrite_def)


section \<open>Big-endian integers\<close>

text \<open>
  \<^verbatim>\<open>htobe16/32/64\<close> followed by a copy of the object representation writes the bytes of the
  integer most significant first, whatever the host order; \<^verbatim>\<open>memcpy\<close> followed by
  \<^verbatim>\<open>be16/32/64toh\<close> reads them back.
\<close>

fun be_bytes :: "nat \<Rightarrow> nat \<Rightarrow> string" where
  "be_bytes 0 v = []"
| "be_bytes (Suc n) v = be_bytes n (v div 256) @ [char_of v]"

definition be_val :: "string \<Rightarrow> nat" where
  "be_val s = foldl (\<lambda>a c. 256 * a + of_char c) 0 s"

lemma length_be_bytes [simp]: "length (be_bytes n v) = n"
  by (induction n arbitrary: v) simp_all

lemma be_val_snoc: "be_val (s @ [c]) = 256 * be_val s + of_char c"
  by (simp add: be_val_def)

lemma of_char_less: "(of_char c :: nat) < 256"
  by (metis char_of_mod_256 mod_less_divisor nat_of_char_less_256)

lemma be_bytes_be_val: "be_bytes (length s) (be_val s) = s"
proof (induction s rule: rev_induct)
  case Nil
  then show ?case by simp
next
  case (snoc c s)
  have c: "of_char c < (256 :: nat)"
    by (rule of_char_less)
  have "char_of (be_val (s @ [c]) mod 256) = c"
    using c by (simp add: be_val_snoc)
  then have "char_of (be_val (s @ [c])) = c" by simp
  moreover have "be_val (s @ [c]) div 256 = be_val s"
    using c by (simp add: be_val_snoc)
  ultimately show ?case using snoc by simp
qed

lemma be_val_be_bytes: "be_val (be_bytes n v) = v mod 256 ^ n"
proof (induction n arbitrary: v)
  case 0
  then show ?case by (simp add: be_val_def)
next
  case (Suc n)
  have "be_val (be_bytes (Suc n) v) = 256 * (v div 256 mod 256 ^ n) + v mod 256"
    by (simp add: be_val_snoc Suc.IH)
  also have "\<dots> = v mod (256 * 256 ^ n)"
    by (simp add: mod_mult2_eq)
  finally show ?case by simp
qed

end
