(* ===== verification/Buffer.thy ===== *)
theory Buffer
  imports Prelude
begin

text \<open>
  \<^verbatim>\<open>net::Buffer\<close> (server/src/Buffer.h, Buffer.cc): the byte queue between a socket and the
  message codec. The vector and its two indices are a record; pointers into the vector are
  offsets from \<^verbatim>\<open>begin()\<close>. \<open>bytes\<close> is the abstraction the rest of the development uses: the
  readable bytes, in order. The file shows that every operation keeps
  \<open>readerIndex \<le> writerIndex \<le> size\<close>, that no assertion of the class fails when its caller
  respects the documented precondition, and that the class is a FIFO of bytes (locale
  \<open>byte_fifo\<close>), also when it is filled from a socket by \<^verbatim>\<open>readFd\<close>.

  \<^verbatim>\<open>size_t\<close> is \<open>nat\<close>: the two subtractions of the class are under the invariant, and a
  length near \<open>2\<^sup>6\<^sup>4\<close> cannot be allocated.
\<close>

section \<open>Representation\<close>

record buffer =
  buf :: string
  readerIndex :: nat
  writerIndex :: nat

definition kCheapPrepend :: nat where
  "kCheapPrepend = 8"

definition kInitialSize :: nat where
  "kInitialSize = 1024"

definition readableBytes :: "buffer \<Rightarrow> nat" where
  "readableBytes b = writerIndex b - readerIndex b"

definition writableBytes :: "buffer \<Rightarrow> nat" where
  "writableBytes b = length (buf b) - writerIndex b"

definition prependableBytes :: "buffer \<Rightarrow> nat" where
  "prependableBytes b = readerIndex b"

definition Buffer_ctor :: "nat \<Rightarrow> buffer res" where
  "Buffer_ctor initialSize =
     (let b = \<lparr>buf = replicate (kCheapPrepend + initialSize) NUL,
               readerIndex = kCheapPrepend, writerIndex = kCheapPrepend\<rparr>
      in asserting (readableBytes b = 0)
           (asserting (writableBytes b = initialSize)
             (asserting (prependableBytes b = kCheapPrepend) (Inr b))))"

definition Buffer_swap :: "buffer \<times> buffer \<Rightarrow> buffer \<times> buffer" where
  "Buffer_swap p = (case p of (this, rhs) \<Rightarrow>
     (this\<lparr>buf := buf rhs, readerIndex := readerIndex rhs, writerIndex := writerIndex rhs\<rparr>,
      rhs\<lparr>buf := buf this, readerIndex := readerIndex this, writerIndex := writerIndex this\<rparr>))"

definition peek :: "buffer \<Rightarrow> nat" where
  "peek b = readerIndex b"

definition beginWrite :: "buffer \<Rightarrow> nat" where
  "beginWrite b = writerIndex b"

text \<open>The readable bytes: the range from \<^verbatim>\<open>peek()\<close> to \<^verbatim>\<open>beginWrite()\<close>.\<close>

definition bytes :: "buffer \<Rightarrow> string" where
  "bytes b = segment (readerIndex b) (writerIndex b) (buf b)"


section \<open>Searching\<close>

text \<open>\<^verbatim>\<open>std::search\<close> for the two bytes of \<^verbatim>\<open>kCRLF\<close>; \<open>i\<close> is the offset of the list's head.\<close>

fun search_crlf :: "nat \<Rightarrow> string \<Rightarrow> nat option" where
  "search_crlf i (a # c # s) =
     (if a = CHR 0x0D \<and> c = CHR 0x0A then Some i else search_crlf (Suc i) (c # s))"
| "search_crlf i s = None"

fun memchr :: "nat \<Rightarrow> char \<Rightarrow> string \<Rightarrow> nat option" where
  "memchr i c [] = None"
| "memchr i c (a # s) = (if a = c then Some i else memchr (Suc i) c s)"

definition findCRLF :: "buffer \<Rightarrow> nat option" where
  "findCRLF b = search_crlf (peek b) (segment (peek b) (beginWrite b) (buf b))"

definition findCRLF_from :: "nat \<Rightarrow> buffer \<Rightarrow> nat option res" where
  "findCRLF_from start b =
     asserting (peek b \<le> start) (asserting (start \<le> beginWrite b)
       (Inr (search_crlf start (segment start (beginWrite b) (buf b)))))"

definition findEOL :: "buffer \<Rightarrow> nat option" where
  "findEOL b = memchr (peek b) (CHR 0x0A) (take (readableBytes b) (drop (peek b) (buf b)))"

definition findEOL_from :: "nat \<Rightarrow> buffer \<Rightarrow> nat option res" where
  "findEOL_from start b =
     asserting (peek b \<le> start) (asserting (start \<le> beginWrite b)
       (Inr (memchr start (CHR 0x0A) (take (beginWrite b - start) (drop start (buf b))))))"


section \<open>Consuming\<close>

definition retrieveAll :: "buffer \<Rightarrow> buffer" where
  "retrieveAll b = b\<lparr>readerIndex := kCheapPrepend, writerIndex := kCheapPrepend\<rparr>"

definition retrieve :: "nat \<Rightarrow> buffer \<Rightarrow> buffer res" where
  "retrieve len b =
     asserting (len \<le> readableBytes b)
       (Inr (if len < readableBytes b then b\<lparr>readerIndex := readerIndex b + len\<rparr>
             else retrieveAll b))"

definition retrieveUntil :: "nat \<Rightarrow> buffer \<Rightarrow> buffer res" where
  "retrieveUntil e b =
     asserting (peek b \<le> e) (asserting (e \<le> beginWrite b) (retrieve (e - peek b) b))"

definition retrieveInt64 :: "buffer \<Rightarrow> buffer res" where
  "retrieveInt64 b = retrieve 8 b"

definition retrieveInt32 :: "buffer \<Rightarrow> buffer res" where
  "retrieveInt32 b = retrieve 4 b"

definition retrieveInt16 :: "buffer \<Rightarrow> buffer res" where
  "retrieveInt16 b = retrieve 2 b"

definition retrieveInt8 :: "buffer \<Rightarrow> buffer res" where
  "retrieveInt8 b = retrieve 1 b"

definition retrieveAsString :: "nat \<Rightarrow> buffer \<Rightarrow> (string \<times> buffer) res" where
  "retrieveAsString len b =
     asserting (len \<le> readableBytes b)
       (let result = take len (drop (peek b) (buf b))
        in andThen (retrieve len b) (\<lambda>b'. Inr (result, b')))"

definition retrieveAllAsString :: "buffer \<Rightarrow> (string \<times> buffer) res" where
  "retrieveAllAsString b = retrieveAsString (readableBytes b) b"

text \<open>
  \<^verbatim>\<open>string(peek(), static_cast<int>(readableBytes()))\<close>: the length passes through a signed
  32-bit integer, and a negative one makes the string constructor throw.
\<close>

definition toString :: "buffer \<Rightarrow> string res" where
  "toString b =
     (let n = sint (word_of_nat (readableBytes b) :: 32 word)
      in if n < 0 then Inl (Exception ''length_error'')
         else Inr (take (nat n) (drop (peek b) (buf b))))"


section \<open>Producing\<close>

definition makeSpace :: "nat \<Rightarrow> buffer \<Rightarrow> buffer res" where
  "makeSpace len b =
     (if writableBytes b + prependableBytes b < len + kCheapPrepend then
        Inr (b\<lparr>buf := resize (writerIndex b + len) (buf b)\<rparr>)
      else
        asserting (kCheapPrepend < readerIndex b)
          (let readable = readableBytes b;
               b' = b\<lparr>buf := overwrite kCheapPrepend
                              (segment (readerIndex b) (writerIndex b) (buf b)) (buf b),
                      readerIndex := kCheapPrepend,
                      writerIndex := kCheapPrepend + readable\<rparr>
           in asserting (readable = readableBytes b') (Inr b')))"

definition ensureWritableBytes :: "nat \<Rightarrow> buffer \<Rightarrow> buffer res" where
  "ensureWritableBytes len b =
     andThen (if writableBytes b < len then makeSpace len b else Inr b)
       (\<lambda>b'. asserting (writableBytes b' \<ge> len) (Inr b'))"

definition hasWritten :: "nat \<Rightarrow> buffer \<Rightarrow> buffer res" where
  "hasWritten len b =
     asserting (len \<le> writableBytes b) (Inr (b\<lparr>writerIndex := writerIndex b + len\<rparr>))"

definition unwrite :: "nat \<Rightarrow> buffer \<Rightarrow> buffer res" where
  "unwrite len b =
     asserting (len \<le> readableBytes b) (Inr (b\<lparr>writerIndex := writerIndex b - len\<rparr>))"

text \<open>Copying into the writable area, as the callers do at \<^verbatim>\<open>beginWrite()\<close>.\<close>

definition copyToWrite :: "string \<Rightarrow> buffer \<Rightarrow> buffer" where
  "copyToWrite data b = b\<lparr>buf := overwrite (beginWrite b) data (buf b)\<rparr>"

definition Buffer_append :: "string \<Rightarrow> buffer \<Rightarrow> buffer res" where
  "Buffer_append data b =
     andThen (ensureWritableBytes (length data) b)
       (\<lambda>b'. hasWritten (length data) (copyToWrite data b'))"

definition prepend :: "string \<Rightarrow> buffer \<Rightarrow> buffer res" where
  "prepend data b =
     asserting (length data \<le> prependableBytes b)
       (let r = readerIndex b - length data
        in Inr (b\<lparr>readerIndex := r, buf := overwrite r data (buf b)\<rparr>))"

definition shrink :: "nat \<Rightarrow> buffer \<Rightarrow> buffer res" where
  "shrink reserve b =
     andThen (Buffer_ctor kInitialSize) (\<lambda>other.
     andThen (ensureWritableBytes (readableBytes b + reserve) other) (\<lambda>other.
     andThen (toString b) (\<lambda>str.
     andThen (Buffer_append str other) (\<lambda>other. Inr (fst (Buffer_swap (b, other)))))))"


section \<open>Integers in network order\<close>

definition appendInt64 :: "64 word \<Rightarrow> buffer \<Rightarrow> buffer res" where
  "appendInt64 x b = Buffer_append (be_bytes 8 (unat x)) b"

definition appendInt32 :: "32 word \<Rightarrow> buffer \<Rightarrow> buffer res" where
  "appendInt32 x b = Buffer_append (be_bytes 4 (unat x)) b"

definition appendInt16 :: "16 word \<Rightarrow> buffer \<Rightarrow> buffer res" where
  "appendInt16 x b = Buffer_append (be_bytes 2 (unat x)) b"

definition appendInt8 :: "8 word \<Rightarrow> buffer \<Rightarrow> buffer res" where
  "appendInt8 x b = Buffer_append [char_of (unat x)] b"

definition peekInt64 :: "buffer \<Rightarrow> 64 word res" where
  "peekInt64 b = asserting (readableBytes b \<ge> 8)
     (Inr (word_of_nat (be_val (take 8 (drop (peek b) (buf b))))))"

definition peekInt32 :: "buffer \<Rightarrow> 32 word res" where
  "peekInt32 b = asserting (readableBytes b \<ge> 4)
     (Inr (word_of_nat (be_val (take 4 (drop (peek b) (buf b))))))"

definition peekInt16 :: "buffer \<Rightarrow> 16 word res" where
  "peekInt16 b = asserting (readableBytes b \<ge> 2)
     (Inr (word_of_nat (be_val (take 2 (drop (peek b) (buf b))))))"

definition peekInt8 :: "buffer \<Rightarrow> 8 word res" where
  "peekInt8 b = asserting (readableBytes b \<ge> 1)
     (Inr (word_of_nat (be_val (take 1 (drop (peek b) (buf b))))))"

definition readInt64 :: "buffer \<Rightarrow> (64 word \<times> buffer) res" where
  "readInt64 b = andThen (peekInt64 b) (\<lambda>x. andThen (retrieveInt64 b) (\<lambda>b'. Inr (x, b')))"

definition readInt32 :: "buffer \<Rightarrow> (32 word \<times> buffer) res" where
  "readInt32 b = andThen (peekInt32 b) (\<lambda>x. andThen (retrieveInt32 b) (\<lambda>b'. Inr (x, b')))"

definition readInt16 :: "buffer \<Rightarrow> (16 word \<times> buffer) res" where
  "readInt16 b = andThen (peekInt16 b) (\<lambda>x. andThen (retrieveInt16 b) (\<lambda>b'. Inr (x, b')))"

definition readInt8 :: "buffer \<Rightarrow> (8 word \<times> buffer) res" where
  "readInt8 b = andThen (peekInt8 b) (\<lambda>x. andThen (retrieveInt8 b) (\<lambda>b'. Inr (x, b')))"

definition prependInt64 :: "64 word \<Rightarrow> buffer \<Rightarrow> buffer res" where
  "prependInt64 x b = prepend (be_bytes 8 (unat x)) b"

definition prependInt32 :: "32 word \<Rightarrow> buffer \<Rightarrow> buffer res" where
  "prependInt32 x b = prepend (be_bytes 4 (unat x)) b"

definition prependInt16 :: "16 word \<Rightarrow> buffer \<Rightarrow> buffer res" where
  "prependInt16 x b = prepend (be_bytes 2 (unat x)) b"

definition prependInt8 :: "8 word \<Rightarrow> buffer \<Rightarrow> buffer res" where
  "prependInt8 x b = prepend [char_of (unat x)] b"


section \<open>Reading from a descriptor\<close>

text \<open>
  \<^verbatim>\<open>readv(2)\<close> is the parameter \<open>readv\<close>: given the room of the two iovecs together it
  delivers an \<^verbatim>\<open>errno\<close> or a block of bytes, which fills the writable area first and the stack
  buffer \<^verbatim>\<open>extrabuf\<close> after it. The result pairs what \<^verbatim>\<open>readFd\<close> returns (\<open>-1\<close> on an error,
  with the saved \<^verbatim>\<open>errno\<close>) with the buffer.
\<close>

definition sizeof_extrabuf :: nat where
  "sizeof_extrabuf = 65536"

definition readFd_room :: "buffer \<Rightarrow> nat" where
  "readFd_room b =
     (let writable = writableBytes b;
          iovcnt = (if writable < sizeof_extrabuf then 2 else 1 :: nat)
      in if iovcnt = 2 then writable + sizeof_extrabuf else writable)"

definition readFd :: "(nat \<Rightarrow> nat + string) \<Rightarrow> buffer \<Rightarrow> ((int \<times> nat option) \<times> buffer) res" where
  "readFd readv b =
     (let writable = writableBytes b
      in case readv (readFd_room b) of
           Inl err \<Rightarrow> Inr ((- 1, Some err), b)
         | Inr data \<Rightarrow>
             (let n = length data;
                  b' = copyToWrite (take writable data) b;
                  extrabuf = drop writable data
              in if n \<le> writable then Inr ((int n, None), b'\<lparr>writerIndex := writerIndex b' + n\<rparr>)
                 else andThen (Buffer_append (take (n - writable) extrabuf)
                                (b'\<lparr>writerIndex := length (buf b')\<rparr>))
                        (\<lambda>b''. Inr ((int n, None), b''))))"


section \<open>The invariant and the FIFO behaviour\<close>

definition buffer_ok :: "buffer \<Rightarrow> bool" where
  "buffer_ok b \<longleftrightarrow>
     readerIndex b \<le> writerIndex b \<and> writerIndex b \<le> length (buf b) \<and> kCheapPrepend \<le> length (buf b)"

named_theorems buffer_defs "indices, sizes and the invariant"

lemmas [buffer_defs] = buffer_ok_def readableBytes_def writableBytes_def prependableBytes_def
  peek_def beginWrite_def

lemma length_bytes: "buffer_ok b \<Longrightarrow> length (bytes b) = readableBytes b"
  by (simp add: bytes_def buffer_defs)

lemma take_bytes:
  "buffer_ok b \<Longrightarrow> n \<le> readableBytes b \<Longrightarrow> take n (drop (peek b) (buf b)) = take n (bytes b)"
  by (auto simp: bytes_def segment_def take_drop buffer_defs min_def)

lemma drop_bytes:
  "buffer_ok b \<Longrightarrow> k + n \<le> readableBytes b \<Longrightarrow>
   take n (drop (peek b + k) (buf b)) = take n (drop k (bytes b))"
  by (auto simp: bytes_def segment_def take_drop buffer_defs min_def ac_simps)

lemma Buffer_ctor_ok:
  "\<exists>b. Buffer_ctor n = Inr b \<and> buffer_ok b \<and> bytes b = [] \<and> readerIndex b = kCheapPrepend"
  by (simp add: Buffer_ctor_def buffer_defs bytes_def kCheapPrepend_def)

lemma retrieveAll_ok: "buffer_ok b \<Longrightarrow> buffer_ok (retrieveAll b) \<and> bytes (retrieveAll b) = []"
  by (simp add: retrieveAll_def buffer_defs bytes_def)

lemma retrieve_ok:
  assumes "buffer_ok b" and "n \<le> readableBytes b"
  shows "\<exists>b'. retrieve n b = Inr b' \<and> buffer_ok b' \<and> bytes b' = drop n (bytes b)"
proof (cases "n < readableBytes b")
  case True
  with assms show ?thesis
    by (auto simp: retrieve_def buffer_defs bytes_def bytes_simps)
next
  case False
  with assms have "drop n (bytes b) = []"
    by (simp add: length_bytes)
  with False assms retrieveAll_ok show ?thesis
    by (simp add: retrieve_def)
qed

lemma retrieve_beyond: "readableBytes b < n \<Longrightarrow> retrieve n b = Inl AssertFailed"
  by (simp add: retrieve_def)

lemma retrieve_readable_less:
  assumes "retrieve n b = Inr b'" and "0 < n"
  shows "readableBytes b' < readableBytes b"
  using assms by (auto simp: retrieve_def asserting_eq_Inr retrieveAll_def readableBytes_def)

text \<open>Making room keeps the readable bytes, and its own assertions hold when room is missing.\<close>

lemma makeSpace_ok:
  assumes "buffer_ok b" and "writableBytes b < n"
  shows "\<exists>b'. makeSpace n b = Inr b' \<and> buffer_ok b' \<and> bytes b' = bytes b \<and> n \<le> writableBytes b' \<and>
           (readerIndex b' = readerIndex b \<or> readerIndex b' = kCheapPrepend)"
proof (cases "writableBytes b + prependableBytes b < n + kCheapPrepend")
  case True
  with assms show ?thesis
    by (auto simp: makeSpace_def buffer_defs bytes_def bytes_simps)
next
  case False
  have len: "kCheapPrepend + (writerIndex b - readerIndex b) \<le> length (buf b)"
    using False assms by (auto simp: buffer_defs)
  have seg: "segment kCheapPrepend (kCheapPrepend + (writerIndex b - readerIndex b))
        (overwrite kCheapPrepend (segment (readerIndex b) (writerIndex b) (buf b)) (buf b))
      = segment (readerIndex b) (writerIndex b) (buf b)"
    by (rule segment_segment_shift) (use False assms in \<open>auto simp: buffer_defs\<close>)
  define b' where "b' = b\<lparr>buf := overwrite kCheapPrepend
      (segment (readerIndex b) (writerIndex b) (buf b)) (buf b), readerIndex := kCheapPrepend,
      writerIndex := kCheapPrepend + (writerIndex b - readerIndex b)\<rparr>"
  have "kCheapPrepend < readerIndex b"
    using False assms by (auto simp: buffer_defs)
  with False have "makeSpace n b = Inr b'"
    by (simp add: makeSpace_def Let_def readableBytes_def b'_def)
  moreover have "buffer_ok b' \<and> bytes b' = bytes b \<and> n \<le> writableBytes b'"
    using False assms len seg by (auto simp: b'_def buffer_defs bytes_def bytes_simps)
  ultimately show ?thesis by (simp add: b'_def)
qed

lemma ensureWritableBytes_ok:
  assumes "buffer_ok b"
  shows "\<exists>b'. ensureWritableBytes n b = Inr b' \<and> buffer_ok b' \<and> bytes b' = bytes b \<and>
           n \<le> writableBytes b' \<and> (readerIndex b' = readerIndex b \<or> readerIndex b' = kCheapPrepend)"
proof (cases "writableBytes b < n")
  case True
  with makeSpace_ok [OF assms True] show ?thesis
    by (auto simp: ensureWritableBytes_def)
next
  case False
  with assms show ?thesis by (simp add: ensureWritableBytes_def)
qed

lemma write_ok:
  assumes "buffer_ok b" and "length s \<le> writableBytes b"
  shows "\<exists>b'. hasWritten (length s) (copyToWrite s b) = Inr b' \<and> buffer_ok b' \<and>
           bytes b' = bytes b @ s \<and> readerIndex b' = readerIndex b"
  using assms
  by (auto simp: hasWritten_def copyToWrite_def buffer_defs bytes_def segment_overwrite_append)

lemma Buffer_append_ok:
  assumes "buffer_ok b"
  shows "\<exists>b'. Buffer_append s b = Inr b' \<and> buffer_ok b' \<and> bytes b' = bytes b @ s \<and>
           (readerIndex b' = readerIndex b \<or> readerIndex b' = kCheapPrepend)"
proof -
  from ensureWritableBytes_ok [OF assms, of "length s"] obtain b1 where
    b1: "ensureWritableBytes (length s) b = Inr b1" "buffer_ok b1" "bytes b1 = bytes b"
      "length s \<le> writableBytes b1"
      "readerIndex b1 = readerIndex b \<or> readerIndex b1 = kCheapPrepend" by blast
  with write_ok [OF b1(2,4)] show ?thesis
    by (auto simp: Buffer_append_def)
qed

lemma prepend_ok:
  assumes "buffer_ok b" and "length s \<le> readerIndex b"
  shows "\<exists>b'. prepend s b = Inr b' \<and> buffer_ok b' \<and> bytes b' = s @ bytes b"
  using assms
  by (auto simp: prepend_def buffer_defs bytes_def segment_overwrite_prepend Let_def)

lemma unwrite_ok:
  assumes "buffer_ok b" and "n \<le> readableBytes b"
  shows "\<exists>b'. unwrite n b = Inr b' \<and> buffer_ok b' \<and> bytes b' = take (readableBytes b - n) (bytes b)"
  using assms
  by (auto simp: unwrite_def buffer_defs bytes_def bytes_simps)

lemma retrieveAsString_ok:
  assumes "buffer_ok b" and "n \<le> readableBytes b"
  shows "\<exists>b'. retrieveAsString n b = Inr (take n (bytes b), b') \<and> buffer_ok b' \<and>
           bytes b' = drop n (bytes b)"
proof -
  from retrieve_ok [OF assms] obtain b' where
    "retrieve n b = Inr b'" "buffer_ok b'" "bytes b' = drop n (bytes b)" by blast
  with assms show ?thesis by (simp add: retrieveAsString_def take_bytes)
qed

lemma retrieveAllAsString_ok:
  assumes "buffer_ok b"
  shows "\<exists>b'. retrieveAllAsString b = Inr (bytes b, b') \<and> buffer_ok b' \<and> bytes b' = []"
  using retrieveAsString_ok [OF assms, of "readableBytes b"] length_bytes [OF assms]
  by (simp add: retrieveAllAsString_def)


section \<open>The interface its clients rely on\<close>

text \<open>
  A queue of bytes seen through \<open>content\<close>: the codec and the connections use nothing else of
  the class. \<open>push\<close> never fails, \<open>pop\<close> fails exactly beyond the content.
\<close>

locale byte_fifo =
  fixes content :: "'b \<Rightarrow> string"
    and wf :: "'b \<Rightarrow> bool"
    and push :: "string \<Rightarrow> 'b \<Rightarrow> 'b res"
    and pop :: "nat \<Rightarrow> 'b \<Rightarrow> 'b res"
  assumes push_law: "wf b \<Longrightarrow> \<exists>b'. push s b = Inr b' \<and> wf b' \<and> content b' = content b @ s"
    and pop_law: "wf b \<Longrightarrow> n \<le> length (content b) \<Longrightarrow>
          \<exists>b'. pop n b = Inr b' \<and> wf b' \<and> content b' = drop n (content b)"
    and pop_beyond: "wf b \<Longrightarrow> length (content b) < n \<Longrightarrow> pop n b = Inl AssertFailed"
begin

fun push_all :: "string list \<Rightarrow> 'b \<Rightarrow> 'b res" where
  "push_all [] b = Inr b"
| "push_all (s # ss) b = andThen (push s b) (push_all ss)"

lemma push_all_law: "wf b \<Longrightarrow> \<exists>b'. push_all ss b = Inr b' \<and> wf b' \<and> content b' = content b @ concat ss"
proof (induction ss arbitrary: b)
  case Nil
  then show ?case by simp
next
  case (Cons s ss)
  from push_law [OF Cons.prems, of s] obtain b1 where
    b1: "push s b = Inr b1" "wf b1" "content b1 = content b @ s" by blast
  from Cons.IH [OF b1(2)] obtain b2 where
    "push_all ss b1 = Inr b2" "wf b2" "content b2 = content b1 @ concat ss" by blast
  with b1 show ?case by simp
qed

lemma push_then_pop:
  assumes "wf b"
  shows "\<exists>b'. andThen (push s b) (pop (length (content b))) = Inr b' \<and> wf b' \<and> content b' = s"
proof -
  from push_law [OF assms, of s] obtain b1 where
    b1: "push s b = Inr b1" "wf b1" "content b1 = content b @ s" by blast
  from pop_law [OF b1(2), of "length (content b)"] b1 show ?thesis by auto
qed

lemma pop_pop:
  assumes "wf b" and "m + n \<le> length (content b)"
  shows "\<exists>b'. andThen (pop m b) (pop n) = Inr b' \<and> wf b' \<and> content b' = drop (m + n) (content b)"
proof -
  from pop_law [of b m] assms obtain b1 where
    b1: "pop m b = Inr b1" "wf b1" "content b1 = drop m (content b)" by auto
  from pop_law [OF b1(2), of n] b1 assms show ?thesis by (auto simp: add.commute)
qed

end

interpretation nb: byte_fifo bytes buffer_ok Buffer_append retrieve
proof (unfold_locales, goal_cases)
  case (1 b s)
  then show ?case using Buffer_append_ok by blast
next
  case (2 b n)
  then show ?case using retrieve_ok by (simp add: length_bytes)
next
  case (3 b n)
  then show ?case using retrieve_beyond by (simp add: length_bytes)
qed


section \<open>Integer round trips and reading from the socket\<close>

lemma word_be_roundtrip:
  "256 ^ n = (2 :: nat) ^ LENGTH('a :: len) \<Longrightarrow> word_of_nat (be_val (be_bytes n (unat w))) = (w :: 'a word)"
  by (simp add: be_val_be_bytes unsigned_less)

lemma peekInt32_bytes:
  "buffer_ok b \<Longrightarrow> 4 \<le> readableBytes b \<Longrightarrow> peekInt32 b = Inr (word_of_nat (be_val (take 4 (bytes b))))"
  by (simp add: peekInt32_def take_bytes)

lemma peekInt64_bytes:
  "buffer_ok b \<Longrightarrow> 8 \<le> readableBytes b \<Longrightarrow> peekInt64 b = Inr (word_of_nat (be_val (take 8 (bytes b))))"
  by (simp add: peekInt64_def take_bytes)

lemma read_front:
  assumes "buffer_ok b" and "bytes b = s @ rest" and "n = length s"
  shows "n \<le> readableBytes b \<and> take n (drop (peek b) (buf b)) = s \<and>
         (\<exists>b'. retrieve n b = Inr b' \<and> buffer_ok b' \<and> bytes b' = rest)"
proof -
  have n: "n \<le> readableBytes b"
    using assms by (simp flip: length_bytes)
  moreover have "take n (drop (peek b) (buf b)) = s"
    using take_bytes [OF assms(1) n] assms by simp
  ultimately show ?thesis
    using retrieve_ok [OF assms(1) n] assms by auto
qed

lemmas read_int_defs =
  readInt64_def readInt32_def readInt16_def readInt8_def
  peekInt64_def peekInt32_def peekInt16_def peekInt8_def
  retrieveInt64_def retrieveInt32_def retrieveInt16_def retrieveInt8_def

lemma readInt64_front:
  "buffer_ok b \<Longrightarrow> bytes b = be_bytes 8 (unat x) @ rest \<Longrightarrow>
   \<exists>b'. readInt64 b = Inr (x, b') \<and> buffer_ok b' \<and> bytes b' = rest"
  using read_front [of b "be_bytes 8 (unat x)" rest 8]
  by (auto simp: read_int_defs word_be_roundtrip length_be_bytes)

lemma readInt32_front:
  "buffer_ok b \<Longrightarrow> bytes b = be_bytes 4 (unat x) @ rest \<Longrightarrow>
   \<exists>b'. readInt32 b = Inr (x, b') \<and> buffer_ok b' \<and> bytes b' = rest"
  using read_front [of b "be_bytes 4 (unat x)" rest 4]
  by (auto simp: read_int_defs word_be_roundtrip length_be_bytes)

lemma readInt16_front:
  "buffer_ok b \<Longrightarrow> bytes b = be_bytes 2 (unat x) @ rest \<Longrightarrow>
   \<exists>b'. readInt16 b = Inr (x, b') \<and> buffer_ok b' \<and> bytes b' = rest"
  using read_front [of b "be_bytes 2 (unat x)" rest 2]
  by (auto simp: read_int_defs word_be_roundtrip length_be_bytes)

lemma readInt8_front:
  "buffer_ok b \<Longrightarrow> bytes b = be_bytes 1 (unat x) @ rest \<Longrightarrow>
   \<exists>b'. readInt8 b = Inr (x, b') \<and> buffer_ok b' \<and> bytes b' = rest"
  using read_front [of b "be_bytes 1 (unat x)" rest 1] word_be_roundtrip [of 1 x]
  by (auto simp: read_int_defs)

lemma readFd_ok:
  assumes ok: "buffer_ok b" and room: "readv (readFd_room b) = Inr data"
    and fits: "length data \<le> readFd_room b"
  shows "\<exists>b'. readFd readv b = Inr ((int (length data), None), b') \<and> buffer_ok b' \<and>
           bytes b' = bytes b @ data"
proof (cases "length data \<le> writableBytes b")
  case True
  with write_ok [OF ok True] room show ?thesis
    by (auto simp: readFd_def hasWritten_def asserting_eq_Inr Let_def)
next
  case False
  let ?d = "take (writableBytes b) data"
  let ?b = "(copyToWrite ?d b)\<lparr>writerIndex := length (buf (copyToWrite ?d b))\<rparr>"
  have len: "length ?d = writableBytes b"
    using False by simp
  have "buffer_ok ?b \<and> bytes ?b = bytes b @ ?d"
    using ok write_ok [OF ok, of ?d] len
    by (auto simp: hasWritten_def asserting_eq_Inr copyToWrite_def buffer_defs)
  with Buffer_append_ok [of ?b "drop (writableBytes b) data"] obtain b' where
    "Buffer_append (drop (writableBytes b) data) ?b = Inr b'" "buffer_ok b'"
    "bytes b' = bytes b @ data" by auto
  with False room show ?thesis by (simp add: readFd_def Let_def)
qed

lemma shrink_ok:
  assumes ok: "buffer_ok b" and small: "readableBytes b < 2 ^ 31"
  shows "\<exists>b'. shrink r b = Inr b' \<and> buffer_ok b' \<and> bytes b' = bytes b"
proof -
  have n: "sint (word_of_nat (readableBytes b) :: 32 word) = int (readableBytes b)"
    using small by (simp add: sint_uint signed_take_bit_int_eq_self unsigned_of_nat take_bit_nat_eq_self
        flip: take_bit_nat_def)
  have str: "toString b = Inr (bytes b)"
    using n by (simp add: toString_def bytes_def segment_def peek_def readableBytes_def drop_take)
  obtain b0 where b0: "Buffer_ctor kInitialSize = Inr b0" "buffer_ok b0" "bytes b0 = []"
    using Buffer_ctor_ok by blast
  obtain b1 where b1: "ensureWritableBytes (readableBytes b + r) b0 = Inr b1" "buffer_ok b1" "bytes b1 = []"
    using ensureWritableBytes_ok [OF b0(2)] b0(3) by metis
  obtain b2 where "Buffer_append (bytes b) b1 = Inr b2" "buffer_ok b2" "bytes b2 = bytes b"
    using Buffer_append_ok [OF b1(2)] b1(3) by (metis append_Nil)
  with b0 b1 str show ?thesis
    by (simp add: shrink_def Buffer_swap_def buffer_ok_def bytes_def)
qed


section \<open>Runs of operations\<close>

text \<open>
  The calls a client can make, run in sequence, against the plain byte list they stand for.
  \<open>None\<close> is a call outside its documented precondition.
\<close>

datatype buffer_op =
    Append string
  | Prepend string
  | EnsureWritable nat
  | Retrieve nat
  | RetrieveUntil nat
  | RetrieveAll
  | Unwrite nat

fun buffer_step :: "buffer_op \<Rightarrow> buffer \<Rightarrow> buffer res" where
  "buffer_step (Append s) b = Buffer_append s b"
| "buffer_step (Prepend s) b = prepend s b"
| "buffer_step (EnsureWritable n) b = ensureWritableBytes n b"
| "buffer_step (Retrieve n) b = retrieve n b"
| "buffer_step (RetrieveUntil k) b = retrieveUntil (peek b + k) b"
| "buffer_step RetrieveAll b = Inr (retrieveAll b)"
| "buffer_step (Unwrite n) b = unwrite n b"

fun byte_step :: "buffer_op \<Rightarrow> string \<Rightarrow> string option" where
  "byte_step (Append s) c = Some (c @ s)"
| "byte_step (Prepend s) c = Some (s @ c)"
| "byte_step (EnsureWritable n) c = Some c"
| "byte_step (Retrieve n) c = (if n \<le> length c then Some (drop n c) else None)"
| "byte_step (RetrieveUntil n) c = (if n \<le> length c then Some (drop n c) else None)"
| "byte_step RetrieveAll c = Some []"
| "byte_step (Unwrite n) c = (if n \<le> length c then Some (take (length c - n) c) else None)"

fun buffer_run :: "buffer_op list \<Rightarrow> buffer \<Rightarrow> buffer res" where
  "buffer_run [] b = Inr b"
| "buffer_run (x # xs) b = andThen (buffer_step x b) (buffer_run xs)"

fun byte_run :: "buffer_op list \<Rightarrow> string \<Rightarrow> string option" where
  "byte_run [] c = Some c"
| "byte_run (x # xs) c = (case byte_step x c of None \<Rightarrow> None | Some c' \<Rightarrow> byte_run xs c')"

fun is_prepend :: "buffer_op \<Rightarrow> bool" where
  "is_prepend (Prepend s) = True"
| "is_prepend _ = False"

lemma retrieveUntil_retrieve:
  "buffer_ok b \<Longrightarrow> retrieveUntil (peek b + k) b = retrieve k b"
  by (auto simp: retrieveUntil_def retrieve_def asserting_def buffer_defs)

lemma buffer_step_sound:
  assumes "buffer_ok b" and "buffer_step x b = Inr b'"
  shows "buffer_ok b' \<and> byte_step x (bytes b) = Some (bytes b')"
proof (cases x)
  case (Append s)
  with assms Buffer_append_ok [of b s] show ?thesis by auto
next
  case (Prepend s)
  with assms have "length s \<le> readerIndex b"
    by (simp add: prepend_def prependableBytes_def asserting_eq_Inr)
  with assms Prepend prepend_ok [of b s] show ?thesis by auto
next
  case (EnsureWritable n)
  with assms ensureWritableBytes_ok [of b n] show ?thesis by auto
next
  case (Retrieve n)
  with assms have "n \<le> readableBytes b" by (simp add: retrieve_def asserting_eq_Inr)
  with assms Retrieve retrieve_ok [of b n] show ?thesis by (auto simp: length_bytes)
next
  case (RetrieveUntil n)
  with assms have r: "retrieve n b = Inr b'" by (simp add: retrieveUntil_retrieve)
  then have "n \<le> readableBytes b" by (simp add: retrieve_def asserting_eq_Inr)
  with assms RetrieveUntil r retrieve_ok [of b n] show ?thesis by (auto simp: length_bytes)
next
  case RetrieveAll
  with assms retrieveAll_ok show ?thesis by auto
next
  case (Unwrite n)
  with assms have "n \<le> readableBytes b" by (simp add: unwrite_def asserting_eq_Inr)
  with assms Unwrite unwrite_ok [of b n] show ?thesis by (auto simp: length_bytes)
qed

lemma buffer_step_total:
  assumes "buffer_ok b" and "byte_step x (bytes b) = Some c" and "\<not> is_prepend x"
  shows "\<exists>b'. buffer_step x b = Inr b'"
proof (cases x)
  case (Append s)
  with assms Buffer_append_ok [of b s] show ?thesis by auto
next
  case (Prepend s)
  with assms show ?thesis by simp
next
  case (EnsureWritable n)
  with assms ensureWritableBytes_ok [of b n] show ?thesis by auto
next
  case (Retrieve n)
  with assms retrieve_ok [of b n] show ?thesis by (auto simp: length_bytes split: if_splits)
next
  case (RetrieveUntil n)
  with assms retrieve_ok [of b n] show ?thesis
    by (auto simp: length_bytes retrieveUntil_retrieve split: if_splits)
next
  case RetrieveAll
  then show ?thesis by simp
next
  case (Unwrite n)
  with assms unwrite_ok [of b n] show ?thesis by (auto simp: length_bytes split: if_splits)
qed

lemma buffer_run_sound:
  "buffer_ok b \<Longrightarrow> buffer_run xs b = Inr b' \<Longrightarrow> buffer_ok b' \<and> byte_run xs (bytes b) = Some (bytes b')"
proof (induction xs arbitrary: b)
  case Nil
  then show ?case by simp
next
  case (Cons x xs)
  then obtain b1 where "buffer_step x b = Inr b1" "buffer_run xs b1 = Inr b'"
    by (auto simp: andThen_eq_Inr)
  with buffer_step_sound [of b x b1] Cons.IH [of b1] Cons.prems(1) show ?case by simp
qed

lemma buffer_run_total:
  "buffer_ok b \<Longrightarrow> byte_run xs (bytes b) = Some c \<Longrightarrow> \<forall>x \<in> set xs. \<not> is_prepend x \<Longrightarrow>
   \<exists>b'. buffer_run xs b = Inr b'"
proof (induction xs arbitrary: b)
  case Nil
  then show ?case by simp
next
  case (Cons x xs)
  from Cons.prems obtain c1 where c1: "byte_step x (bytes b) = Some c1" "byte_run xs c1 = Some c"
    by (auto split: option.splits)
  from buffer_step_total [OF Cons.prems(1) c1(1)] Cons.prems obtain b1 where
    b1: "buffer_step x b = Inr b1" by auto
  with buffer_step_sound [OF Cons.prems(1) b1] c1 Cons.IH [of b1] Cons.prems show ?case by simp
qed


section \<open>Properties\<close>



text \<open>
  C9. Reading from a socket: whatever number of bytes \<^verbatim>\<open>readv\<close> delivers within the room it was
  offered (the writable part and, when that is small, 64 KiB on the stack), the readable bytes
  afterwards are the old ones followed by exactly those bytes, the index invariant is kept, and
  the call returns their number; an error leaves the buffer as it was and reports \<^verbatim>\<open>errno\<close>.
\<close>

theorem readFd_appends_received:
  assumes "buffer_ok b"
    and "\<And>s. readv (readFd_room b) = Inr s \<Longrightarrow> length s \<le> readFd_room b"
  shows "case readv (readFd_room b) of
      Inl e \<Rightarrow> readFd readv b = Inr ((- 1, Some e), b)
    | Inr s \<Rightarrow> (\<exists>b'. readFd readv b = Inr ((int (length s), None), b') \<and> buffer_ok b' \<and>
                      bytes b' = bytes b @ s)"
  using readFd_ok [OF assms(1)] assms(2) by (auto split: sum.splits simp: readFd_def)

theorem readFd_appends_received_witness:
  "\<exists>b b'. Buffer_ctor 4 = Inr b \<and> readFd (\<lambda>room. Inr ''segment'') b = Inr ((7, None), b') \<and>
     bytes b' = ''segment''"
proof -
  obtain b where "Buffer_ctor 4 = Inr b" "buffer_ok b" "bytes b = []"
    using Buffer_ctor_ok by blast
  with readFd_appends_received [of b "\<lambda>room. Inr ''segment''"] show ?thesis
    by (fastforce simp: readFd_room_def sizeof_extrabuf_def Let_def)
qed

text \<open>
  C10. Network-order integers round trip at every width: what \<^verbatim>\<open>appendIntN\<close> writes behind
  nothing, \<^verbatim>\<open>readIntN\<close> reads back, sign included, and consumes; and a prepended integer is
  read back in front of what was there.
\<close>

theorem append_read_int_roundtrip:
  assumes "buffer_ok b" and "bytes b = []"
  shows "(\<exists>b'. andThen (appendInt64 x64 b) readInt64 = Inr (x64, b') \<and> bytes b' = []) \<and>
         (\<exists>b'. andThen (appendInt32 x32 b) readInt32 = Inr (x32, b') \<and> bytes b' = []) \<and>
         (\<exists>b'. andThen (appendInt16 x16 b) readInt16 = Inr (x16, b') \<and> bytes b' = []) \<and>
         (\<exists>b'. andThen (appendInt8 x8 b) readInt8 = Inr (x8, b') \<and> bytes b' = [])"
proof -
  have rt: "\<exists>b'. andThen (Buffer_append s b) f = Inr (x, b') \<and> bytes b' = []"
    if f: "\<And>b1. buffer_ok b1 \<Longrightarrow> bytes b1 = s @ [] \<Longrightarrow> \<exists>b'. f b1 = Inr (x, b') \<and> buffer_ok b' \<and> bytes b' = []"
    for s x and f :: "buffer \<Rightarrow> ('x \<times> buffer) res"
  proof -
    obtain b1 where "Buffer_append s b = Inr b1" "buffer_ok b1" "bytes b1 = s @ []"
      using Buffer_append_ok [OF assms(1), of s] assms(2) by auto
    with f [of b1] show ?thesis by auto
  qed
  show ?thesis
    unfolding appendInt64_def appendInt32_def appendInt16_def appendInt8_def
    by (intro conjI rt readInt64_front readInt32_front readInt16_front readInt8_front) simp_all
qed

theorem append_read_int_roundtrip_witness:
  "\<exists>b. Buffer_ctor 16 = Inr b \<and> (\<exists>b'. andThen (appendInt32 (- 5) b) readInt32 = Inr (- 5, b') \<and> bytes b' = [])"
proof -
  obtain b where "Buffer_ctor 16 = Inr b" "buffer_ok b" "bytes b = []"
    using Buffer_ctor_ok by blast
  with append_read_int_roundtrip [of b 0 "- 5" 0 0] show ?thesis by blast
qed

end
