(* ===== verification/Codec.thy ===== *)
theory Codec
  imports Buffer
begin

text \<open>
  The wire format (\<^verbatim>\<open>codec.h\<close>, \<^verbatim>\<open>codec.cc\<close>, \<^verbatim>\<open>google-inl.h\<close>) and the dispatch by message
  type (\<^verbatim>\<open>dispatcher.h\<close>).

  A frame is a 32-bit length, then a 32-bit name length, the type name with its NUL, the
  serialized message, and the Adler-32 checksum of all that follows the first length. The
  protobuf runtime and zlib are not part of the repository: the record \<open>protobuf\<close> holds
  the functions the codec calls, and \<open>transmissible\<close> states what the runtime documents about
  them for one message. The connection a callback acts on, and whatever else it changes, is the
  state \<open>'s\<close> that the callbacks thread through.

  Shown here: a buffer filled by the encoder is a frame; the decoder delivers the messages of a
  stream of frames in order however TCP cuts the stream; on arbitrary bytes it never fails an
  assertion, terminates, and delivers only what carries a valid checksum; a callback registered
  for a type, and no other, gets its messages.
\<close>

section \<open>What the codec uses of protobuf and zlib\<close>

record ('m, 'd) protobuf =
  GetTypeName :: "'m \<Rightarrow> string"
  IsInitialized :: "'m \<Rightarrow> bool"
  ByteSize :: "'m \<Rightarrow> nat"
  SerializeWithCachedSizesToArray :: "'m \<Rightarrow> string"
  FindMessageTypeByName :: "string \<Rightarrow> 'd option"
  GetPrototype :: "'d \<Rightarrow> 'm option"
  New :: "'m \<Rightarrow> 'm"
  ParseFromArray :: "'m \<Rightarrow> string \<Rightarrow> 'm \<times> bool"
  GetDescriptor :: "'m \<Rightarrow> 'd"
  adler32 :: "nat \<Rightarrow> string \<Rightarrow> 32 word"


section \<open>The codec\<close>

datatype ErrorCode =
    kNoError
  | kInvalidLength
  | kCheckSumError
  | kInvalidNameLen
  | kUnknownMessageType
  | kParseError

definition kHeaderLen :: nat where
  "kHeaderLen = 4"

definition kMinMessageLen :: nat where
  "kMinMessageLen = 2 * kHeaderLen + 2"

definition kMaxMessageLen :: nat where
  "kMaxMessageLen = 64 * 1024 * 1024"

text \<open>\<^verbatim>\<open>google-inl.h\<close>: every branch of the consistency check ends the process.\<close>

definition ByteSizeConsistencyError :: "nat \<Rightarrow> nat \<Rightarrow> nat \<Rightarrow> 'a res" where
  "ByteSizeConsistencyError byte_size_before byte_size_after bytes_produced =
     (if byte_size_before \<noteq> byte_size_after then Inl (Fatal ''modified concurrently during serialization'')
      else if bytes_produced \<noteq> byte_size_before then Inl (Fatal ''byte size calculation inconsistent'')
      else Inl (Fatal ''should not be called if all the sizes are equal''))"

definition InitializationErrorMessage ::
    "('m, 'd) protobuf \<Rightarrow> ('m \<Rightarrow> string) \<Rightarrow> string \<Rightarrow> 'm \<Rightarrow> string" where
  "InitializationErrorMessage pb InitializationErrorString action message =
     ''Can't '' @ action @ '' message of type \"'' @ GetTypeName pb message @
     ''\" because it is missing required fields: '' @ InitializationErrorString message"

text \<open>
  The message is serialized straight into the writable part: more bytes than
  \<^verbatim>\<open>ensureWritableBytes\<close> provided would be written past the end of the vector.
\<close>

definition fillEmptyBuffer :: "('m, 'd) protobuf \<Rightarrow> 'm \<Rightarrow> buffer \<Rightarrow> buffer res" where
  "fillEmptyBuffer pb message b =
     asserting (readableBytes b = 0)
     (let typeName = GetTypeName pb message;
          nameLen = word_of_nat (length typeName + 1) :: 32 word
      in andThen (appendInt32 nameLen b) (\<lambda>b.
         if sint nameLen < 0 then Inl (UndefinedBehaviour ''append'') else
         andThen (Buffer_append (take (nat (sint nameLen)) (typeName @ [NUL])) b) (\<lambda>b.
         if \<not> IsInitialized pb message then Inl (Fatal ''missing required fields'') else
         let byte_size = ByteSize pb message in
         andThen (ensureWritableBytes byte_size b) (\<lambda>b.
         let written = SerializeWithCachedSizesToArray pb message in
         if writableBytes b < length written then Inl (UndefinedBehaviour ''serialize'') else
         if length written \<noteq> byte_size
         then ByteSizeConsistencyError byte_size (ByteSize pb message) (length written) else
         andThen (hasWritten byte_size (copyToWrite written b)) (\<lambda>b.
         let checkSum = adler32 pb 1 (take (readableBytes b mod 2 ^ 32) (bytes b)) in
         andThen (appendInt32 checkSum b) (\<lambda>b.
         asserting (readableBytes b = 4 + nat (sint nameLen) + byte_size + 4)
         (prepend (be_bytes 4 (readableBytes b)) b)))))))"

text \<open>\<^verbatim>\<open>ProtobufCodec::send\<close> up to the hand-over to \<^verbatim>\<open>TcpConnection::send(Buffer*)\<close>.\<close>

definition ProtobufCodec_send :: "('m, 'd) protobuf \<Rightarrow> (buffer \<Rightarrow> 's \<Rightarrow> 's res) \<Rightarrow> 'm \<Rightarrow> 's \<Rightarrow> 's res" where
  "ProtobufCodec_send pb conn_send message s =
     andThen (Buffer_ctor kInitialSize) (\<lambda>b.
     andThen (fillEmptyBuffer pb message b) (\<lambda>b. conn_send b s))"

fun errorCodeToString :: "ErrorCode \<Rightarrow> string" where
  "errorCodeToString kNoError = ''NoError''"
| "errorCodeToString kInvalidLength = ''InvalidLength''"
| "errorCodeToString kCheckSumError = ''CheckSumError''"
| "errorCodeToString kInvalidNameLen = ''InvalidNameLen''"
| "errorCodeToString kUnknownMessageType = ''UnknownMessageType''"
| "errorCodeToString kParseError = ''ParseError''"

text \<open>The log line of the callback is left out; \<open>connected\<close> covers the null test of the pointer.\<close>

definition defaultErrorCallback ::
    "('s \<Rightarrow> bool) \<Rightarrow> ('s \<Rightarrow> 's res) \<Rightarrow> ErrorCode \<Rightarrow> buffer \<Rightarrow> 's \<Rightarrow> (buffer \<times> 's) res" where
  "defaultErrorCallback connected shutdown errorCode b s =
     (if connected s then andThen (shutdown s) (\<lambda>s'. Inr (b, s')) else Inr (b, s))"

definition asInt32 :: "string \<Rightarrow> 32 word" where
  "asInt32 p = word_of_nat (be_val (take 4 p))"

definition createMessage :: "('m, 'd) protobuf \<Rightarrow> string \<Rightarrow> 'm option" where
  "createMessage pb typeName =
     (case FindMessageTypeByName pb typeName of
        None \<Rightarrow> None
      | Some descriptor \<Rightarrow>
          (case GetPrototype pb descriptor of
             None \<Rightarrow> None
           | Some prototype \<Rightarrow> Some (New pb prototype)))"

text \<open>\<^verbatim>\<open>parse\<close> on the \<open>len\<close> bytes at \<^verbatim>\<open>buf\<close>.\<close>

definition parse :: "('m, 'd) protobuf \<Rightarrow> string \<Rightarrow> 'm option \<times> ErrorCode" where
  "parse pb p =
     (let len = length p;
          expectedCheckSum = asInt32 (drop (len - kHeaderLen) p);
          checkSum = adler32 pb 1 (take (len - kHeaderLen) p)
      in if checkSum = expectedCheckSum then
           (let nameLen = sint (asInt32 p)
            in if nameLen \<ge> 2 \<and> nameLen \<le> int len - 2 * int kHeaderLen then
                 (let typeName = segment kHeaderLen (kHeaderLen + nat nameLen - 1) p
                  in case createMessage pb typeName of
                       Some message \<Rightarrow>
                         (let dataLen = len - nat nameLen - 2 * kHeaderLen;
                              parsed = ParseFromArray pb message
                                         (take dataLen (drop (kHeaderLen + nat nameLen) p))
                          in (Some (fst parsed), if snd parsed then kNoError else kParseError))
                     | None \<Rightarrow> (None, kUnknownMessageType))
               else (None, kInvalidNameLen))
         else (None, kCheckSumError))"

function onMessage ::
    "('m, 'd) protobuf \<Rightarrow> ('m \<Rightarrow> 's \<Rightarrow> 's res) \<Rightarrow> (ErrorCode \<Rightarrow> buffer \<Rightarrow> 's \<Rightarrow> (buffer \<times> 's) res) \<Rightarrow>
     buffer \<Rightarrow> 's \<Rightarrow> (buffer \<times> 's) res" where
  "onMessage pb messageCallback errorCallback b s =
     (if readableBytes b \<ge> kMinMessageLen + kHeaderLen then
        andThen (peekInt32 b) (\<lambda>w.
        let len = sint w in
        if len > int kMaxMessageLen \<or> len < int kMinMessageLen then errorCallback kInvalidLength b s
        else if readableBytes b \<ge> nat len + kHeaderLen then
          (case parse pb (take (nat len) (drop (peek b + kHeaderLen) (buf b))) of
             (Some message, kNoError) \<Rightarrow>
               andThen (messageCallback message s) (\<lambda>s'.
               andThen (retrieve (kHeaderLen + nat len) b) (\<lambda>b'.
               onMessage pb messageCallback errorCallback b' s'))
           | (_, errorCode) \<Rightarrow> errorCallback errorCode b s)
        else Inr (b, s))
      else Inr (b, s))"
  by pat_completeness auto

termination
  by (relation "measure (\<lambda>(pb, mcb, ecb, b, s). readableBytes b)")
     (auto simp: kHeaderLen_def dest: retrieve_readable_less)

declare onMessage.simps [simp del]


section \<open>The dispatcher\<close>

text \<open>
  A registered callback is the pair of the type it was registered for and the function; the
  downcast of \<^verbatim>\<open>CallbackT<T>::onMessage\<close> is checked by its assertion.
\<close>

record ('m, 'd, 's) dispatcher =
  callbacks :: "'d \<rightharpoonup> ('d \<times> ('m \<Rightarrow> 's \<Rightarrow> 's res))"
  defaultCallback :: "'m \<Rightarrow> 's \<Rightarrow> 's res"

definition ProtobufDispatcher :: "('m \<Rightarrow> 's \<Rightarrow> 's res) \<Rightarrow> ('m, 'd, 's) dispatcher" where
  "ProtobufDispatcher defaultCb = \<lparr>callbacks = Map.empty, defaultCallback = defaultCb\<rparr>"

definition CallbackT_onMessage ::
    "('m, 'd) protobuf \<Rightarrow> 'd \<times> ('m \<Rightarrow> 's \<Rightarrow> 's res) \<Rightarrow> 'm \<Rightarrow> 's \<Rightarrow> 's res" where
  "CallbackT_onMessage pb cb message s =
     asserting (GetDescriptor pb message = fst cb) (snd cb message s)"

definition onProtobufMessage ::
    "('m, 'd) protobuf \<Rightarrow> ('m, 'd, 's) dispatcher \<Rightarrow> 'm \<Rightarrow> 's \<Rightarrow> 's res" where
  "onProtobufMessage pb d message s =
     (case callbacks d (GetDescriptor pb message) of
        Some cb \<Rightarrow> CallbackT_onMessage pb cb message s
      | None \<Rightarrow> defaultCallback d message s)"

definition registerMessageCallback ::
    "'d \<Rightarrow> ('m \<Rightarrow> 's \<Rightarrow> 's res) \<Rightarrow> ('m, 'd, 's) dispatcher \<Rightarrow> ('m, 'd, 's) dispatcher" where
  "registerMessageCallback descriptor callback d =
     d\<lparr>callbacks := (callbacks d)(descriptor \<mapsto> (descriptor, callback))\<rparr>"


section \<open>The frame format\<close>

definition frame_payload :: "('m, 'd) protobuf \<Rightarrow> 'm \<Rightarrow> string" where
  "frame_payload pb m =
     be_bytes 4 (length (GetTypeName pb m) + 1) @ (GetTypeName pb m @ [NUL]) @
     SerializeWithCachedSizesToArray pb m"

definition frame_body :: "('m, 'd) protobuf \<Rightarrow> 'm \<Rightarrow> string" where
  "frame_body pb m = frame_payload pb m @ be_bytes 4 (unat (adler32 pb 1 (frame_payload pb m)))"

definition frame :: "('m, 'd) protobuf \<Rightarrow> 'm \<Rightarrow> string" where
  "frame pb m = be_bytes 4 (length (frame_body pb m)) @ frame_body pb m"

text \<open>
  What the protobuf runtime promises for a message of a known type that is initialized: the sizes
  agree, the type is found by its name, and parsing the serialized bytes into a fresh object
  of that type gives the message back. The last conjunct is the size limit of the protocol.
\<close>

definition transmissible :: "('m, 'd) protobuf \<Rightarrow> 'm \<Rightarrow> bool" where
  "transmissible pb m \<longleftrightarrow>
     IsInitialized pb m \<and> ByteSize pb m = length (SerializeWithCachedSizesToArray pb m) \<and>
     GetTypeName pb m \<noteq> [] \<and>
     (case createMessage pb (GetTypeName pb m) of
        None \<Rightarrow> False
      | Some fresh \<Rightarrow> ParseFromArray pb fresh (SerializeWithCachedSizesToArray pb m) = (m, True)) \<and>
     length (frame_body pb m) \<le> kMaxMessageLen"

lemma length_frame_payload:
  "length (frame_payload pb m) =
     4 + (length (GetTypeName pb m) + 1) + length (SerializeWithCachedSizesToArray pb m)"
  by (simp add: frame_payload_def)

lemma length_frame_body:
  "length (frame_body pb m) =
     4 + (length (GetTypeName pb m) + 1) + length (SerializeWithCachedSizesToArray pb m) + 4"
  by (simp add: frame_body_def length_frame_payload)

lemma length_frame: "length (frame pb m) = 4 + length (frame_body pb m)"
  by (simp add: frame_def)

lemma frame_body_bounds:
  assumes "transmissible pb m"
  shows "10 \<le> length (frame_body pb m)" and "length (frame_body pb m) \<le> 2 ^ 26"
    and "length (GetTypeName pb m) + 1 < 2 ^ 31"
proof -
  have "GetTypeName pb m \<noteq> []" and le: "length (frame_body pb m) \<le> kMaxMessageLen"
    using assms by (simp_all add: transmissible_def)
  then have "1 \<le> length (GetTypeName pb m)" by (cases "GetTypeName pb m") auto
  with le show "10 \<le> length (frame_body pb m)" and "length (frame_body pb m) \<le> 2 ^ 26"
    and "length (GetTypeName pb m) + 1 < 2 ^ 31"
    by (simp_all add: length_frame_body kMaxMessageLen_def)
qed

lemma sint_word_of_nat_small: "n < 2 ^ 31 \<Longrightarrow> sint (word_of_nat n :: 32 word) = int n"
  by (simp add: sint_uint signed_take_bit_int_eq_self unsigned_of_nat take_bit_nat_eq_self
      flip: take_bit_nat_def)

lemma unat_word_of_nat_small: "n < 2 ^ 31 \<Longrightarrow> unat (word_of_nat n :: 32 word) = n"
  by (simp add: unsigned_of_nat take_bit_nat_eq_self)

lemma asInt32_be_bytes: "asInt32 (be_bytes 4 v @ rest) = word_of_nat v"
  by (simp add: asInt32_def be_val_be_bytes) (simp add: word_of_nat_eq_iff take_bit_nat_def)


section \<open>The encoder\<close>

lemma append_fresh:
  assumes "buffer_ok b" and "readerIndex b = kCheapPrepend"
  shows "\<exists>b'. Buffer_append s b = Inr b' \<and> buffer_ok b' \<and> bytes b' = bytes b @ s \<and>
           readerIndex b' = kCheapPrepend"
  using Buffer_append_ok [OF assms(1), of s] assms(2) by auto

lemma fillEmptyBuffer_frame:
  assumes m: "transmissible pb m"
    and b: "buffer_ok b" "bytes b = []" "readerIndex b = kCheapPrepend"
  shows "\<exists>b'. fillEmptyBuffer pb m b = Inr b' \<and> buffer_ok b' \<and> bytes b' = frame pb m"
proof -
  let ?name = "GetTypeName pb m" and ?ser = "SerializeWithCachedSizesToArray pb m"
  let ?n = "length ?name + 1"
  note bounds = frame_body_bounds [OF m]
  have n: "sint (word_of_nat ?n :: 32 word) = int ?n" "unat (word_of_nat ?n :: 32 word) = ?n"
    using bounds(3) by (rule sint_word_of_nat_small, rule unat_word_of_nat_small)
  obtain b1 where b1: "Buffer_append (be_bytes 4 ?n) b = Inr b1" "buffer_ok b1"
      "bytes b1 = be_bytes 4 ?n" "readerIndex b1 = kCheapPrepend"
    using append_fresh [OF b(1,3)] b(2) by (metis append_Nil)
  obtain b2 where b2: "Buffer_append (?name @ [NUL]) b1 = Inr b2" "buffer_ok b2"
      "bytes b2 = be_bytes 4 ?n @ ?name @ [NUL]" "readerIndex b2 = kCheapPrepend"
    using append_fresh [OF b1(2,4)] b1(3) by metis
  obtain b3 where b3: "ensureWritableBytes (length ?ser) b2 = Inr b3" "buffer_ok b3"
      "bytes b3 = bytes b2" "length ?ser \<le> writableBytes b3" "readerIndex b3 = kCheapPrepend"
    using ensureWritableBytes_ok [OF b2(2)] b2(4) by metis
  obtain b4 where b4: "hasWritten (length ?ser) (copyToWrite ?ser b3) = Inr b4" "buffer_ok b4"
      "bytes b4 = frame_payload pb m" "readerIndex b4 = kCheapPrepend"
    using write_ok [OF b3(2,4)] b3(3,5) b2(3) by (auto simp: frame_payload_def)
  have r4: "readableBytes b4 = length (frame_payload pb m)"
    using length_bytes [OF b4(2)] b4(3) by simp
  let ?sum = "adler32 pb 1 (frame_payload pb m)"
  obtain b5 where b5: "Buffer_append (be_bytes 4 (unat ?sum)) b4 = Inr b5" "buffer_ok b5"
      "bytes b5 = frame_body pb m" "readerIndex b5 = kCheapPrepend"
    using append_fresh [OF b4(2,4)] b4(3) by (metis frame_body_def)
  have r5: "readableBytes b5 = length (frame_body pb m)"
    using length_bytes [OF b5(2)] b5(3) by simp
  have mod: "length (frame_payload pb m) mod 2 ^ 32 = length (frame_payload pb m)"
    using bounds(2) by (simp add: frame_body_def)
  obtain b6 where b6: "prepend (be_bytes 4 (length (frame_body pb m))) b5 = Inr b6" "buffer_ok b6"
      "bytes b6 = frame pb m"
    using prepend_ok [OF b5(2), of "be_bytes 4 (length (frame_body pb m))"] b5(3,4)
    by (auto simp: frame_def kCheapPrepend_def)
  have "readableBytes b = 0"
    using length_bytes [OF b(1)] b(2) by simp
  with m n b1(1) b2(1) b3(1,4) b4(1,3) b5(1) b6 r4 r5 mod show ?thesis
    by (simp add: fillEmptyBuffer_def transmissible_def appendInt32_def length_frame_body nat_add_distrib
        Let_def)
qed

lemma send_frame:
  assumes "transmissible pb m"
  shows "\<exists>b. ProtobufCodec_send pb conn_send m s = conn_send b s \<and> buffer_ok b \<and> bytes b = frame pb m"
proof -
  obtain b where "Buffer_ctor kInitialSize = Inr b" "buffer_ok b" "bytes b = []"
      "readerIndex b = kCheapPrepend"
    using Buffer_ctor_ok by blast
  with fillEmptyBuffer_frame [OF assms, of b] show ?thesis
    by (auto simp: ProtobufCodec_send_def)
qed


section \<open>The decoder\<close>

text \<open>What \<^verbatim>\<open>parse\<close> accepts, in terms of the layout of the bytes.\<close>

definition well_formed :: "('m, 'd) protobuf \<Rightarrow> string \<Rightarrow> string \<Rightarrow> char \<Rightarrow> string \<Rightarrow> 'm \<Rightarrow> bool" where
  "well_formed pb p name c data m \<longleftrightarrow>
     (let payload = be_bytes 4 (length name + 1) @ name @ [c] @ data
      in p = payload @ be_bytes 4 (unat (adler32 pb 1 payload)) \<and> name \<noteq> [] \<and>
         (case createMessage pb name of
            None \<Rightarrow> False
          | Some fresh \<Rightarrow> ParseFromArray pb fresh data = (m, True)))"

lemma parse_well_formed:
  assumes wf: "well_formed pb p name c data m" and len: "length p < 2 ^ 31"
  shows "parse pb p = (Some m, kNoError)"
proof -
  let ?pay = "be_bytes 4 (length name + 1) @ name @ [c] @ data"
  have p: "p = ?pay @ be_bytes 4 (unat (adler32 pb 1 ?pay))"
    using wf unfolding well_formed_def by meson
  have lp: "length p = 9 + length name + length data"
    by (subst p) simp
  have sum: "asInt32 (drop (length p - 4) p) = adler32 pb 1 (take (length p - 4) p)"
    unfolding p using asInt32_be_bytes [of "unat (adler32 pb 1 ?pay)" "[]"] by simp
  have name: "asInt32 p = word_of_nat (length name + 1)"
    by (subst p) (simp add: asInt32_be_bytes)
  have "sint (asInt32 p) = int (length name + 1)"
    unfolding name using len lp by (intro sint_word_of_nat_small) simp
  moreover have "segment 4 (4 + (length name + 1) - 1) p = name"
      "take (length p - (length name + 1) - 8) (drop (4 + (length name + 1)) p) = data"
    unfolding lp by (subst p, simp add: segment_def)+
  moreover have "1 \<le> length name"
    using wf by (cases name) (auto simp: well_formed_def)
  ultimately show ?thesis
    using sum wf lp
    by (auto simp: parse_def kHeaderLen_def well_formed_def Let_def split: option.splits)
qed

lemma parse_frame_body:
  assumes "transmissible pb m"
  shows "parse pb (frame_body pb m) = (Some m, kNoError)"
proof (rule parse_well_formed)
  show "well_formed pb (frame_body pb m) (GetTypeName pb m) NUL (SerializeWithCachedSizesToArray pb m) m"
    using assms by (simp add: well_formed_def transmissible_def frame_body_def frame_payload_def Let_def)
  show "length (frame_body pb m) < 2 ^ 31"
    using frame_body_bounds [OF assms] by simp
qed

text \<open>One complete frame at the front of the buffer is one turn of the loop.\<close>

lemma onMessage_frame:
  assumes m: "transmissible pb m" and ok: "buffer_ok b" and front: "bytes b = frame pb m @ rest"
  shows "\<exists>b'. onMessage pb mcb ecb b s = andThen (mcb m s) (onMessage pb mcb ecb b') \<and>
           buffer_ok b' \<and> bytes b' = rest"
proof -
  let ?n = "length (frame_body pb m)"
  note bounds = frame_body_bounds [OF m]
  have r: "readableBytes b = 4 + ?n + length rest"
    using length_bytes [OF ok] front by (simp add: length_frame)
  have peek: "peekInt32 b = Inr (word_of_nat ?n)"
    using peekInt32_bytes [OF ok] r front asInt32_be_bytes [of ?n]
    by (simp add: frame_def asInt32_def)
  have len: "sint (word_of_nat ?n :: 32 word) = int ?n"
    using bounds(2) by (intro sint_word_of_nat_small) simp
  have body: "take ?n (drop (peek b + 4) (buf b)) = frame_body pb m"
    using drop_bytes [OF ok, of 4 ?n] r front by (simp add: frame_def)
  obtain b' where "retrieve (4 + ?n) b = Inr b'" "buffer_ok b'" "bytes b' = rest"
    using read_front [OF ok front, of "4 + ?n"] by (auto simp: length_frame)
  with r peek len body bounds(1,2) show ?thesis
    by (subst onMessage.simps)
       (auto simp: kMinMessageLen_def kHeaderLen_def kMaxMessageLen_def parse_frame_body [OF m] Let_def)
qed

text \<open>A frame that is not complete yet stays in the buffer, whatever part of it is there.\<close>

lemma onMessage_partial:
  assumes m: "transmissible pb m" and ok: "buffer_ok b"
    and front: "bytes b @ missing = frame pb m @ rest" and less: "length (bytes b) < length (frame pb m)"
  shows "onMessage pb mcb ecb b s = Inr (b, s)"
proof (cases "readableBytes b \<ge> 14")
  case False
  then show ?thesis
    by (subst onMessage.simps) (simp add: kMinMessageLen_def kHeaderLen_def)
next
  case True
  let ?n = "length (frame_body pb m)"
  note bounds = frame_body_bounds [OF m]
  have "take 4 (bytes b) = take 4 (bytes b @ missing)"
    using True length_bytes [OF ok] by simp
  also have "\<dots> = be_bytes 4 ?n"
    unfolding front by (simp add: frame_def)
  finally have peek: "peekInt32 b = Inr (word_of_nat ?n)"
    using peekInt32_bytes [OF ok] True asInt32_be_bytes [of ?n "[]"] by (simp add: asInt32_def)
  have len: "sint (word_of_nat ?n :: 32 word) = int ?n"
    using bounds(2) by (intro sint_word_of_nat_small) simp
  have "readableBytes b < 4 + ?n"
    using less length_bytes [OF ok] by (simp add: length_frame)
  with peek len bounds(1,2) show ?thesis
    by (subst onMessage.simps)
       (auto simp: kMinMessageLen_def kHeaderLen_def kMaxMessageLen_def Let_def)
qed

text \<open>The callbacks a list of messages causes.\<close>

fun deliver :: "('m \<Rightarrow> 's \<Rightarrow> 's res) \<Rightarrow> 'm list \<Rightarrow> 's \<Rightarrow> 's res" where
  "deliver mcb [] s = Inr s"
| "deliver mcb (m # ms) s = andThen (mcb m s) (deliver mcb ms)"

lemma deliver_append: "deliver mcb (xs @ ys) s = andThen (deliver mcb xs s) (deliver mcb ys)"
  by (induction xs arbitrary: s) (auto simp: andThen_assoc intro!: andThen_cong)

text \<open>What a connection still has to receive is a list of frames cut at the front.\<close>

definition pending :: "('m, 'd) protobuf \<Rightarrow> 'm list \<Rightarrow> string \<Rightarrow> string \<Rightarrow> bool" where
  "pending pb ms got missing \<longleftrightarrow>
     got @ missing = concat (map (frame pb) ms) \<and>
     (case ms of [] \<Rightarrow> True | m # _ \<Rightarrow> length got < length (frame pb m))"

lemma onMessage_stream:
  assumes "\<forall>m \<in> set ms. transmissible pb m" and "buffer_ok b"
    and "bytes b @ missing = concat (map (frame pb) ms)"
  shows "\<exists>now later b'. ms = now @ later \<and> buffer_ok b' \<and> pending pb later (bytes b') missing \<and>
           onMessage pb mcb ecb b s = andThen (deliver mcb now s) (\<lambda>s'. Inr (b', s'))"
  using assms
proof (induction ms arbitrary: b s)
  case Nil
  then have "onMessage pb mcb ecb b s = Inr (b, s)"
    using length_bytes [of b] by (subst onMessage.simps) (simp add: kMinMessageLen_def kHeaderLen_def)
  with Nil show ?case
    by (intro exI [of _ "[]"] exI [of _ b]) (simp add: pending_def)
next
  case (Cons m ms)
  show ?case
  proof (cases "length (bytes b) < length (frame pb m)")
    case True
    with Cons.prems onMessage_partial [of pb m b missing "concat (map (frame pb) ms)"] show ?thesis
      by (intro exI [of _ "[]"] exI [of _ "m # ms"] exI [of _ b]) (auto simp: pending_def)
  next
    case False
    have le: "length (frame pb m) \<le> length (bytes b)"
      using False by simp
    have eq: "bytes b @ missing = frame pb m @ concat (map (frame pb) ms)"
      using Cons.prems(3) by simp
    obtain rest where rest: "bytes b = frame pb m @ rest" "rest @ missing = concat (map (frame pb) ms)"
      using append_eq_longer [OF eq le] .
    have m: "transmissible pb m" and ms: "\<forall>m \<in> set ms. transmissible pb m"
      using Cons.prems(1) by simp_all
    obtain b1 where b1: "buffer_ok b1" "bytes b1 = rest"
        "onMessage pb mcb ecb b s = andThen (mcb m s) (onMessage pb mcb ecb b1)"
      using onMessage_frame [OF m Cons.prems(2) rest(1), of mcb ecb s] by blast
    have rest1: "bytes b1 @ missing = concat (map (frame pb) ms)"
      using b1(2) rest(2) by simp
    define s1 where "s1 = (case mcb m s of Inl e \<Rightarrow> s | Inr s1 \<Rightarrow> s1)"
    obtain now later b' where later: "ms = now @ later" "buffer_ok b'" "pending pb later (bytes b') missing"
        "onMessage pb mcb ecb b1 s1 = andThen (deliver mcb now s1) (\<lambda>s'. Inr (b', s'))"
      using Cons.IH [OF ms b1(1) rest1, of s1] by blast
    have "onMessage pb mcb ecb b s = andThen (deliver mcb (m # now) s) (\<lambda>s'. Inr (b', s'))"
      unfolding b1(3) using later(4) by (cases "mcb m s") (simp_all add: s1_def)
    with later(1,2,3) show ?thesis
      by (metis append_Cons)
  qed
qed

text \<open>The segments of a TCP stream, each appended to the input buffer and decoded.\<close>

fun feed :: "('m, 'd) protobuf \<Rightarrow> ('m \<Rightarrow> 's \<Rightarrow> 's res) \<Rightarrow> (ErrorCode \<Rightarrow> buffer \<Rightarrow> 's \<Rightarrow> (buffer \<times> 's) res) \<Rightarrow>
    string list \<Rightarrow> buffer \<Rightarrow> 's \<Rightarrow> (buffer \<times> 's) res" where
  "feed pb mcb ecb [] b s = Inr (b, s)"
| "feed pb mcb ecb (c # cs) b s =
     andThen (Buffer_append c b) (\<lambda>b. andThen (onMessage pb mcb ecb b s) (\<lambda>(b, s). feed pb mcb ecb cs b s))"

lemma feed_stream:
  assumes "\<forall>m \<in> set ms. transmissible pb m" and "buffer_ok b" and "pending pb ms (bytes b) (concat cs)"
  shows "\<exists>b'. buffer_ok b' \<and> bytes b' = [] \<and>
           feed pb mcb ecb cs b s = andThen (deliver mcb ms s) (\<lambda>s'. Inr (b', s'))"
  using assms
proof (induction cs arbitrary: ms b s)
  case Nil
  then have "ms = [] \<and> bytes b = []"
    by (cases ms) (auto simp: pending_def)
  with Nil show ?case by auto
next
  case (Cons c cs)
  obtain b1 where b1: "Buffer_append c b = Inr b1" "buffer_ok b1" "bytes b1 = bytes b @ c"
    using Buffer_append_ok [OF Cons.prems(2)] by blast
  then have "bytes b1 @ concat cs = concat (map (frame pb) ms)"
    using Cons.prems(3) by (simp add: pending_def)
  from onMessage_stream [OF Cons.prems(1) b1(2) this, of mcb ecb s]
  obtain now later b2 where b2: "ms = now @ later" "buffer_ok b2" "pending pb later (bytes b2) (concat cs)"
      "onMessage pb mcb ecb b1 s = andThen (deliver mcb now s) (\<lambda>s'. Inr (b2, s'))"
    by blast
  have later: "\<forall>m \<in> set later. transmissible pb m"
    using Cons.prems(1) b2(1) by simp
  define s1 where "s1 = (case deliver mcb now s of Inl e \<Rightarrow> s | Inr s1 \<Rightarrow> s1)"
  obtain b' where "buffer_ok b'" "bytes b' = []"
      "feed pb mcb ecb cs b2 s1 = andThen (deliver mcb later s1) (\<lambda>s'. Inr (b', s'))"
    using Cons.IH [OF later b2(2,3), of s1] by blast
  with b1(1) b2(1,4) show ?case
    by (cases "deliver mcb now s") (auto simp: s1_def deliver_append)
qed

text \<open>
  The decoder as a function of the bytes alone: the messages of the complete frames in front, the
  bytes that stay, and the error that stopped it.
\<close>

function decode :: "('m, 'd) protobuf \<Rightarrow> string \<Rightarrow> 'm list \<times> string \<times> ErrorCode option" where
  "decode pb x =
     (if length x < 14 then ([], x, None) else
      let len = sint (asInt32 x) in
      if len < 10 \<or> 2 ^ 26 < len then ([], x, Some kInvalidLength) else
      if length x < 4 + nat len then ([], x, None) else
      case parse pb (take (nat len) (drop 4 x)) of
        (Some m, kNoError) \<Rightarrow> (case decode pb (drop (4 + nat len) x) of (ms, r, e) \<Rightarrow> (m # ms, r, e))
      | (_, e) \<Rightarrow> ([], x, Some e))"
  by pat_completeness auto

termination
  by (relation "measure (\<lambda>(pb, x). length x)") auto

declare decode.simps [simp del]

definition decoded :: "('m \<Rightarrow> 's \<Rightarrow> 's res) \<Rightarrow> (ErrorCode \<Rightarrow> buffer \<Rightarrow> 's \<Rightarrow> (buffer \<times> 's) res) \<Rightarrow>
    'm list \<times> string \<times> ErrorCode option \<Rightarrow> buffer \<Rightarrow> 's \<Rightarrow> (buffer \<times> 's) res" where
  "decoded mcb ecb x b' s =
     andThen (deliver mcb (fst x) s) (\<lambda>s'. case snd (snd x) of None \<Rightarrow> Inr (b', s') | Some e \<Rightarrow> ecb e b' s')"

lemma onMessage_decode:
  assumes "buffer_ok b"
  shows "\<exists>b'. buffer_ok b' \<and> bytes b' = fst (snd (decode pb (bytes b))) \<and>
           onMessage pb mcb ecb b s = decoded mcb ecb (decode pb (bytes b)) b' s"
  using assms
proof (induction "length (bytes b)" arbitrary: b s rule: less_induct)
  case less
  have r: "readableBytes b = length (bytes b)"
    using length_bytes [OF less.prems] by simp
  note limits = kMinMessageLen_def kHeaderLen_def kMaxMessageLen_def
  let ?w = "sint (asInt32 (bytes b))"
  show ?case
  proof (cases "length (bytes b) < 14 \<or> ?w < 10 \<or> 2 ^ 26 < ?w \<or> length (bytes b) < 4 + nat ?w")
    case True
    have "peekInt32 b = Inr (asInt32 (bytes b))" if "14 \<le> length (bytes b)"
      using peekInt32_bytes [OF less.prems] that r by (simp add: asInt32_def)
    with True r less.prems show ?thesis
      by (intro exI [of _ b], subst onMessage.simps, subst (1 2) decode.simps)
         (auto simp: limits decoded_def Let_def)
  next
    case False
    then have len: "14 \<le> readableBytes b" "10 \<le> ?w" "?w \<le> 2 ^ 26" "4 + nat ?w \<le> readableBytes b"
      using r by auto
    have peek: "peekInt32 b = Inr (asInt32 (bytes b))"
      using peekInt32_bytes [OF less.prems] len by (simp add: asInt32_def)
    have body: "take (nat ?w) (drop (peek b + 4) (buf b)) = take (nat ?w) (drop 4 (bytes b))"
      using drop_bytes [OF less.prems, of 4 "nat ?w"] len by simp
    obtain b1 where b1: "retrieve (4 + nat ?w) b = Inr b1" "buffer_ok b1"
        "bytes b1 = drop (4 + nat ?w) (bytes b)"
      using retrieve_ok [OF less.prems len(4)] by blast
    have dec: "decode pb (bytes b) =
        (case parse pb (take (nat ?w) (drop 4 (bytes b))) of
           (Some m, kNoError) \<Rightarrow> (case decode pb (bytes b1) of (ms, r, e) \<Rightarrow> (m # ms, r, e))
         | (_, e) \<Rightarrow> ([], bytes b, Some e))"
      unfolding b1(3) using len r by (subst decode.simps) (simp add: Let_def)
    have onm: "onMessage pb mcb ecb b s =
        (case parse pb (take (nat ?w) (drop 4 (bytes b))) of
           (Some m, kNoError) \<Rightarrow> andThen (mcb m s) (onMessage pb mcb ecb b1)
         | (_, e) \<Rightarrow> ecb e b s)"
      using len peek body b1(1)
      by (subst onMessage.simps) (auto simp: limits Let_def split: prod.splits option.splits ErrorCode.splits)
    show ?thesis
    proof (cases "\<exists>m. parse pb (take (nat ?w) (drop 4 (bytes b))) = (Some m, kNoError)")
      case True
      then obtain m where m: "parse pb (take (nat ?w) (drop 4 (bytes b))) = (Some m, kNoError)" by blast
      define s1 where "s1 = (case mcb m s of Inl e \<Rightarrow> s | Inr s1 \<Rightarrow> s1)"
      have "length (bytes b1) < length (bytes b)"
        using b1(3) len r by simp
      from less.hyps [OF this b1(2), of s1] obtain b' where
        "buffer_ok b'" "bytes b' = fst (snd (decode pb (bytes b1)))"
        "onMessage pb mcb ecb b1 s1 = decoded mcb ecb (decode pb (bytes b1)) b' s1" by blast
      with m dec onm show ?thesis
        by (cases "mcb m s"; intro exI [of _ b'])
           (auto simp: decoded_def s1_def andThen_assoc split: prod.splits)
    next
      case False
      then have "decode pb (bytes b) = ([], bytes b, Some (snd (parse pb (take (nat ?w) (drop 4 (bytes b))))))"
          "onMessage pb mcb ecb b s = ecb (snd (parse pb (take (nat ?w) (drop 4 (bytes b))))) b s"
        unfolding dec onm by (auto split: prod.splits option.splits ErrorCode.splits)
      with less.prems show ?thesis
        by (intro exI [of _ b]) (simp add: decoded_def)
    qed
  qed
qed

lemma be_bytes_asInt32: "length s = 4 \<Longrightarrow> be_bytes 4 (unat (asInt32 s)) = s"
proof -
  assume len: "length s = 4"
  have "be_val s < 2 ^ 32"
    using be_val_be_bytes [of 4 "be_val s"] be_bytes_be_val [of s] len
      mod_less_divisor [of "2 ^ 32" "be_val s"] by simp
  with len show ?thesis
    using be_bytes_be_val [of s] by (simp add: asInt32_def unsigned_of_nat take_bit_nat_eq_self)
qed

lemma parse_accepts:
  assumes len: "10 \<le> length p" "length p < 2 ^ 31"
  shows "parse pb p = (Some m, kNoError) \<longleftrightarrow> (\<exists>name c data. well_formed pb p name c data m)"
proof
  assume acc: "parse pb p = (Some m, kNoError)"
  define n where "n = nat (sint (asInt32 p))"
  have sum: "adler32 pb 1 (take (length p - 4) p) = asInt32 (drop (length p - 4) p)"
    and n: "sint (asInt32 p) = int n" "2 \<le> n" "n \<le> length p - 8"
    using acc len by (auto simp: parse_def kHeaderLen_def n_def Let_def split: if_splits option.splits)
  obtain fresh where fresh: "createMessage pb (segment 4 (4 + n - 1) p) = Some fresh"
      "ParseFromArray pb fresh (take (length p - n - 8) (drop (4 + n) p)) = (m, True)"
    using acc len by (auto simp: parse_def kHeaderLen_def n_def Let_def prod_eq_iff split: if_splits option.splits)
  let ?name = "segment 4 (4 + n - 1) p" and ?c = "p ! (3 + n)" and ?data = "take (length p - n - 8) (drop (4 + n) p)"
  have ln: "length ?name + 1 = n"
    using n len by (simp add: segment_def)
  have "asInt32 p = word_of_nat n"
    by (rule signed_word_eqI [where ?'a = int]) (use n len in \<open>simp add: sint_word_of_nat_small\<close>)
  then have "be_bytes 4 n = take 4 p"
    using be_bytes_asInt32 [of "take 4 p"] len n by (simp add: asInt32_def unat_word_of_nat_small)
  moreover have "take (4 + (n - 1 + (1 + (length p - n - 8)))) p =
      take 4 p @ ?name @ [?c] @ ?data"
    using n len unfolding take_add by (simp add: segment_def drop_take hd_drop_conv_nth take_Suc)
  moreover have "4 + (n - 1 + (1 + (length p - n - 8))) = length p - 4"
    using n len by simp
  ultimately have pay: "be_bytes 4 (length ?name + 1) @ ?name @ [?c] @ ?data = take (length p - 4) p"
    unfolding ln by (simp only:)
  have "be_bytes 4 (unat (adler32 pb 1 (take (length p - 4) p))) = drop (length p - 4) p"
    unfolding sum using be_bytes_asInt32 [of "drop (length p - 4) p"] len by simp
  then have "p = take (length p - 4) p @ be_bytes 4 (unat (adler32 pb 1 (take (length p - 4) p)))"
    by simp
  moreover have "?name \<noteq> []"
    using ln n(2) by auto
  ultimately have "well_formed pb p ?name ?c ?data m"
    unfolding well_formed_def Let_def pay using fresh by simp
  then show "\<exists>name c data. well_formed pb p name c data m" by blast
next
  assume "\<exists>name c data. well_formed pb p name c data m"
  then show "parse pb p = (Some m, kNoError)"
    using len(2) by (elim exE) (rule parse_well_formed)
qed


section \<open>Dispatch by type\<close>

fun registerAll :: "('d \<times> ('m \<Rightarrow> 's \<Rightarrow> 's res)) list \<Rightarrow> ('m, 'd, 's) dispatcher \<Rightarrow> ('m, 'd, 's) dispatcher" where
  "registerAll [] d = d"
| "registerAll ((descriptor, callback) # cbs) d = registerAll cbs (registerMessageCallback descriptor callback d)"

lemma registerAll_callbacks:
  "callbacks (registerAll cbs d) = callbacks d ++ (\<lambda>x. map_option (Pair x) (map_of (rev cbs) x))"
  by (induction cbs arbitrary: d)
     (auto simp: registerMessageCallback_def map_add_def split: option.splits)

lemma registerAll_default [simp]: "defaultCallback (registerAll cbs d) = defaultCallback d"
  by (induction cbs d rule: registerAll.induct) (simp_all add: registerMessageCallback_def)


section \<open>Properties\<close>

text \<open>
  A concrete runtime for the closed instances below: messages are a type name and a payload that
  is its own serialization, three types are known, and the checksum is Adler-32 (RFC 1950).
\<close>

definition adler32_ref :: "nat \<Rightarrow> string \<Rightarrow> 32 word" where
  "adler32_ref start p =
     (let (a, b) = foldl (\<lambda>(a, b) c. let a' = (a + of_char c) mod 65521 in (a', (b + a') mod 65521))
                     (start mod 65536, start div 65536) p
      in word_of_nat (b * 65536 + a))"

definition plain_pb :: "(string \<times> string, string) protobuf" where
  "plain_pb =
     \<lparr>GetTypeName = fst, IsInitialized = (\<lambda>_. True), ByteSize = (\<lambda>m. length (snd m)),
      SerializeWithCachedSizesToArray = snd,
      FindMessageTypeByName = (\<lambda>n. if n \<in> {''IM.Login'', ''IM.Register'', ''IM.Msg''} then Some n else None),
      GetPrototype = (\<lambda>d. Some (d, [])), New = id, ParseFromArray = (\<lambda>m s. ((fst m, s), True)),
      GetDescriptor = fst, adler32 = adler32_ref\<rparr>"

lemmas plain_pb_simps = plain_pb_def transmissible_def createMessage_def length_frame_body kMaxMessageLen_def

text \<open>What \<^verbatim>\<open>ProtobufCodec::send\<close> hands to the connection for a message.\<close>

definition sent_bytes :: "('m, 'd) protobuf \<Rightarrow> 'm \<Rightarrow> string" where
  "sent_bytes pb m = (case ProtobufCodec_send pb (\<lambda>b _. Inr (bytes b)) m [] of Inr s \<Rightarrow> s | Inl _ \<Rightarrow> [])"

lemma sent_bytes_frame: "transmissible pb m \<Longrightarrow> sent_bytes pb m = frame pb m"
  using send_frame [of pb m "\<lambda>b _. Inr (bytes b)" "[]"] by (auto simp: sent_bytes_def)

lemma feed_sent:
  assumes "\<forall>m \<in> set ms. transmissible pb m"
    and "concat cs = concat (map (sent_bytes pb) ms)"
    and "buffer_ok b" and "bytes b = []"
  shows "\<exists>b'. bytes b' = [] \<and>
           feed pb mcb ecb cs b s = andThen (deliver mcb ms s) (\<lambda>s'. Inr (b', s'))"
proof -
  have "map (sent_bytes pb) ms = map (frame pb) ms"
    using assms(1) by (simp add: sent_bytes_frame)
  with assms(2) have "concat cs = concat (map (frame pb) ms)"
    by (simp only:)
  then have "pending pb ms (bytes b) (concat cs)"
    by (simp add: pending_def assms(4) length_frame split: list.splits)
  from feed_stream [OF assms(1,3) this, of mcb ecb s] show ?thesis by blast
qed

text \<open>
  C1. Decoding does not depend on how TCP cuts the stream. Take the bytes the encoder hands to a
  connection for a list of messages, one after the other, and cut them into segments in any way.
  Appending each segment to the input buffer of the peer and running \<^verbatim>\<open>onMessage\<close> after each one
  calls the message callback for exactly those messages, in order and once each (up to the first
  callback that does not return), never the error callback, and leaves no byte behind.
\<close>

theorem stream_decoding_segmentation:
  assumes "\<forall>m \<in> set ms. transmissible pb m"
    and "concat cs = concat (map (sent_bytes pb) ms)"
    and "buffer_ok b" and "bytes b = []"
  shows "\<exists>b'. bytes b' = [] \<and>
           feed pb mcb ecb cs b s = andThen (deliver mcb ms s) (\<lambda>s'. Inr (b', s'))"
  using assms by (rule feed_sent)

theorem stream_decoding_segmentation_witness:
  "\<exists>b b'. bytes b' = [] \<and>
     feed plain_pb (\<lambda>m got. Inr (got @ [m])) (\<lambda>e b got. Inl (Fatal ''error callback''))
       [take 3 (frame plain_pb (''IM.Login'', ''bob'')),
        drop 3 (frame plain_pb (''IM.Login'', ''bob'')) @ take 9 (frame plain_pb (''IM.Msg'', ''hi'')),
        drop 9 (frame plain_pb (''IM.Msg'', ''hi''))] b [] =
     Inr (b', [(''IM.Login'', ''bob''), (''IM.Msg'', ''hi'')])"
proof -
  obtain b where b: "buffer_ok b" "bytes b = []"
    using Buffer_ctor_ok by blast
  let ?ms = "[(''IM.Login'', ''bob''), (''IM.Msg'', ''hi'')]"
  let ?cs = "[take 3 (frame plain_pb (''IM.Login'', ''bob'')),
    drop 3 (frame plain_pb (''IM.Login'', ''bob'')) @ take 9 (frame plain_pb (''IM.Msg'', ''hi'')),
    drop 9 (frame plain_pb (''IM.Msg'', ''hi''))]"
  have t: "\<forall>m \<in> set ?ms. transmissible plain_pb m"
    by (simp add: plain_pb_simps)
  have "take 3 f @ (drop 3 f @ take 9 g) @ drop 9 g = f @ g" for f g :: string
    by (metis append.assoc append_take_drop_id)
  then have "concat ?cs = concat (map (sent_bytes plain_pb) ?ms)"
    using t by (simp add: sent_bytes_frame)
  note stream_decoding_segmentation [OF t this b, of "\<lambda>m got. Inr (got @ [m])"
      "\<lambda>e b got. Inl (Fatal ''error callback'')" "[]"]
  then show ?thesis by (simp only: deliver.simps andThen_Inr append.simps) blast
qed

text \<open>
  C2. What the decoder does on arbitrary bytes, hostile ones included. \<open>decode\<close> is a function of
  the byte string alone: the messages of the complete frames at the front, the bytes that stay
  in the buffer, and the error that stopped it if any. \<^verbatim>\<open>onMessage\<close> on any well-formed buffer
  terminates without failing an assertion of its own, runs the message callback on those
  messages in order, leaves exactly those bytes, and then calls the error callback at most once,
  with that error.
\<close>

theorem onMessage_refines_decode:
  assumes "buffer_ok b"
  shows "\<exists>b'. buffer_ok b' \<and> bytes b' = fst (snd (decode pb (bytes b))) \<and>
           onMessage pb mcb ecb b s =
             andThen (deliver mcb (fst (decode pb (bytes b))) s)
               (\<lambda>s'. case snd (snd (decode pb (bytes b))) of None \<Rightarrow> Inr (b', s') | Some e \<Rightarrow> ecb e b' s')"
  using onMessage_decode [OF assms] unfolding decoded_def .

theorem onMessage_refines_decode_witness:
  "\<exists>b. bytes b = be_bytes 4 5 @ ''0123456789'' \<and>
     onMessage plain_pb (\<lambda>m got. Inr (got @ [m])) (\<lambda>e b got. Inl (Fatal (errorCodeToString e))) b [] =
     Inl (Fatal ''InvalidLength'')"
proof -
  let ?x = "be_bytes 4 5 @ ''0123456789''"
  obtain b0 where b0: "buffer_ok b0" "bytes b0 = []"
    using Buffer_ctor_ok by blast
  obtain b where b: "buffer_ok b" "bytes b = ?x"
    using Buffer_append_ok [OF b0(1), of ?x] b0(2) by auto
  have "sint (asInt32 ?x) = 5"
    unfolding asInt32_be_bytes by simp
  then have "decode plain_pb ?x = ([], ?x, Some kInvalidLength)"
    by (subst decode.simps) (simp add: Let_def)
  with onMessage_refines_decode [OF b(1), of plain_pb "\<lambda>m got. Inr (got @ [m])"
      "\<lambda>e b got. Inl (Fatal (errorCodeToString e))" "[]"] b(2)
  show ?thesis by (intro exI [of _ b]) auto
qed

text \<open>
  C3. \<^verbatim>\<open>parse\<close> accepts a packet exactly when it is well formed: a name length, that many bytes of a
  type name known to the runtime and a terminator, the serialized message, which the runtime
  parses, and the Adler-32 checksum of everything before it. In particular a packet whose
  checksum does not match is never delivered.
\<close>

theorem parse_accepts_well_formed:
  assumes "kMinMessageLen \<le> length p" and "length p \<le> kMaxMessageLen"
  shows "parse pb p = (Some m, kNoError) \<longleftrightarrow> (\<exists>name c data. well_formed pb p name c data m)"
  using assms by (intro parse_accepts) (simp_all add: kMinMessageLen_def kMaxMessageLen_def kHeaderLen_def)

theorem parse_accepts_well_formed_witness:
  "parse plain_pb (frame_body plain_pb (''IM.Msg'', ''hi'')) = (Some (''IM.Msg'', ''hi''), kNoError)"
proof -
  have "well_formed plain_pb (frame_body plain_pb (''IM.Msg'', ''hi'')) ''IM.Msg'' NUL ''hi'' (''IM.Msg'', ''hi'')"
    by (simp add: well_formed_def frame_body_def frame_payload_def plain_pb_simps Let_def)
  then show ?thesis
    by (subst parse_accepts_well_formed)
       (auto simp: length_frame_body plain_pb_def kMinMessageLen_def kMaxMessageLen_def kHeaderLen_def)
qed

text \<open>
  C8. Dispatch is total and exact. After any sequence of registrations on a fresh dispatcher, a
  message goes to the callback registered last for its own type, and to the default callback if
  its type was never registered; the downcast assertion of \<^verbatim>\<open>CallbackT\<close> never fails.
\<close>

theorem dispatch_by_type:
  "onProtobufMessage pb (registerAll cbs (ProtobufDispatcher defaultCb)) m s =
     (case map_of (rev cbs) (GetDescriptor pb m) of Some cb \<Rightarrow> cb m s | None \<Rightarrow> defaultCb m s)"
  by (auto simp: onProtobufMessage_def registerAll_callbacks ProtobufDispatcher_def CallbackT_onMessage_def
      split: option.splits)

end
