(* ===== verification/Text.thy ===== *)
theory Text
  imports Prelude
begin

text \<open>
  What the program uses of the C and C++ libraries to turn numbers into text and back:
  \<^verbatim>\<open>std::to_string\<close> and the \<^verbatim>\<open>%d\<close> conversions, \<^verbatim>\<open>strtol\<close> with \<^verbatim>\<open>atoi\<close> and \<^verbatim>\<open>std::stoi\<close>,
  and \<^verbatim>\<open>strtok\<close>. \<^verbatim>\<open>stoi\<close> throws, so its result is an outcome.
\<close>

section \<open>Decimal numerals\<close>

definition digit_char :: "nat \<Rightarrow> char" where
  "digit_char d = char_of (48 + d)"

definition char_digit :: "char \<Rightarrow> nat" where
  "char_digit c = of_char c - 48"

definition is_digit :: "char \<Rightarrow> bool" where
  "is_digit c \<longleftrightarrow> 48 \<le> (of_char c :: nat) \<and> (of_char c :: nat) \<le> 57"

definition is_space :: "char \<Rightarrow> bool" where
  "is_space c \<longleftrightarrow> (of_char c :: nat) = 32 \<or> 9 \<le> (of_char c :: nat) \<and> (of_char c :: nat) \<le> 13"

fun show_nat :: "nat \<Rightarrow> string" where
  "show_nat n = (if n < 10 then [digit_char n] else show_nat (n div 10) @ [digit_char (n mod 10)])"

declare show_nat.simps [simp del]

definition to_string :: "int \<Rightarrow> string" where
  "to_string i = (if i < 0 then CHR ''-'' # show_nat (nat (- i)) else show_nat (nat i))"

text \<open>The conversions \<^verbatim>\<open>%0wd\<close> and \<^verbatim>\<open>%wd\<close>.\<close>

definition printf_0d :: "nat \<Rightarrow> int \<Rightarrow> string" where
  "printf_0d w i =
     (let sign = (if i < 0 then ''-'' else []); s = show_nat (nat \<bar>i\<bar>)
      in sign @ replicate (w - length s - length sign) (CHR ''0'') @ s)"

definition printf_d :: "nat \<Rightarrow> int \<Rightarrow> string" where
  "printf_d w i = (let s = to_string i in replicate (w - length s) (CHR '' '') @ s)"

definition digits_value :: "string \<Rightarrow> nat" where
  "digits_value s = foldl (\<lambda>a c. 10 * a + char_digit c) 0 s"

text \<open>
  \<^verbatim>\<open>strtol(s, &end, 10)\<close> before the clamping to \<^verbatim>\<open>long\<close>; \<open>None\<close> when there is no digit.
\<close>

definition strtol :: "string \<Rightarrow> int option" where
  "strtol s =
     (let t = dropWhile is_space s;
          neg = (case t of c # _ \<Rightarrow> c = CHR ''-'' | [] \<Rightarrow> False);
          u = (case t of c # r \<Rightarrow> if c = CHR ''-'' \<or> c = CHR ''+'' then r else t | [] \<Rightarrow> t);
          ds = takeWhile is_digit u
      in if ds = [] then None
         else Some (if neg then - int (digits_value ds) else int (digits_value ds)))"

definition clamp_long :: "int \<Rightarrow> int" where
  "clamp_long v = max (- (2 ^ 63)) (min (2 ^ 63 - 1) v)"

definition to_int32 :: "int \<Rightarrow> int" where
  "to_int32 v = sint (word_of_int v :: 32 word)"

text \<open>The result of an operation on \<^verbatim>\<open>int\<close>: outside its range it is undefined.\<close>

definition check_int :: "int \<Rightarrow> int res" where
  "check_int n = (if - (2 ^ 31) \<le> n \<and> n < 2 ^ 31 then Inr n else Inl (UndefinedBehaviour ''signed overflow''))"

text \<open>A result of \<^verbatim>\<open>int\<close> arithmetic whose intermediate values \<open>vs\<close> are all in range.\<close>

definition int_range :: "int \<Rightarrow> bool" where
  "int_range v \<longleftrightarrow> - (2 ^ 31) \<le> v \<and> v < 2 ^ 31"

definition checked :: "int list \<Rightarrow> 'a \<Rightarrow> 'a res" where
  "checked vs x = (if list_all int_range vs then Inr x else Inl (UndefinedBehaviour ''signed overflow''))"

definition check_int64 :: "int \<Rightarrow> int res" where
  "check_int64 n = (if - (2 ^ 63) \<le> n \<and> n < 2 ^ 63 then Inr n else Inl (UndefinedBehaviour ''signed overflow''))"

text \<open>C division truncates towards zero, and the remainder has the sign of the dividend.\<close>

definition c_div :: "int \<Rightarrow> int \<Rightarrow> int" where
  "c_div a b = sgn a * sgn b * (\<bar>a\<bar> div \<bar>b\<bar>)"

definition c_mod :: "int \<Rightarrow> int \<Rightarrow> int" where
  "c_mod a b = a - c_div a b * b"

definition atoi :: "string \<Rightarrow> int" where
  "atoi s = (case strtol s of None \<Rightarrow> 0 | Some v \<Rightarrow> to_int32 (clamp_long v))"

definition stoi :: "string \<Rightarrow> int res" where
  "stoi s =
     (case strtol s of
        None \<Rightarrow> Inl (Exception ''invalid_argument'')
      | Some v \<Rightarrow> if - (2 ^ 31) \<le> v \<and> v < 2 ^ 31 then Inr v else Inl (Exception ''out_of_range''))"

text \<open>Repeated \<^verbatim>\<open>strtok\<close>: the maximal pieces without a delimiter.\<close>

function strtok_all :: "(char \<Rightarrow> bool) \<Rightarrow> string \<Rightarrow> string list" where
  "strtok_all delim s =
     (let t = dropWhile delim s
      in if t = [] then [] else takeWhile (\<lambda>c. \<not> delim c) t # strtok_all delim (dropWhile (\<lambda>c. \<not> delim c) t))"
  by pat_completeness auto

termination
  by (relation "measure (\<lambda>(d, s). length s)") (auto simp: dropWhile_shorter)

declare strtok_all.simps [simp del]


section \<open>Laws\<close>

lemma check_int_ok: "- (2 ^ 31) \<le> n \<Longrightarrow> n < 2 ^ 31 \<Longrightarrow> check_int n = Inr n"
  by (simp add: check_int_def)

lemma c_div_nonneg: "0 \<le> a \<Longrightarrow> 0 < b \<Longrightarrow> c_div a b = a div b"
  by (cases "a = 0") (simp_all add: c_div_def)

lemma c_mod_nonneg: "0 \<le> a \<Longrightarrow> 0 < b \<Longrightarrow> c_mod a b = a mod b"
  by (simp add: c_mod_def c_div_nonneg minus_div_mult_eq_mod)

lemma c_div_minus: "c_div (- a) b = - c_div a b"
  by (simp add: c_div_def sgn_if)

lemma c_mod_minus: "c_mod (- a) b = - c_mod a b"
  by (simp add: c_mod_def c_div_minus)

lemma of_char_digit_char: "d < 10 \<Longrightarrow> (of_char (digit_char d) :: nat) = 48 + d"
  by (simp add: digit_char_def)

lemma is_digit_digit_char [simp]: "d < 10 \<Longrightarrow> is_digit (digit_char d)"
  by (simp add: is_digit_def of_char_digit_char)

lemma char_digit_digit_char [simp]: "d < 10 \<Longrightarrow> char_digit (digit_char d) = d"
  by (simp add: char_digit_def of_char_digit_char)

lemma show_nat_digits: "\<forall>c \<in> set (show_nat n). is_digit c"
proof (induction n rule: show_nat.induct)
  case (1 n)
  then show ?case by (subst show_nat.simps) auto
qed

lemma show_nat_not_empty [simp]: "show_nat n \<noteq> []"
  by (subst show_nat.simps) simp

lemma digits_value_show_nat [simp]: "digits_value (show_nat n) = n"
proof (induction n rule: show_nat.induct)
  case (1 n)
  then show ?case by (subst show_nat.simps) (auto simp: digits_value_def)
qed

lemma length_show_nat: "n < 10 ^ k \<Longrightarrow> 0 < k \<Longrightarrow> length (show_nat n) \<le> k"
proof (induction n arbitrary: k rule: show_nat.induct)
  case (1 n)
  show ?case
  proof (cases "n < 10")
    case True
    with 1 show ?thesis by (subst show_nat.simps) simp
  next
    case False
    then obtain j where k: "k = Suc j" "0 < j"
      using "1.prems" by (cases k; cases "k - 1") auto
    then have "n div 10 < 10 ^ j"
      using "1.prems"(1) by (simp add: less_mult_imp_div_less mult.commute)
    with "1.IH" [OF False this k(2)] False k show ?thesis by (subst show_nat.simps) simp
  qed
qed

lemma show_nat_inject [simp]: "show_nat m = show_nat n \<longleftrightarrow> m = n"
  by (metis digits_value_show_nat)

lemma digit_not_special:
  "is_digit c \<Longrightarrow> \<not> is_space c \<and> c \<noteq> CHR ''-'' \<and> c \<noteq> CHR ''+'' \<and> c \<noteq> NUL \<and> c \<noteq> CHR ''~''"
  by (auto simp: is_digit_def is_space_def)

lemma strtol_to_string [simp]: "strtol (to_string i) = Some i"
proof -
  obtain c r where s: "show_nat (nat \<bar>i\<bar>) = c # r"
    by (cases "show_nat (nat \<bar>i\<bar>)") auto
  then have dig: "is_digit c" "\<forall>d \<in> set r. is_digit d"
    using show_nat_digits [of "nat \<bar>i\<bar>"] by auto
  then have "takeWhile is_digit (c # r) = show_nat (nat \<bar>i\<bar>)"
    using s by (simp add: takeWhile_eq_all_conv)
  moreover have "\<not> is_space (CHR ''-'')" "\<not> is_digit (CHR ''-'')"
    by (simp_all add: is_space_def is_digit_def)
  moreover note digit_not_special [OF dig(1)]
  moreover have "digits_value (c # r) = nat \<bar>i\<bar>"
    using s digits_value_show_nat [of "nat \<bar>i\<bar>"] by simp
  ultimately show ?thesis
    using s by (cases "i < 0") (auto simp: strtol_def to_string_def Let_def)
qed

lemma stoi_to_string: "- (2 ^ 31) \<le> i \<Longrightarrow> i < 2 ^ 31 \<Longrightarrow> stoi (to_string i) = Inr i"
  by (simp add: stoi_def)

lemma to_int32_id: "- (2 ^ 31) \<le> i \<Longrightarrow> i < 2 ^ 31 \<Longrightarrow> to_int32 i = i"
  by (simp add: to_int32_def sint_uint uint_word_of_int_eq signed_take_bit_take_bit
      signed_take_bit_int_eq_self)

lemma to_int32_range: "- (2 ^ 31) \<le> to_int32 i \<and> to_int32 i < 2 ^ 31"
  using sint_greater_eq [of "word_of_int i :: 32 word"] sint_less [of "word_of_int i :: 32 word"]
  by (simp add: to_int32_def)

lemma atoi_to_string: "- (2 ^ 31) \<le> i \<Longrightarrow> i < 2 ^ 31 \<Longrightarrow> atoi (to_string i) = i"
  by (simp add: atoi_def clamp_long_def to_int32_id)

lemma to_string_inject [simp]: "to_string i = to_string j \<longleftrightarrow> i = j"
  by (metis option.inject strtol_to_string)

lemma to_string_nul_free: "NUL \<notin> set (to_string i)"
  using show_nat_digits digit_not_special by (auto simp: to_string_def)

end
