(* ===== verification/Double.thy ===== *)
theory Double
  imports Complex_Main Text
begin

text \<open>
  \<^verbatim>\<open>double\<close> as the money code uses it: IEEE 754 binary64 with rounding to nearest even. A finite
  value is the rational number it stands for; the sign of zero is not kept. Operations compute
  the exact result and round it. \<^verbatim>\<open>printf("%lf")\<close> prints the exact value rounded to six decimals.
  \<^verbatim>\<open>atof\<close> reads decimal numbers with an optional exponent; hexadecimal numbers and the words for
  infinity and NaN are left out.
\<close>

datatype double = Fin rat | PInf | NInf | NaN

section \<open>Rounding\<close>

definition pow2 :: "int \<Rightarrow> rat" where
  "pow2 k = (if 0 \<le> k then 2 ^ nat k else 1 / 2 ^ nat (- k))"

fun nat_log2 :: "nat \<Rightarrow> nat" where
  "nat_log2 n = (if n < 2 then 0 else Suc (nat_log2 (n div 2)))"

declare nat_log2.simps [simp del]

text \<open>The exponent of the leading bit of a positive number.\<close>

definition rat_log2 :: "rat \<Rightarrow> int" where
  "rat_log2 q =
     (let (n, d) = quotient_of q;
          e = int (nat_log2 (nat n)) - int (nat_log2 (nat d))
      in if pow2 e \<le> q then e else e - 1)"

definition round_even :: "rat \<Rightarrow> int" where
  "round_even q =
     (let f = \<lfloor>q\<rfloor>; r = q - of_int f
      in if r < 1 / 2 then f else if 1 / 2 < r then f + 1 else if even f then f else f + 1)"

definition round_double :: "rat \<Rightarrow> double" where
  "round_double q =
     (if q = 0 then Fin 0
      else let e = max (rat_log2 \<bar>q\<bar> - 52) (- 1074);
               x = of_int (round_even (q / pow2 e)) * pow2 e
           in if pow2 1024 \<le> x then PInf else if x \<le> - pow2 1024 then NInf else Fin x)"


section \<open>Operations\<close>

fun d_sub :: "double \<Rightarrow> double \<Rightarrow> double" where
  "d_sub (Fin a) (Fin b) = round_double (a - b)"
| "d_sub NaN _ = NaN"
| "d_sub _ NaN = NaN"
| "d_sub PInf PInf = NaN"
| "d_sub NInf NInf = NaN"
| "d_sub PInf _ = PInf"
| "d_sub NInf _ = NInf"
| "d_sub (Fin _) PInf = NInf"
| "d_sub (Fin _) NInf = PInf"

text \<open>Multiplication and division by a positive constant.\<close>

fun d_scale :: "double \<Rightarrow> rat \<Rightarrow> double" where
  "d_scale (Fin a) c = round_double (a * c)"
| "d_scale x c = x"

fun d_less :: "double \<Rightarrow> double \<Rightarrow> bool" where
  "d_less (Fin a) (Fin b) = (a < b)"
| "d_less NaN _ = False"
| "d_less _ NaN = False"
| "d_less PInf _ = False"
| "d_less _ NInf = False"
| "d_less NInf _ = True"
| "d_less _ PInf = True"

definition d_of_int :: "int \<Rightarrow> double" where
  "d_of_int i = round_double (of_int i)"

text \<open>\<^verbatim>\<open>static_cast<int>\<close>: towards zero, undefined outside the range of \<^verbatim>\<open>int\<close>.\<close>

fun d_to_int :: "double \<Rightarrow> int res" where
  "d_to_int (Fin q) =
     (let t = (if 0 \<le> q then \<lfloor>q\<rfloor> else \<lceil>q\<rceil>)
      in if - (2 ^ 31) \<le> t \<and> t < 2 ^ 31 then Inr t else Inl (UndefinedBehaviour ''static_cast<int>''))"
| "d_to_int _ = Inl (UndefinedBehaviour ''static_cast<int>'')"

definition pad6 :: "nat \<Rightarrow> string" where
  "pad6 n = (let s = show_nat n in replicate (6 - length s) (CHR ''0'') @ s)"

fun printf_lf :: "double \<Rightarrow> string" where
  "printf_lf (Fin q) =
     (let n = nat (round_even (\<bar>q\<bar> * 10 ^ 6))
      in (if q < 0 then ''-'' else []) @ show_nat (n div 10 ^ 6) @ ''.'' @ pad6 (n mod 10 ^ 6))"
| "printf_lf PInf = ''inf''"
| "printf_lf NInf = ''-inf''"
| "printf_lf NaN = ''nan''"

definition pow10 :: "int \<Rightarrow> rat" where
  "pow10 k = (if 0 \<le> k then 10 ^ nat k else 1 / 10 ^ nat (- k))"

text \<open>
  \<^verbatim>\<open>printf("%.12g")\<close>: twelve significant digits without trailing zeros, in positional notation
  when the decimal exponent is from -4 to 11 and with an exponent of at least two digits otherwise.
\<close>

definition rat_log10 :: "rat \<Rightarrow> int" where
  "rat_log10 q =
     (let (n, d) = quotient_of q;
          e = int (length (show_nat (nat n))) - int (length (show_nat (nat d)))
      in if pow10 e \<le> q then e else e - 1)"

definition strip_zeros :: "string \<Rightarrow> string" where
  "strip_zeros s = rev (dropWhile (\<lambda>c. c = CHR ''0'') (rev s))"

definition with_fraction :: "string \<Rightarrow> string \<Rightarrow> string" where
  "with_fraction whole decimals = (let f = strip_zeros decimals in if f = [] then whole else whole @ ''.'' @ f)"

definition show_exponent :: "int \<Rightarrow> string" where
  "show_exponent x =
     (let s = show_nat (nat \<bar>x\<bar>)
      in (if x < 0 then ''e-'' else ''e+'') @ (if length s < 2 then ''0'' else []) @ s)"

definition significant12 :: "rat \<Rightarrow> nat \<times> int" where
  "significant12 q =
     (let x = rat_log10 q; m = nat (round_even (q / pow10 (x - 11)))
      in if m = 10 ^ 12 then (10 ^ 11, x + 1) else (m, x))"

fun printf_g12 :: "double \<Rightarrow> string" where
  "printf_g12 (Fin q) =
     (if q = 0 then ''0''
      else let (m, x) = significant12 \<bar>q\<bar>; ds = show_nat m
           in (if q < 0 then ''-'' else []) @
              (if - 4 \<le> x \<and> x < 0 then with_fraction ''0'' (replicate (nat (- x - 1)) (CHR ''0'') @ ds)
               else if 0 \<le> x \<and> x < 12 then with_fraction (take (nat x + 1) ds) (drop (nat x + 1) ds)
               else with_fraction (take 1 ds) (drop 1 ds) @ show_exponent x))"
| "printf_g12 PInf = ''inf''"
| "printf_g12 NInf = ''-inf''"
| "printf_g12 NaN = ''nan''"

text \<open>The value of the digits before and after the point and of the exponent.\<close>

definition exponent_of :: "string \<Rightarrow> int" where
  "exponent_of s =
     (case s of
        c # r \<Rightarrow> if c = CHR ''e'' \<or> c = CHR ''E'' then
                   (case r of
                      d # r' \<Rightarrow> if is_digit d then int (digits_value (takeWhile is_digit r))
                               else if d = CHR ''-'' then - int (digits_value (takeWhile is_digit r'))
                               else if d = CHR ''+'' then int (digits_value (takeWhile is_digit r'))
                               else 0
                    | [] \<Rightarrow> 0)
                 else 0
      | [] \<Rightarrow> 0)"

definition atof :: "string \<Rightarrow> double" where
  "atof s =
     (let t = dropWhile is_space s;
          neg = (t \<noteq> [] \<and> hd t = CHR ''-'');
          u = (if t \<noteq> [] \<and> (hd t = CHR ''-'' \<or> hd t = CHR ''+'') then tl t else t);
          whole = takeWhile is_digit u;
          r = dropWhile is_digit u;
          frac = (if r \<noteq> [] \<and> hd r = CHR ''.'' then takeWhile is_digit (tl r) else []);
          r' = (if r \<noteq> [] \<and> hd r = CHR ''.'' then dropWhile is_digit (tl r) else r);
          m = of_nat (digits_value (whole @ frac)) * pow10 (- int (length frac));
          q = (if whole @ frac = [] then 0 else m * pow10 (exponent_of r'))
      in round_double (if neg then - q else q))"


section \<open>Laws\<close>

lemma round_even_of_int [simp]: "round_even (of_int i) = i"
  by (simp add: round_even_def)

lemma round_even_less: "round_even q \<le> \<lfloor>q\<rfloor> + 1" and round_even_ge: "\<lfloor>q\<rfloor> \<le> round_even q"
  by (simp_all add: round_even_def Let_def)

lemma round_even_eqI:
  assumes "\<bar>q - of_int m\<bar> < 1 / 2"
  shows "round_even q = m"
proof -
  have near: "q - of_int m < 1 / 2" "of_int m - q < 1 / 2"
    using assms by linarith+
  then have "\<lfloor>q\<rfloor> = m - 1 \<or> \<lfloor>q\<rfloor> = m"
    by (cases "q < of_int m") (auto simp: floor_eq_iff)
  with near show ?thesis
    by (auto simp: round_even_def Let_def)
qed

lemma pow2_pos [simp]: "0 < pow2 k"
  by (simp add: pow2_def)

lemma pow2_powi: "pow2 k = 2 powi k"
  by (simp add: pow2_def power_int_def power_one_over)

lemma pow2_add: "pow2 (i + j) = pow2 i * pow2 j"
  by (simp add: pow2_powi power_int_add)

lemma pow2_less: "i < j \<Longrightarrow> pow2 i < pow2 j"
  by (simp add: pow2_powi power_int_strict_increasing)

lemma pow2_mono: "i \<le> j \<Longrightarrow> pow2 i \<le> pow2 j"
  by (simp add: pow2_powi power_int_increasing)

lemma nat_log2_bounds: "0 < n \<Longrightarrow> 2 ^ nat_log2 n \<le> n \<and> n < 2 ^ Suc (nat_log2 n)"
proof (induction n rule: nat_log2.induct)
  case (1 n)
  show ?case
  proof (cases "n < 2")
    case True
    with 1 show ?thesis by (subst (1 2) nat_log2.simps) auto
  next
    case False
    with 1 have "2 ^ nat_log2 (n div 2) \<le> n div 2 \<and> n div 2 < 2 ^ Suc (nat_log2 (n div 2))" by simp
    with False show ?thesis by (subst (1 2) nat_log2.simps) auto
  qed
qed

lemma rat_log2_bounds:
  assumes "0 < q"
  shows "pow2 (rat_log2 q) \<le> q \<and> q < pow2 (rat_log2 q + 1)"
proof -
  obtain n d where nd: "quotient_of q = (n, d)" by fastforce
  then have d: "0 < d" and q: "q = of_int n / of_int d"
    by (simp_all add: quotient_of_denom_pos quotient_of_div)
  then have n: "0 < n"
    using assms by (simp add: zero_less_divide_iff)
  let ?a = "nat_log2 (nat n)" and ?b = "nat_log2 (nat d)"
  have "2 ^ ?a \<le> n" "n < 2 ^ Suc ?a" "2 ^ ?b \<le> d" "d < 2 ^ Suc ?b"
    using nat_log2_bounds [of "nat n"] nat_log2_bounds [of "nat d"] n d
    by (simp_all add: nat_less_iff le_nat_iff)
  moreover have "pow2 (int k) = of_int (2 ^ k)" "pow2 (int k + 1) = of_int (2 ^ Suc k)" for k
    by (simp_all add: pow2_def nat_add_distrib)
  ultimately have b: "pow2 (int ?a) \<le> of_int n" "of_int n < pow2 (int ?a + 1)"
      "pow2 (int ?b) \<le> of_int d" "of_int d < pow2 (int ?b + 1)"
    by (simp_all only: of_int_le_iff of_int_less_iff)
  define e where "e = int ?a - int ?b"
  have eq: "q * of_int d = of_int n" "(0 :: rat) < of_int d"
    using d q by simp_all
  have "pow2 (e - 1) * pow2 (int ?b + 1) = pow2 (int ?a)" "pow2 (e + 1) * pow2 (int ?b) = pow2 (int ?a + 1)"
    by (simp_all add: e_def flip: pow2_add)
  moreover have "pow2 (e - 1) * of_int d < pow2 (e - 1) * pow2 (int ?b + 1)"
      "pow2 (e + 1) * pow2 (int ?b) \<le> pow2 (e + 1) * of_int d"
    using b(3,4) by (simp_all add: mult_strict_left_mono mult_left_mono less_imp_le)
  ultimately have "pow2 (e - 1) * of_int d < q * of_int d" "q * of_int d < pow2 (e + 1) * of_int d"
    unfolding eq(1) using b(1,2) by linarith+
  then have "pow2 (e - 1) < q" "q < pow2 (e + 1)"
    using eq(2) by simp_all
  then show ?thesis
    by (auto simp: rat_log2_def nd e_def Let_def)
qed

lemma rat_log2_eqI:
  assumes "pow2 k \<le> q" and "q < pow2 (k + 1)"
  shows "rat_log2 q = k"
proof -
  have "0 < q"
    using assms(1) pow2_pos [of k] by linarith
  note b = rat_log2_bounds [OF this]
  have "\<not> rat_log2 q < k"
  proof
    assume "rat_log2 q < k"
    then have "pow2 (rat_log2 q + 1) \<le> pow2 k"
      by (intro pow2_mono) simp
    with b assms(1) show False by linarith
  qed
  moreover have "\<not> k < rat_log2 q"
  proof
    assume "k < rat_log2 q"
    then have "pow2 (k + 1) \<le> pow2 (rat_log2 q)"
      by (intro pow2_mono) simp
    with b assms(2) show False by linarith
  qed
  ultimately show ?thesis by simp
qed

text \<open>Rounding a number whose exponent is known.\<close>

lemma round_double_eqI:
  assumes "pow2 (e + 52) \<le> \<bar>q\<bar>" and "\<bar>q\<bar> < pow2 (e + 53)" and "- 1074 \<le> e" and "e < 971"
  shows "round_double q = Fin (of_int (round_even (q / pow2 e)) * pow2 e)"
proof -
  let ?m = "round_even (q / pow2 e)"
  have "rat_log2 \<bar>q\<bar> = e + 52"
    by (rule rat_log2_eqI) (use assms in \<open>simp_all add: add.assoc\<close>)
  moreover have "q \<noteq> 0"
    using assms(1) pow2_pos [of "e + 52"] by (auto simp: not_le [symmetric] simp del: pow2_pos)
  moreover have m: "- (2 ^ 53) \<le> ?m" "?m \<le> 2 ^ 53"
  proof -
    have "pow2 (e + 53) = 2 ^ 53 * pow2 e"
      by (simp add: pow2_add) (simp add: pow2_def [of 53])
    then have "\<bar>q / pow2 e\<bar> < 2 ^ 53"
      using assms(2) pow2_pos [of e] by (simp add: abs_divide abs_of_pos pos_divide_less_eq del: pow2_pos)
    then have "- (2 ^ 53) \<le> q / pow2 e" "q / pow2 e < 2 ^ 53"
      by linarith+
    then have "- (2 ^ 53) \<le> \<lfloor>q / pow2 e\<rfloor>" "\<lfloor>q / pow2 e\<rfloor> < 2 ^ 53"
      by (simp_all add: le_floor_iff floor_less_iff)
    then show "- (2 ^ 53) \<le> ?m" "?m \<le> 2 ^ 53"
      using round_even_less [of "q / pow2 e"] round_even_ge [of "q / pow2 e"] by linarith+
  qed
  have bound: "of_int ?m * pow2 e \<le> pow2 53 * pow2 e" "- (pow2 53 * pow2 e) \<le> of_int ?m * pow2 e"
  proof -
    have "pow2 53 = of_int (2 ^ 53)" "- pow2 53 = of_int (- (2 ^ 53))"
      by (simp_all add: pow2_def)
    then have "(of_int ?m :: rat) \<le> pow2 53" "- pow2 53 \<le> (of_int ?m :: rat)"
      using m by (simp_all only: of_int_le_iff)
    then show "of_int ?m * pow2 e \<le> pow2 53 * pow2 e" "- (pow2 53 * pow2 e) \<le> of_int ?m * pow2 e"
      using mult_right_mono [of _ _ "pow2 e"] less_imp_le [OF pow2_pos [of e]] by fastforce+
  qed
  have "pow2 53 * pow2 e < pow2 1024"
    unfolding pow2_add [symmetric] using assms(4) by (intro pow2_less) simp
  with bound have fin: "of_int ?m * pow2 e < pow2 1024" "- pow2 1024 < of_int ?m * pow2 e"
    by linarith+
  ultimately show ?thesis
    using assms(3) fin by (auto simp: round_double_def Let_def max_def)
qed

text \<open>The error of rounding is at most half a unit of the last place.\<close>

lemma round_even_near: "\<bar>of_int (round_even q) - q\<bar> \<le> 1 / 2"
proof -
  have "of_int \<lfloor>q\<rfloor> \<le> q" "q < of_int \<lfloor>q\<rfloor> + 1"
    by linarith+
  then show ?thesis
    by (auto simp: round_even_def Let_def abs_le_iff)
qed

lemma round_double_near:
  assumes "\<bar>q\<bar> < pow2 (k + 1)" and "- 1022 \<le> k" and "k < 1000"
  shows "\<exists>r. round_double q = Fin r \<and> \<bar>r - q\<bar> \<le> pow2 (k - 53)"
proof (cases "q = 0")
  case True
  then show ?thesis by (simp add: round_double_def less_imp_le)
next
  case False
  define e where "e = max (rat_log2 \<bar>q\<bar> - 52) (- 1074)"
  define x where "x = of_int (round_even (q / pow2 e)) * pow2 e"
  have "\<not> k < rat_log2 \<bar>q\<bar>"
    using rat_log2_bounds [of "\<bar>q\<bar>"] False assms(1) pow2_mono [of "k + 1" "rat_log2 \<bar>q\<bar>"] by auto
  then have e: "e \<le> k - 52"
    using assms(2) by (simp add: e_def)
  have "x - q = (of_int (round_even (q / pow2 e)) - q / pow2 e) * pow2 e"
    using pow2_pos [of e] by (simp add: x_def left_diff_distrib del: pow2_pos)
  then have "\<bar>x - q\<bar> = \<bar>of_int (round_even (q / pow2 e)) - q / pow2 e\<bar> * pow2 e"
    by (simp only: abs_mult abs_of_pos [OF pow2_pos])
  also have "\<dots> \<le> 1 / 2 * pow2 e"
    using round_even_near less_imp_le [OF pow2_pos] by (rule mult_right_mono)
  also have "\<dots> = pow2 (e - 1)"
    using pow2_add [of "e - 1" 1] by (simp add: pow2_def [of 1])
  also have "\<dots> \<le> pow2 (k - 53)"
    using e by (intro pow2_mono) simp
  finally have near: "\<bar>x - q\<bar> \<le> pow2 (k - 53)" .
  have "pow2 (k - 53) + pow2 (k + 1) \<le> pow2 1022 + pow2 1022"
    using assms(3) by (intro add_mono pow2_mono) simp_all
  also have "\<dots> < pow2 1024"
    using pow2_less [of 1023 1024] pow2_add [of 1022 1] by (simp add: pow2_def [of 1])
  finally have "\<bar>x\<bar> < pow2 1024"
    using near assms(1) by linarith
  then have "round_double q = Fin x"
    using False by (auto simp: round_double_def Let_def e_def [symmetric] x_def [symmetric])
  with near show ?thesis by blast
qed

lemma round_double_near_24:
  assumes "\<bar>q\<bar> < 2 ^ 24"
  shows "\<exists>r. round_double q = Fin r \<and> \<bar>r - q\<bar> \<le> 1 / 1000000000"
  using round_double_near [of q 23] assms by (auto simp: pow2_def)

lemma round_double_near_17:
  assumes "\<bar>q\<bar> < 2 ^ 17"
  shows "\<exists>r. round_double q = Fin r \<and> \<bar>r - q\<bar> \<le> 1 / 100000000000"
  using round_double_near [of q 16] assms by (auto simp: pow2_def)


section \<open>The length of printed numbers\<close>

lemma pow10_powi: "pow10 k = 10 powi k"
  by (simp add: pow10_def power_int_def inverse_eq_divide power_one_over)

lemma powi10_add: "10 powi i * 10 powi j = (10 powi (i + j) :: rat)"
  by (simp add: power_int_add)

lemma powi10_less: "10 powi i < (10 powi j :: rat) \<Longrightarrow> i < j"
proof (rule ccontr)
  assume "10 powi i < (10 powi j :: rat)" "\<not> i < j"
  moreover from this have "10 powi j \<le> (10 powi i :: rat)"
    by (intro power_int_increasing) auto
  ultimately show False by simp
qed

lemma show_nat_bounds:
  "0 < n \<Longrightarrow> 10 ^ (length (show_nat n) - 1) \<le> n \<and> n < 10 ^ length (show_nat n)"
proof (induction n rule: show_nat.induct)
  case (1 n)
  show ?case
  proof (cases "n < 10")
    case True
    with "1.prems" show ?thesis by (subst (1 2) show_nat.simps) simp
  next
    case False
    then have IH: "10 ^ (length (show_nat (n div 10)) - 1) \<le> n div 10" "n div 10 < 10 ^ length (show_nat (n div 10))"
      using "1.IH" by auto
    have "length (show_nat (n div 10)) \<noteq> 0" by simp
    then obtain k where k: "length (show_nat (n div 10)) = Suc k" using not0_implies_Suc by blast
    from False k have len: "length (show_nat n) = Suc (Suc k)" by (subst show_nat.simps) simp
    from IH k have "10 ^ k \<le> n div 10" "n div 10 < 10 ^ Suc k" by simp_all
    then have "10 * 10 ^ k \<le> n" "n < 10 * 10 ^ Suc k" by (simp_all add: div_less_iff_less_mult mult.commute less_eq_div_iff_mult_less_eq)
    with len show ?thesis by simp
  qed
qed

lemma rat_log10_bounds:
  assumes "0 < q"
  shows "pow10 (rat_log10 q) \<le> q" and "q < pow10 (rat_log10 q + 1)"
proof -
  obtain n d where nd: "quotient_of q = (n, d)" by (cases "quotient_of q")
  have q: "q = of_int n / of_int d" "0 < d" using quotient_of_div [OF nd] quotient_of_denom_pos [OF nd] by auto
  with assms have n: "0 < n" by (simp add: zero_less_divide_iff)
  define a b where "a = length (show_nat (nat n))" and "b = length (show_nat (nat d))"
  have ab: "0 < a" "0 < b" by (simp_all add: a_def b_def)
  have N: "10 powi (int a - 1) \<le> (of_int n :: rat)" "(of_int n :: rat) < 10 powi int a"
  proof -
    from show_nat_bounds [of "nat n"] n have "(10 :: nat) ^ (a - 1) \<le> nat n" "nat n < (10 :: nat) ^ a" by (auto simp: a_def)
    then have "(of_nat (10 ^ (a - 1)) :: rat) \<le> of_nat (nat n)" "(of_nat (nat n) :: rat) < of_nat (10 ^ a)"
      by (simp_all only: of_nat_le_iff of_nat_less_iff)
    then show "10 powi (int a - 1) \<le> (of_int n :: rat)" "(of_int n :: rat) < 10 powi int a"
      using n ab by (simp_all add: power_int_def nat_diff_distrib)
  qed
  have D: "10 powi (int b - 1) \<le> (of_int d :: rat)" "(of_int d :: rat) < 10 powi int b"
  proof -
    from show_nat_bounds [of "nat d"] q(2) have "(10 :: nat) ^ (b - 1) \<le> nat d" "nat d < (10 :: nat) ^ b" by (auto simp: b_def)
    then have "(of_nat (10 ^ (b - 1)) :: rat) \<le> of_nat (nat d)" "(of_nat (nat d) :: rat) < of_nat (10 ^ b)"
      by (simp_all only: of_nat_le_iff of_nat_less_iff)
    then show "10 powi (int b - 1) \<le> (of_int d :: rat)" "(of_int d :: rat) < 10 powi int b"
      using q(2) ab by (simp_all add: power_int_def nat_diff_distrib)
  qed
  have low: "10 powi (int a - int b - 1) \<le> q"
  proof -
    have "10 powi (int a - int b - 1) * of_int d \<le> 10 powi (int a - int b - 1) * (10 powi int b :: rat)"
      using D(2) by (intro mult_left_mono) auto
    also have "\<dots> = 10 powi (int a - 1)" by (simp only: powi10_add) simp
    finally show ?thesis using N(1) q by (simp add: pos_le_divide_eq)
  qed
  have high: "q < 10 powi (int a - int b + 1)"
  proof -
    have "of_int n < (10 powi int a :: rat)" by (rule N(2))
    also have "\<dots> = 10 powi (int a - int b + 1) * 10 powi (int b - 1)" by (simp only: powi10_add) simp
    also have "\<dots> \<le> 10 powi (int a - int b + 1) * of_int d" using D(1) by (intro mult_left_mono) auto
    finally show ?thesis using q by (simp add: pos_divide_less_eq)
  qed
  show "pow10 (rat_log10 q) \<le> q" "q < pow10 (rat_log10 q + 1)"
    using low high by (auto simp: rat_log10_def nd pow10_powi a_def b_def Let_def)
qed

lemma round_even_mono_int: "r \<le> of_int i \<Longrightarrow> round_even r \<le> i"
proof -
  assume r: "r \<le> of_int i"
  then have f: "\<lfloor>r\<rfloor> \<le> i" by linarith
  show ?thesis
  proof (cases "\<lfloor>r\<rfloor> = i")
    case True
    with r have "r = of_int i" by linarith
    then show ?thesis by (simp only: round_even_of_int)
  next
    case False
    with f show ?thesis by (auto simp: round_even_def Let_def)
  qed
qed

lemma significant12_bounds:
  assumes "0 < q" and "significant12 q = (m, x)"
  shows "m < 10 ^ 12" and "x = rat_log10 q \<or> x = rat_log10 q + 1"
proof -
  define y where "y = rat_log10 q"
  have "q / pow10 (y - 11) \<le> of_int (10 ^ 12)"
  proof -
    have "q \<le> 10 powi (y + 1)" using rat_log10_bounds(2) [OF assms(1)] by (simp add: y_def pow10_powi)
    also have "\<dots> = 10 ^ 12 * 10 powi (y - 11)"
      using powi10_add [of "y - 11" 12] by (simp add: add.commute)
    finally show ?thesis by (simp add: pow10_powi divide_le_eq)
  qed
  then have "nat (round_even (q / pow10 (y - 11))) \<le> 10 ^ 12"
    using round_even_mono_int by fastforce
  then show "m < 10 ^ 12" "x = rat_log10 q \<or> x = rat_log10 q + 1"
    using assms(2) by (auto simp: significant12_def y_def Let_def split: if_splits)
qed

text \<open>The numbers a \<^verbatim>\<open>double\<close> can be.\<close>

fun double_range :: "double \<Rightarrow> bool" where
  "double_range (Fin q) \<longleftrightarrow> q = 0 \<or> pow2 (- 1074) \<le> \<bar>q\<bar> \<and> \<bar>q\<bar> < pow2 1024"
| "double_range _ \<longleftrightarrow> True"

lemma length_strip_zeros: "length (strip_zeros s) \<le> length s"
  using length_dropWhile_le [of "\<lambda>c. c = CHR ''0''" "rev s"] by (simp add: strip_zeros_def)

lemma length_with_fraction: "length (with_fraction w f) \<le> length w + 1 + length f"
  using length_strip_zeros [of f] by (simp add: with_fraction_def Let_def)

lemma length_show_exponent:
  assumes "\<bar>x\<bar> < 1000"
  shows "length (show_exponent x) \<le> 5"
proof -
  have "length (show_nat (nat \<bar>x\<bar>)) \<le> 3"
    by (rule length_show_nat) (use assms in simp_all)
  then show ?thesis unfolding show_exponent_def by (auto simp only: Let_def length_append split: if_splits) simp_all
qed

lemma rat_log10_double:
  assumes "pow2 (- 1074) \<le> q" and "q < pow2 1024"
  shows "\<bar>rat_log10 q\<bar> < 500"
proof -
  have q: "0 < q" using assms(1) by (rule less_le_trans [rotated]) (simp add: pow2_def)
  note b = rat_log10_bounds [OF q]
  have big: "pow2 1024 \<le> pow10 400" "pow10 (- 400) \<le> pow2 (- 1074)"
    by (simp_all add: pow2_def pow10_def)
  have "10 powi rat_log10 q < (10 powi 400 :: rat)"
    using order.strict_trans1 [OF b(1) less_le_trans [OF assms(2) big(1)]] by (simp only: pow10_powi)
  then have "rat_log10 q < 400" by (rule powi10_less)
  moreover have "10 powi (- 400) < (10 powi (rat_log10 q + 1) :: rat)"
    using order.strict_trans1 [OF order_trans [OF big(2) assms(1)] b(2)] by (simp only: pow10_powi)
  then have "- 400 < rat_log10 q + 1" by (rule powi10_less)
  ultimately show ?thesis by simp
qed

lemma length_printf_g12:
  assumes "double_range v"
  shows "length (printf_g12 v) \<le> 20"
proof (cases v)
  case (Fin q)
  show ?thesis
  proof (cases "q = 0")
    case False
    obtain m x where mx: "significant12 \<bar>q\<bar> = (m, x)" by (cases "significant12 \<bar>q\<bar>")
    have q: "0 < \<bar>q\<bar>" using False by simp
    have "\<bar>rat_log10 \<bar>q\<bar>\<bar> < 500"
      using assms Fin False by (intro rat_log10_double) auto
    with significant12_bounds(2) [OF q mx] have "\<bar>x\<bar> < 1000" by auto
    note e = length_show_exponent [OF this]
    have d: "length (show_nat m) \<le> 12"
      using significant12_bounds(1) [OF q mx] by (intro length_show_nat) auto
    show ?thesis
      using Fin False mx d e length_with_fraction [of "''0''" "replicate (nat (- x - 1)) (CHR ''0'') @ show_nat m"]
        length_with_fraction [of "take (nat x + 1) (show_nat m)" "drop (nat x + 1) (show_nat m)"]
        length_with_fraction [of "take 1 (show_nat m)" "drop 1 (show_nat m)"]
      by (auto simp: Let_def min_def split: if_splits)
  qed (use Fin in simp)
qed simp_all

end
