(* ===== verification/Messages.thy ===== *)
theory Messages
  imports Double
begin

text \<open>
  The messages of \<^verbatim>\<open>IM.proto\<close>, one record each. An optional field that is not set has the default the
  getters return (zero, false, the empty string); whether it was set is not kept. The generated
  accessors of \<^verbatim>\<open>IM.pb.h\<close> are the record's selectors and updates; parsing and serializing are
  arguments of the code that uses them.
\<close>

record login_msg =
  lg_username :: string
  lg_password :: string
  lg_timestamp :: int

record register_msg =
  rg_username :: string
  rg_password :: string
  rg_mobile :: string
  rg_nickname :: string
  rg_sex :: int
  rg_age :: int
  rg_timestamp :: int
  rg_sign_info :: string
  rg_email :: string

record hongbaoreq_msg =
  hr_sender :: string
  hr_money :: double
  hr_category :: int
  hr_count :: int
  hr_receiver :: string
  hr_timestamp :: int

record hongbaoresp_msg =
  hp_hongbaokey :: string
  hp_sender :: string
  hp_isok :: bool
  hp_description :: string

record reqrob_msg =
  rq_hongbaokey :: string
  rq_sender :: string
  rq_selfname :: string

record resprob_msg =
  rp_hongbaokey :: string
  rp_sender :: string
  rp_robmoney :: double
  rp_totalcount :: int
  rp_leftcount :: int
  rp_isok :: bool
  rp_description :: string

record singlechat_msg =
  sc_receiver :: string
  sc_sender :: string
  sc_type :: int
  sc_message :: string
  sc_hbreq :: hongbaoreq_msg
  sc_hbrsp :: hongbaoresp_msg
  sc_robhbreq :: reqrob_msg
  sc_robhbrsp :: resprob_msg
  sc_timestamp :: int

record groupchat_msg =
  gc_groupid :: string
  gc_sender :: string
  gc_message :: string
  gc_timestamp :: int

record getfriendinfo_msg =
  gf_sender :: string
  gf_friend :: string
  gf_timestamp :: int

record friendinfo_msg =
  fi_mobile :: string
  fi_nickname :: string
  fi_sex :: string
  fi_age :: int
  fi_timestamp :: int

record response_msg =
  rs_result :: bool
  rs_description :: string

record userinfo_msg =
  ui_id :: int
  ui_sex :: int
  ui_age :: int
  ui_name :: string
  ui_nick :: string
  ui_phone :: string
  ui_email :: string
  ui_createtime :: int
  ui_updatetime :: int
  ui_sign_info :: string
  ui_money :: double

record session_msg =
  ss_islogin :: bool
  ss_hashkey :: int
  ss_ip :: string
  ss_redisname :: string
  ss_userinfo :: userinfo_msg

record roblog_msg =
  rl_name :: string
  rl_money :: double
  rl_time :: int

record sendhongbao_msg =
  sh_sender :: string
  sh_money :: double
  sh_leftmoney :: double
  sh_category :: int
  sh_count :: int
  sh_leftcount :: int
  sh_receiver :: string
  sh_robitem :: "roblog_msg list"
  sh_timestamp :: int

text \<open>Default-constructed messages.\<close>

definition new_hongbaoreq :: hongbaoreq_msg where
  "new_hongbaoreq = \<lparr>hr_sender = [], hr_money = Fin 0, hr_category = 0, hr_count = 0, hr_receiver = [], hr_timestamp = 0\<rparr>"

definition new_hongbaoresp :: hongbaoresp_msg where
  "new_hongbaoresp = \<lparr>hp_hongbaokey = [], hp_sender = [], hp_isok = False, hp_description = []\<rparr>"

definition new_reqrob :: reqrob_msg where
  "new_reqrob = \<lparr>rq_hongbaokey = [], rq_sender = [], rq_selfname = []\<rparr>"

definition new_resprob :: resprob_msg where
  "new_resprob =
     \<lparr>rp_hongbaokey = [], rp_sender = [], rp_robmoney = Fin 0, rp_totalcount = 0, rp_leftcount = 0, rp_isok = False,
      rp_description = []\<rparr>"

definition new_singlechat :: singlechat_msg where
  "new_singlechat =
     \<lparr>sc_receiver = [], sc_sender = [], sc_type = 0, sc_message = [], sc_hbreq = new_hongbaoreq,
      sc_hbrsp = new_hongbaoresp, sc_robhbreq = new_reqrob, sc_robhbrsp = new_resprob, sc_timestamp = 0\<rparr>"

definition new_response :: response_msg where
  "new_response = \<lparr>rs_result = False, rs_description = []\<rparr>"

definition new_userinfo :: userinfo_msg where
  "new_userinfo =
     \<lparr>ui_id = 0, ui_sex = 0, ui_age = 0, ui_name = [], ui_nick = [], ui_phone = [], ui_email = [], ui_createtime = 0,
      ui_updatetime = 0, ui_sign_info = [], ui_money = Fin 0\<rparr>"

definition new_session :: session_msg where
  "new_session = \<lparr>ss_islogin = False, ss_hashkey = 0, ss_ip = [], ss_redisname = [], ss_userinfo = new_userinfo\<rparr>"

definition new_sendhongbao :: sendhongbao_msg where
  "new_sendhongbao =
     \<lparr>sh_sender = [], sh_money = Fin 0, sh_leftmoney = Fin 0, sh_category = 0, sh_count = 0, sh_leftcount = 0,
      sh_receiver = [], sh_robitem = [], sh_timestamp = 0\<rparr>"

end
