(* ===== verification/IMComm.thy ===== *)
theory IMComm
  imports Text
begin

unbundle bit_operations_syntax

text \<open>
  The helpers of \<^verbatim>\<open>IMComm.cc\<close>: the hash that picks one of the three Redis masters for a user, and
  the replacement of NUL bytes by \<^verbatim>\<open>'~'\<close> under which serialized messages are passed to
  functions that take C strings. The replacement can be undone exactly when the original has
  no \<^verbatim>\<open>'~'\<close>; the code only logs that case.
\<close>

text \<open>\<^verbatim>\<open>char\<close> is signed on the target.\<close>

definition schar :: "char \<Rightarrow> int" where
  "schar c = (if of_char c < (128 :: int) then of_char c else of_char c - 256)"

definition DJBHash :: "string \<Rightarrow> int" where
  "DJBHash str =
     sint (foldl (\<lambda>hash c. (push_bit 5 hash + hash) + word_of_int (schar c)) (5381 :: 32 word) str
             AND 0x7FFFFFFF)"

abbreviation tilde :: char where
  "tilde \<equiv> CHR ''~''"

definition zeroToTilde :: "char \<Rightarrow> char" where
  "zeroToTilde c = (if c = NUL then tilde else c)"

text \<open>
  The overload on \<^verbatim>\<open>string\<close>: an index past the end would write to the terminator.
\<close>

definition replaceFromZero :: "string \<Rightarrow> nat \<Rightarrow> string res" where
  "replaceFromZero value byte_size =
     (if byte_size \<le> length value
      then Inr (map zeroToTilde (take byte_size value) @ drop byte_size value)
      else Inl (UndefinedBehaviour ''replaceFromZero''))"

text \<open>The overload on \<^verbatim>\<open>char*\<close>, on the array the pointer leads to.\<close>

definition replaceFromZero_array :: "string \<Rightarrow> nat \<Rightarrow> string res" where
  "replaceFromZero_array value byte_size =
     (if byte_size \<le> length value
      then Inr (map zeroToTilde (take byte_size value) @ drop byte_size value)
      else Inl (UndefinedBehaviour ''replaceFromZero''))"

definition tildeToZero :: "char \<Rightarrow> char" where
  "tildeToZero c = (if c = tilde then NUL else c)"

definition replaceToZero :: "string \<Rightarrow> string" where
  "replaceToZero value = map tildeToZero value"


section \<open>Laws\<close>

lemma DJBHash_range: "0 \<le> DJBHash s \<and> DJBHash s < 2 ^ 31"
proof -
  let ?h = "foldl (\<lambda>hash c. (push_bit 5 hash + hash) + word_of_int (schar c)) (5381 :: 32 word) s"
  have "(0x7FFFFFFF :: 32 word) = mask 31"
    by (simp add: mask_eq_exp_minus_1)
  then have m: "?h AND 0x7FFFFFFF = take_bit 31 ?h"
    by (simp add: take_bit_eq_mask)
  have "uint (take_bit 31 ?h) < 2 ^ 31"
    unfolding unsigned_take_bit_eq by (rule take_bit_int_less_exp)
  moreover have "- (2 ^ 31) \<le> uint (take_bit 31 ?h)"
    by (rule order_trans [OF _ uint_ge_0]) simp
  moreover from calculation have "sint (take_bit 31 ?h) = uint (take_bit 31 ?h)"
    by (simp add: sint_uint signed_take_bit_int_eq_self)
  ultimately show ?thesis
    unfolding DJBHash_def m by simp
qed

lemma redis_index: "DJBHash s mod 3 + 1 \<in> {1, 2, 3}"
  by auto

lemma zeroToTilde_nul_free: "NUL \<notin> set (map zeroToTilde s)"
  by (auto simp: zeroToTilde_def)

lemma replace_roundtrip_iff: "replaceToZero (map zeroToTilde s) = s \<longleftrightarrow> tilde \<notin> set s"
  by (induction s) (auto simp: replaceToZero_def tildeToZero_def zeroToTilde_def)

lemma c_str_zeroToTilde [simp]: "c_str (map zeroToTilde s) = map zeroToTilde s"
  by (rule c_str_no_nul) (rule zeroToTilde_nul_free)


section \<open>Properties\<close>

text \<open>
  C13. The NUL replacement: over the whole value, \<^verbatim>\<open>replaceFromZero\<close> returns, its result has the same
  length and survives as a C string, and \<^verbatim>\<open>replaceToZero\<close> gives the value back if and only if
  it contained no \<^verbatim>\<open>'~'\<close>.
\<close>

theorem replaceFromZero_roundtrip:
  "\<exists>v. replaceFromZero value (length value) = Inr v \<and> length v = length value \<and> c_str v = v \<and>
       (replaceToZero v = value \<longleftrightarrow> tilde \<notin> set value)"
  by (simp add: replaceFromZero_def replace_roundtrip_iff)

end
