(* ===== verification/ConnPool.thy ===== *)
theory ConnPool
  imports Prelude
begin

text \<open>
  The contract the two connection pools of the server (Redis and MySQL) share, and what it gives
  their clients. Connections are addresses; \<open>H\<close> is the set of connections that are in the hands
  of clients. \<open>acquire\<close> may also return a null pointer or have to wait (\<open>Blocked\<close>).

  Clients are threads that take connections and give back what they hold, in any interleaving.
  Proved once for every pool with the contract: no connection is ever handed to two clients at
  the same time, no more than the capacity is out, and giving back never fails.
\<close>

datatype pool_event =
    PoolGet nat
  | PoolPut nat nat

text \<open>
  The last component records a violation: a connection handed out that somebody holds, or a
  release that faults.
\<close>

fun pool_step :: "('s, nat option) prog \<Rightarrow> (nat \<Rightarrow> ('s, unit) prog) \<Rightarrow> pool_event \<Rightarrow>
    's \<times> (nat \<rightharpoonup> nat) \<times> bool \<Rightarrow> 's \<times> (nat \<rightharpoonup> nat) \<times> bool" where
  "pool_step acquire release (PoolGet client) (s, owner, bad) =
     (case acquire s of
        Inr (Some p, s') \<Rightarrow> (s', owner(p \<mapsto> client), bad \<or> owner p \<noteq> None)
      | Inr (None, s') \<Rightarrow> (s', owner, bad)
      | Inl e \<Rightarrow> (s, owner, bad \<or> e \<noteq> Blocked))"
| "pool_step acquire release (PoolPut client p) (s, owner, bad) =
     (if owner p = Some client then
        (case release p s of
           Inr (_, s') \<Rightarrow> (s', owner(p := None), bad)
         | Inl e \<Rightarrow> (s, owner, True))
      else (s, owner, bad))"

definition pool_run :: "('s, nat option) prog \<Rightarrow> (nat \<Rightarrow> ('s, unit) prog) \<Rightarrow> pool_event list \<Rightarrow>
    's \<Rightarrow> 's \<times> (nat \<rightharpoonup> nat) \<times> bool" where
  "pool_run acquire release events s = fold (pool_step acquire release) events (s, Map.empty, False)"

locale conn_pool =
  fixes inv :: "'s \<Rightarrow> nat set \<Rightarrow> bool"
    and acquire :: "('s, nat option) prog"
    and release :: "nat \<Rightarrow> ('s, unit) prog"
    and capacity :: nat
  assumes held_bound: "inv s H \<Longrightarrow> finite H \<and> card H \<le> capacity"
    and acquire_some: "inv s H \<Longrightarrow> acquire s = Inr (Some p, s') \<Longrightarrow> p \<notin> H \<and> inv s' (insert p H)"
    and acquire_none: "inv s H \<Longrightarrow> acquire s = Inr (None, s') \<Longrightarrow> inv s' H"
    and acquire_fault: "inv s H \<Longrightarrow> acquire s = Inl e \<Longrightarrow> e = Blocked"
    and release_held: "inv s H \<Longrightarrow> p \<in> H \<Longrightarrow> \<exists>s'. release p s = Inr ((), s') \<and> inv s' (H - {p})"
begin

lemma step_safe:
  assumes "inv s (dom owner)" and "pool_step acquire release ev (s, owner, False) = (s', owner', bad)"
  shows "inv s' (dom owner') \<and> \<not> bad"
proof (cases ev)
  case (PoolGet client)
  show ?thesis
  proof (cases "acquire s")
    case (Inl e)
    with acquire_fault [OF assms(1)] assms PoolGet show ?thesis by auto
  next
    case (Inr r)
    then obtain x s1 where r: "acquire s = Inr (x, s1)" by (cases r) auto
    show ?thesis
    proof (cases x)
      case None
      with r acquire_none [OF assms(1)] assms PoolGet show ?thesis by auto
    next
      case (Some p)
      with r acquire_some [OF assms(1), of p s1] assms PoolGet show ?thesis
        by (auto simp: domIff)
    qed
  qed
next
  case (PoolPut client p)
  show ?thesis
  proof (cases "owner p = Some client")
    case True
    then have "p \<in> dom owner" by auto
    from release_held [OF assms(1) this] obtain s1 where
      "release p s = Inr ((), s1)" "inv s1 (dom owner - {p})" by blast
    with True assms(2) PoolPut show ?thesis by auto
  next
    case False
    with assms PoolPut show ?thesis by auto
  qed
qed

lemma run_safe:
  assumes "inv s {}" and "pool_run acquire release events s = (s', owner, bad)"
  shows "inv s' (dom owner) \<and> \<not> bad"
proof -
  have "inv t (dom own) \<Longrightarrow> fold (pool_step acquire release) events (t, own, False) = (s', owner, bad) \<Longrightarrow>
      inv s' (dom owner) \<and> \<not> bad" for t own
  proof (induction events arbitrary: t own)
    case Nil
    then show ?case by auto
  next
    case (Cons ev events)
    obtain t1 own1 bad1 where st: "pool_step acquire release ev (t, own, False) = (t1, own1, bad1)"
      by (cases "pool_step acquire release ev (t, own, False)") auto
    with step_safe [OF Cons.prems(1) st] Cons.IH [of t1 own1] Cons.prems(2) show ?case by simp
  qed
  from this [of s Map.empty] assms show ?thesis
    by (simp add: pool_run_def)
qed

lemma run_bound:
  assumes "inv s {}" and "pool_run acquire release events s = (s', owner, bad)"
  shows "finite (dom owner) \<and> card (dom owner) \<le> capacity"
  using held_bound run_safe [OF assms] by blast

end

end
