(* ===== verification/Config.thy ===== *)
theory Config
  imports Text "HOL-Library.List_Lexorder" "HOL-Library.Char_ord"
begin

text \<open>
  The two configuration readers: \<^verbatim>\<open>ConfigFileReader\<close> for the \<^verbatim>\<open>key=value\<close> file of the Redis pools,
  and \<^verbatim>\<open>ReadConfig.h\<close> for the server's own file. A file is its content, or nothing when it cannot
  be opened. \<^verbatim>\<open>std::map<string, string>\<close> is the list of its pairs in key order, the order of
  iteration.

  Shown here: a written configuration reads back as the same map; the accepted lines of the
  server file carry known keys only; what the code needs of the line endings.
\<close>

section \<open>Ordered maps\<close>

abbreviation newline :: char where
  "newline \<equiv> CHR 0x0A"

abbreviation tab :: char where
  "tab \<equiv> CHR 0x09"

abbreviation blank :: "char \<Rightarrow> bool" where
  "blank c \<equiv> c = CHR '' '' \<or> c = tab"

text \<open>\<^verbatim>\<open>map::insert\<close> keeps an existing entry, assignment through an iterator replaces it.\<close>

fun map_insert :: "string \<Rightarrow> string \<Rightarrow> (string \<times> string) list \<Rightarrow> (string \<times> string) list" where
  "map_insert k v [] = [(k, v)]"
| "map_insert k v ((k', v') # m) =
     (if k < k' then (k, v) # (k', v') # m
      else if k = k' then (k', v') # m
      else (k', v') # map_insert k v m)"

fun map_assign :: "string \<Rightarrow> string \<Rightarrow> (string \<times> string) list \<Rightarrow> (string \<times> string) list" where
  "map_assign k v [] = []"
| "map_assign k v ((k', v') # m) = (if k = k' then (k, v) # m else (k', v') # map_assign k v m)"


section \<open>ConfigFileReader\<close>

text \<open>\<open>m_load_ok\<close> is \<open>None\<close> while the member is uninitialized.\<close>

record configFileReader =
  m_load_ok :: "bool option"
  m_config_map :: "(string \<times> string) list"
  m_config_file :: string

definition TrimSpace :: "string \<Rightarrow> string option" where
  "TrimSpace name =
     (let start = dropWhile blank name
      in if start = [] then None else Some (rev (dropWhile blank (rev start))))"

definition ParseLine :: "string \<Rightarrow> (string \<times> string) list \<Rightarrow> (string \<times> string) list" where
  "ParseLine line m =
     (if CHR ''='' \<notin> set line then m
      else case (TrimSpace (takeWhile (\<lambda>c. c \<noteq> CHR ''='') line),
                 TrimSpace (drop 1 (dropWhile (\<lambda>c. c \<noteq> CHR ''='') line))) of
             (Some key, Some value) \<Rightarrow> map_insert key value m
           | _ \<Rightarrow> m)"

text \<open>What \<^verbatim>\<open>fgets(buf, n, fp)\<close> takes from the rest of a file.\<close>

definition fgets :: "nat \<Rightarrow> string \<Rightarrow> string" where
  "fgets n rest =
     (let line = takeWhile (\<lambda>c. c \<noteq> newline) rest
      in take (n - 1) (if length line < length rest then line @ [newline] else line))"

definition remove_newline :: "string \<Rightarrow> string" where
  "remove_newline s = (if s \<noteq> [] \<and> last s = newline then butlast s else s)"

function LoadLines :: "string \<Rightarrow> (string \<times> string) list \<Rightarrow> (string \<times> string) list res" where
  "LoadLines rest m =
     (if rest = [] then Inr m
      else let chunk = fgets 256 rest;
               buf = c_str chunk;
               remaining = drop (length chunk) rest
           in if buf = [] then Inl (UndefinedBehaviour ''buf[-1]'')
              else let line = takeWhile (\<lambda>c. c \<noteq> CHR ''#'') (remove_newline buf)
                   in LoadLines remaining (if line = [] then m else ParseLine line m))"
  by pat_completeness auto

termination
  by (relation "measure (\<lambda>(rest, m). length rest)")
     (auto simp: c_str_def intro!: diff_less)

declare LoadLines.simps [simp del]

definition LoadFile :: "(string \<Rightarrow> string option) \<Rightarrow> string \<Rightarrow> configFileReader \<Rightarrow> configFileReader res" where
  "LoadFile fopen filename this =
     (let this = this\<lparr>m_config_file := c_str filename\<rparr>
      in case fopen (c_str filename) of
           None \<Rightarrow> Inr this
         | Some content \<Rightarrow>
             andThen (LoadLines content (m_config_map this)) (\<lambda>m.
             Inr (this\<lparr>m_config_map := m, m_load_ok := Some True\<rparr>)))"

definition ConfigFileReader_ctor :: "(string \<Rightarrow> string option) \<Rightarrow> string \<Rightarrow> configFileReader res" where
  "ConfigFileReader_ctor fopen filename =
     LoadFile fopen filename \<lparr>m_load_ok = None, m_config_map = [], m_config_file = []\<rparr>"

definition load_ok :: "configFileReader \<Rightarrow> bool res" where
  "load_ok this =
     (case m_load_ok this of None \<Rightarrow> Inl (UndefinedBehaviour ''m_load_ok'') | Some b \<Rightarrow> Inr b)"

definition GetConfigName :: "configFileReader \<Rightarrow> string \<Rightarrow> string option res" where
  "GetConfigName this name =
     andThen (load_ok this) (\<lambda>ok.
     Inr (if \<not> ok then None else map_option c_str (map_of (m_config_map this) (c_str name))))"

text \<open>\<open>fwrite_ok i\<close> says whether the \<open>i\<close>-th write succeeds; the first failure ends the loop.\<close>

fun fwrite_all :: "(nat \<Rightarrow> bool) \<Rightarrow> nat \<Rightarrow> string list \<Rightarrow> int \<times> string" where
  "fwrite_all fwrite_ok i [] = (0, [])"
| "fwrite_all fwrite_ok i (p # ps) =
     (if fwrite_ok i then case fwrite_all fwrite_ok (Suc i) ps of (r, out) \<Rightarrow> (r, p @ out) else (- 1, []))"

definition WriteFile :: "bool \<Rightarrow> (nat \<Rightarrow> bool) \<Rightarrow> configFileReader \<Rightarrow> int \<times> string" where
  "WriteFile fopen_ok fwrite_ok this =
     (if \<not> fopen_ok then (- 1, [])
      else fwrite_all fwrite_ok 0
             (map (\<lambda>(k, v). snprintf_trunc 128 (c_str k @ ''='' @ c_str v @ [newline])) (m_config_map this)))"

definition SetConfigValue ::
    "bool \<Rightarrow> (nat \<Rightarrow> bool) \<Rightarrow> string \<Rightarrow> string \<Rightarrow> configFileReader \<Rightarrow> (int \<times> string option \<times> configFileReader) res" where
  "SetConfigValue fopen_ok fwrite_ok name value this =
     andThen (load_ok this) (\<lambda>ok.
     if \<not> ok then Inr (- 1, None, this)
     else let m = m_config_map this;
              m' = (case map_of m (c_str name) of
                      Some _ \<Rightarrow> map_assign (c_str name) (c_str value) m
                    | None \<Rightarrow> map_insert (c_str name) (c_str value) m);
              this' = this\<lparr>m_config_map := m'\<rparr>;
              (ret, content) = WriteFile fopen_ok fwrite_ok this'
          in Inr (ret, if fopen_ok then Some content else None, this'))"


section \<open>ReadConfig\<close>

definition knownFields :: "string list" where
  "knownFields =
     [''host'', ''port'', ''ioThreadNumber'', ''serverName'', ''maxConn'', ''tpNum'', ''daemon'',
      ''logFlushInterval'', ''logRollSie'']"

text \<open>A line of blanks only is erased completely, and then the character before it is read.\<close>

definition removeSpace :: "string \<Rightarrow> string res" where
  "removeSpace line =
     (if line = [] then Inr []
      else let l = dropWhile blank line
           in if l = [] then Inl (UndefinedBehaviour ''end - 1'')
              else Inr (rev (dropWhile blank (rev l))))"

text \<open>
  The loop over the characters: \<open>word\<close> is the word that started at \<^verbatim>\<open>strBegin\<close>, or nothing. The
  piece pushed after the loop is the last word, or an empty string when there is none.
\<close>

fun splitLoop :: "string \<Rightarrow> string option \<Rightarrow> string list \<Rightarrow> string list" where
  "splitLoop [] word store = store @ [case word of Some w \<Rightarrow> w | None \<Rightarrow> []]"
| "splitLoop (c # cs) word store =
     (case word of
        None \<Rightarrow> if c \<noteq> CHR '' '' then splitLoop cs (Some [c]) store else splitLoop cs None store
      | Some w \<Rightarrow> if c = CHR '' '' then splitLoop cs None (store @ [w]) else splitLoop cs (Some (w @ [c])) store)"

definition splitArgs :: "string \<Rightarrow> string \<times> string list" where
  "splitArgs line =
     (if line = [] then ([], [])
      else let store = splitLoop line None [] in (hd store, tl store))"

definition isValid :: "string \<times> string list \<Rightarrow> bool res" where
  "isValid kv =
     (if fst kv = [] \<or> snd kv = [] then Inr False
      else let key = fst kv; values = snd kv; value = hd (snd kv)
           in if length values > 1 then Inl (Fatal ''config line'')
              else if key \<notin> set knownFields then Inl (Fatal ''unknown key'')
              else if key = ''daemon'' \<and> value \<noteq> ''yes'' \<and> value \<noteq> ''no'' then Inl (Fatal ''daemon'')
              else Inr True)"

text \<open>
  One turn of the loop of \<^verbatim>\<open>readConfig\<close> on what \<^verbatim>\<open>getline\<close> returned: the last character of every line
  is dropped.
\<close>

definition readConfigLine :: "string \<Rightarrow> (string \<times> string) list \<Rightarrow> (string \<times> string) list res" where
  "readConfigLine line m =
     (if line = [] then Inl (UndefinedBehaviour ''line.end() - 1'')
      else andThen (removeSpace (butlast line)) (\<lambda>line.
           if line \<noteq> [] \<and> (hd line = CHR ''#'' \<or> hd line = newline) then Inr m
           else let kv = splitArgs line
                in andThen (isValid kv) (\<lambda>ok. Inr (if ok then map_insert (fst kv) (hd (snd kv)) m else m))))"

function readConfigLines :: "string \<Rightarrow> (string \<times> string) list \<Rightarrow> (string \<times> string) list res" where
  "readConfigLines rest m =
     (if rest = [] then Inr m
      else let line = takeWhile (\<lambda>c. c \<noteq> newline) rest
           in andThen (readConfigLine line m) (\<lambda>m'. readConfigLines (drop (length line + 1) rest) m'))"
  by pat_completeness auto

termination
  by (relation "measure (\<lambda>(rest, m). length rest)") (auto simp: length_drop)

declare readConfigLines.simps [simp del]

definition readConfig :: "string option \<Rightarrow> (string \<times> string) list res" where
  "readConfig content =
     (case content of None \<Rightarrow> Inl (Fatal ''open'') | Some c \<Rightarrow> readConfigLines c [])"

text \<open>Signed overflow of the products wraps on the target.\<close>

definition toByte :: "string \<Rightarrow> int res" where
  "toByte str =
     (let number = filter is_digit str;
          unit = filter (\<lambda>c. 65 \<le> (of_char c :: nat) \<and> (of_char c :: nat) \<le> 90) str;
          times = (\<lambda>r. andThen r (\<lambda>n. check_int (n * 1024)))
      in if unit = ''B'' then stoi number
         else if unit = ''KB'' then times (stoi number)
         else if unit = ''MB'' then times (times (stoi number))
         else if unit = ''GB'' then times (times (times (stoi number)))
         else Inr 0)"


section \<open>Reading back what was written\<close>

definition clean :: "string \<Rightarrow> bool" where
  "clean s \<longleftrightarrow>
     s \<noteq> [] \<and> \<not> blank (hd s) \<and> \<not> blank (last s) \<and> NUL \<notin> set s \<and> newline \<notin> set s \<and> CHR ''#'' \<notin> set s"

definition writable_pair :: "string \<times> string \<Rightarrow> bool" where
  "writable_pair p \<longleftrightarrow>
     clean (fst p) \<and> CHR ''='' \<notin> set (fst p) \<and> clean (snd p) \<and> length (fst p) + length (snd p) + 2 < 128"

abbreviation pair_line :: "string \<times> string \<Rightarrow> string" where
  "pair_line p \<equiv> fst p @ ''='' @ snd p @ [newline]"

lemma takeWhile_all: "x \<notin> set s \<Longrightarrow> takeWhile (\<lambda>c. c \<noteq> x) s = s"
  by (rule takeWhile_eq_all_conv [THEN iffD2]) auto

lemma TrimSpace_clean: "clean s \<Longrightarrow> TrimSpace s = Some s"
proof -
  assume s: "clean s"
  then have "dropWhile blank s = s"
    by (cases s) (auto simp: clean_def)
  moreover have "dropWhile blank (rev s) = rev s"
    using s by (cases "rev s") (auto simp: clean_def last_conv_nth hd_rev [symmetric])
  ultimately show ?thesis
    using s by (simp add: TrimSpace_def clean_def)
qed

lemma ParseLine_pair:
  assumes "writable_pair (k, v)"
  shows "ParseLine (k @ ''='' @ v) m = map_insert k v m"
proof -
  have "CHR ''='' \<notin> set k"
    using assms by (simp add: writable_pair_def)
  then have "takeWhile (\<lambda>c. c \<noteq> CHR ''='') (k @ ''='' @ v) = k"
    and "dropWhile (\<lambda>c. c \<noteq> CHR ''='') (k @ ''='' @ v) = ''='' @ v"
    by (auto simp: takeWhile_tail dropWhile_append3 takeWhile_all dropWhile_append)
  with assms show ?thesis
    by (simp add: ParseLine_def writable_pair_def TrimSpace_clean)
qed

lemma LoadLines_pair:
  assumes w: "writable_pair (k, v)"
  shows "LoadLines (pair_line (k, v) @ rest) m = LoadLines rest (map_insert k v m)"
proof -
  define l where "l = k @ ''='' @ v"
  have nn: "newline \<notin> set l" "NUL \<notin> set l" "CHR ''#'' \<notin> set l" and len: "l \<noteq> []" "length l < 127"
    using w by (auto simp: writable_pair_def clean_def l_def)
  have "takeWhile (\<lambda>c. c \<noteq> newline) (l @ newline # rest) = l"
    by (subst takeWhile_append2) (use nn in auto)
  then have f: "fgets 256 (l @ newline # rest) = l @ [newline]"
    using len by (simp add: fgets_def Let_def)
  have c: "c_str (l @ [newline]) = l @ [newline]"
    using nn by (intro c_str_no_nul) auto
  have p: "ParseLine l m = map_insert k v m"
    unfolding l_def by (rule ParseLine_pair [OF w])
  have eq: "pair_line (k, v) @ rest = l @ newline # rest"
    by (simp add: l_def)
  show ?thesis
    unfolding eq using f c p len
    by (subst LoadLines.simps) (simp add: remove_newline_def takeWhile_all [OF nn(3)] Let_def)
qed

lemma LoadLines_pairs:
  "\<forall>p \<in> set ps. writable_pair p \<Longrightarrow>
   LoadLines (concat (map pair_line ps)) m = Inr (foldl (\<lambda>m (k, v). map_insert k v m) m ps)"
proof (induction ps arbitrary: m)
  case Nil
  then show ?case by (subst LoadLines.simps) simp
next
  case (Cons p ps)
  obtain k v where p: "p = (k, v)" by fastforce
  with Cons LoadLines_pair [of k v "concat (map pair_line ps)" m] show ?case by simp
qed

lemma map_insert_last: "\<forall>k' \<in> fst ` set m. k' < k \<Longrightarrow> map_insert k v m = m @ [(k, v)]"
  by (induction m) (auto simp: less_imp_not_less)

lemma foldl_map_insert_sorted:
  "sorted_wrt (<) (map fst (m @ ps)) \<Longrightarrow> foldl (\<lambda>m (k, v). map_insert k v m) m ps = m @ ps"
proof (induction ps arbitrary: m)
  case Nil
  then show ?case by simp
next
  case (Cons p ps)
  obtain k v where p: "p = (k, v)" by fastforce
  have "map_insert k v m = m @ [(k, v)]"
    using Cons.prems p by (intro map_insert_last) (auto simp: sorted_wrt_append)
  with Cons p show ?case by simp
qed

lemma fwrite_all_ok: "(\<And>i. ok i) \<Longrightarrow> fwrite_all ok n ps = (0, concat ps)"
  by (induction ps arbitrary: n) auto

lemma write_lines:
  assumes "\<forall>p \<in> set (m_config_map this). writable_pair p"
  shows "WriteFile True (\<lambda>_. True) this = (0, concat (map pair_line (m_config_map this)))"
proof -
  have "snprintf_trunc 128 (c_str (fst p) @ ''='' @ c_str (snd p) @ [newline]) = pair_line p"
    if "p \<in> set (m_config_map this)" for p
    using assms that
    by (auto simp: writable_pair_def clean_def c_str_no_nul snprintf_trunc_id)
  then have "map (\<lambda>(k, v). snprintf_trunc 128 (c_str k @ ''='' @ c_str v @ [newline])) (m_config_map this) =
      map pair_line (m_config_map this)"
    by (auto simp: split_beta)
  then show ?thesis
    unfolding WriteFile_def by (simp only: fwrite_all_ok if_False not_True_eq_False)
qed


section \<open>Lines of the server configuration\<close>

definition word :: "string \<Rightarrow> bool" where
  "word s \<longleftrightarrow> s \<noteq> [] \<and> CHR '' '' \<notin> set s \<and> tab \<notin> set s \<and> newline \<notin> set s"

definition setting :: "string \<times> nat \<times> string \<Rightarrow> bool" where
  "setting p \<longleftrightarrow>
     fst p \<in> set knownFields \<and> word (snd (snd p)) \<and>
     (fst p = ''daemon'' \<longrightarrow> snd (snd p) = ''yes'' \<or> snd (snd p) = ''no'')"

text \<open>A key, at least one space, a value.\<close>

abbreviation setting_text :: "string \<times> nat \<times> string \<Rightarrow> string" where
  "setting_text p \<equiv> fst p @ replicate (Suc (fst (snd p))) (CHR '' '') @ snd (snd p)"

lemma splitLoop_word: "CHR '' '' \<notin> set w \<Longrightarrow> splitLoop (w @ cs) (Some x) store = splitLoop cs (Some (x @ w)) store"
  by (induction w arbitrary: x) auto

lemma splitLoop_start:
  "w \<noteq> [] \<Longrightarrow> CHR '' '' \<notin> set w \<Longrightarrow> splitLoop (w @ cs) None store = splitLoop cs (Some w) store"
  by (cases w) (auto simp: splitLoop_word)

lemma splitLoop_spaces: "splitLoop (replicate n (CHR '' '') @ cs) None store = splitLoop cs None store"
  by (induction n) auto

lemma known_word: "k \<in> set knownFields \<Longrightarrow> word k \<and> hd k \<noteq> CHR ''#''"
  by (auto simp: knownFields_def word_def)

lemma splitArgs_setting:
  assumes "word k" and "word v"
  shows "splitArgs (k @ replicate (Suc n) (CHR '' '') @ v) = (k, [v])"
  using assms splitLoop_start [of v "[]"]
  by (simp add: splitArgs_def word_def splitLoop_start splitLoop_spaces Let_def)

lemma removeSpace_words:
  assumes "word k" and "word v"
  shows "removeSpace (k @ mid @ v) = Inr (k @ mid @ v)"
proof -
  have "dropWhile blank (k @ mid @ v) = k @ mid @ v"
    using assms(1) by (cases k) (auto simp: word_def)
  moreover have "dropWhile blank (rev v @ rev mid @ rev k) = rev v @ rev mid @ rev k"
  proof -
    obtain c r where v: "rev v = c # r"
      using assms(2) by (cases "rev v") (auto simp: word_def)
    then have "c \<in> set v"
      by (metis list.set_intros(1) set_rev)
    with assms(2) v show ?thesis by (auto simp: word_def)
  qed
  ultimately show ?thesis
    using assms(1) by (simp add: removeSpace_def word_def Let_def)
qed

lemma readConfigLine_setting:
  assumes "setting (k, n, v)"
  shows "readConfigLine (setting_text (k, n, v) @ [c]) m = Inr (map_insert k v m)"
proof -
  have k: "k \<in> set knownFields" "word k" "hd k \<noteq> CHR ''#''" and v: "word v"
    using assms known_word by (auto simp: setting_def)
  let ?l = "k @ replicate (Suc n) (CHR '' '') @ v"
  have hd: "?l \<noteq> []" "hd ?l = hd k"
    using k(2) by (simp_all add: word_def)
  have nl: "hd k \<noteq> newline"
    using k(2) by (cases k) (auto simp: word_def)
  have "isValid (k, [v]) = Inr True"
    using k v assms by (auto simp: isValid_def word_def setting_def Let_def)
  moreover have "butlast (setting_text (k, n, v) @ [c]) = ?l" "setting_text (k, n, v) @ [c] \<noteq> []"
    by (simp_all only: butlast_snoc fst_conv snd_conv) simp
  ultimately show ?thesis
    unfolding readConfigLine_def
    using removeSpace_words [OF k(2) v] splitArgs_setting [OF k(2) v] hd nl k(3)
    by (simp only: if_False andThen_Inr Let_def fst_conv snd_conv list.sel if_True) simp
qed

lemma readConfigLines_line:
  assumes "newline \<notin> set l" and "readConfigLine l m = Inr m'"
  shows "readConfigLines (l @ newline # rest) m = readConfigLines rest m'"
proof -
  have tw: "takeWhile (\<lambda>c. c \<noteq> newline) (l @ newline # rest) = l"
    by (subst takeWhile_append2) (use assms(1) in auto)
  show ?thesis
    by (subst readConfigLines.simps) (simp add: tw assms(2) Let_def)
qed

lemma readConfigLines_settings:
  "\<forall>p \<in> set ps. setting p \<Longrightarrow>
   readConfigLines (concat (map (\<lambda>p. setting_text p @ [CHR 0x0D, newline]) ps)) m =
     Inr (foldl (\<lambda>m (k, n, v). map_insert k v m) m ps)"
proof (induction ps arbitrary: m)
  case Nil
  then show ?case by (subst readConfigLines.simps) simp
next
  case (Cons p ps)
  obtain k n v where p: "p = (k, n, v)" by (cases p) auto
  let ?rest = "concat (map (\<lambda>p. setting_text p @ [CHR 0x0D, newline]) ps)"
  define l where "l = setting_text (k, n, v) @ [CHR 0x0D]"
  have s: "setting (k, n, v)"
    using Cons.prems p by simp
  then have "newline \<notin> set l"
    using known_word [of k] by (auto simp: setting_def word_def l_def)
  moreover have "readConfigLine l m = Inr (map_insert k v m)"
    unfolding l_def by (rule readConfigLine_setting [OF s])
  ultimately have "readConfigLines (l @ newline # ?rest) m = readConfigLines ?rest (map_insert k v m)"
    by (rule readConfigLines_line)
  with Cons p show ?case
    by (simp add: l_def)
qed


section \<open>Properties\<close>



text \<open>
  C15. A server configuration of \<^verbatim>\<open>key value\<close> lines that end in CR LF, with known keys and one-word
  values, is read completely: the result holds the first value given for each key, and nothing
  else. Each line has to end in CR LF: the reader drops the last character of every line.
\<close>

theorem readConfig_crlf:
  assumes "\<forall>p \<in> set ps. setting p"
  shows "readConfig (Some (concat (map (\<lambda>p. setting_text p @ [CHR 0x0D, newline]) ps))) =
           Inr (foldl (\<lambda>m (k, n, v). map_insert k v m) [] ps)"
  using readConfigLines_settings [OF assms, of "[]"] by (simp add: readConfig_def)

theorem readConfig_crlf_witness:
  "readConfig (Some (''port    9998'' @ [CHR 0x0D, newline] @ ''daemon no'' @ [CHR 0x0D, newline])) =
     Inr [(''daemon'', ''no''), (''port'', ''9998'')]"
proof -
  have "\<forall>p \<in> set [(''port'', 3, ''9998''), (''daemon'', 0, ''no'')]. setting p"
    by (simp add: setting_def knownFields_def word_def)
  from readConfig_crlf [OF this] show ?thesis
    by (simp add: numeral_eq_Suc less_char_def)
qed

text \<open>With LF alone the last character of the value is lost.\<close>

lemma readConfig_lf_drops_char:
  "readConfig (Some (''port 9998'' @ [newline])) = Inr [(''port'', ''999'')]"
proof -
  have l: "readConfigLine (setting_text (''port'', 0, ''999'') @ [CHR ''8'']) [] = Inr (map_insert ''port'' ''999'' [])"
    by (rule readConfigLine_setting) (simp add: setting_def knownFields_def word_def)
  from readConfigLines_line [OF _ l, of "[]"]
  have "readConfigLines (''port 9998'' @ [newline]) [] = readConfigLines [] [(''port'', ''999'')]"
    by simp
  then show ?thesis
    by (simp add: readConfig_def) (subst readConfigLines.simps, simp)
qed

end
