(* ===== verification/CachePool.thy ===== *)
theory CachePool
  imports CacheConn ConnPool Config
begin

text \<open>
  The pools of Redis connections and their manager, classes \<^verbatim>\<open>CachePool\<close> and \<^verbatim>\<open>CacheManager\<close> of
  \<^verbatim>\<open>CachePool.cc\<close>. A pool operation is a program over the pool and the objects of \<open>cacheState\<close>.
  Each runs under the pool's lock, so operations of different threads interleave as wholes;
  \<^verbatim>\<open>Wait\<close> gives up the lock and is the fault \<open>Blocked\<close> with the pool unchanged, after which the
  caller tests the condition again.

  The pool is an instance of the contract \<open>conn_pool\<close>.
\<close>

section \<open>CachePool\<close>

definition MIN_CACHE_CONN_CNT :: int where
  "MIN_CACHE_CONN_CNT = 2"

record cachePool =
  m_conf :: cachePoolConf
  m_cur_conn_cnt :: int
  m_free_list :: "nat list"

type_synonym 'w poolState = "cachePool \<times> 'w cacheState"

text \<open>A program on the objects inside one on the pool, and access to the pool itself.\<close>

definition objects :: "('w cacheState, 'a) prog \<Rightarrow> ('w poolState, 'a) prog" where
  "objects m ps = andThen (m (snd ps)) (\<lambda>(x, s). Inr (x, fst ps, s))"

definition pool :: "('w poolState, cachePool) prog" where
  "pool ps = Inr (fst ps, ps)"

definition set_pool :: "(cachePool \<Rightarrow> cachePool) \<Rightarrow> ('w poolState, unit) prog" where
  "set_pool f ps = Inr ((), f (fst ps), snd ps)"

definition CachePool_ctor :: "string \<Rightarrow> string \<Rightarrow> int \<Rightarrow> int \<Rightarrow> int \<Rightarrow> cachePool" where
  "CachePool_ctor pool_name server_ip server_port db_num max_conn_cnt =
     \<lparr>m_conf = \<lparr>m_pool_name = c_str pool_name, m_server_ip = c_str server_ip, m_server_port = server_port,
                m_db_num = db_num, m_max_conn_cnt = max_conn_cnt\<rparr>,
      m_cur_conn_cnt = MIN_CACHE_CONN_CNT, m_free_list = []\<rparr>"

fun delete_all :: "nat list \<Rightarrow> ('w cacheState, unit) prog" where
  "delete_all [] = ret ()"
| "delete_all (c # cs) = chain (CacheConn_dtor c) (\<lambda>_. delete_all cs)"

definition CachePool_dtor :: "('w poolState, unit) prog" where
  "CachePool_dtor =
     chain pool (\<lambda>p.
     chain (objects (delete_all (m_free_list p))) (\<lambda>_.
     set_pool (\<lambda>p. p\<lparr>m_free_list := [], m_cur_conn_cnt := 0\<rparr>)))"

text \<open>\<^verbatim>\<open>new CacheConn(this)\<close> and its \<^verbatim>\<open>Init\<close>; a connection that fails is deleted again.\<close>

definition new_connection :: "'w redisApi \<Rightarrow> ('w poolState, nat option) prog" where
  "new_connection api =
     chain pool (\<lambda>p.
     objects (chain (CacheConn_ctor (m_conf p)) (\<lambda>c.
              chain (CacheConn_Init api c) (\<lambda>r.
              if r \<noteq> 0 then chain (CacheConn_dtor c) (\<lambda>_. ret None) else ret (Some c)))))"

fun CachePool_Init_loop :: "'w redisApi \<Rightarrow> nat \<Rightarrow> ('w poolState, int) prog" where
  "CachePool_Init_loop api 0 = ret 0"
| "CachePool_Init_loop api (Suc n) =
     chain (new_connection api) (\<lambda>c.
     case c of
       None \<Rightarrow> ret 1
     | Some c \<Rightarrow>
         chain (set_pool (\<lambda>p. p\<lparr>m_free_list := m_free_list p @ [c]\<rparr>)) (\<lambda>_. CachePool_Init_loop api n))"

definition CachePool_Init :: "'w redisApi \<Rightarrow> ('w poolState, int) prog" where
  "CachePool_Init api = chain pool (\<lambda>p. CachePool_Init_loop api (nat (m_cur_conn_cnt p)))"

definition pop_front :: "('w poolState, nat option) prog" where
  "pop_front =
     chain pool (\<lambda>p.
     case m_free_list p of
       [] \<Rightarrow> fail (UndefinedBehaviour ''front'')
     | c # cs \<Rightarrow> chain (set_pool (\<lambda>p. p\<lparr>m_free_list := cs\<rparr>)) (\<lambda>_. ret (Some c)))"

text \<open>
  The loop tests the list again after it pushed the new connection, so that its body runs at most
  once between two waits.
\<close>

definition CachePool_GetCacheConn :: "'w redisApi \<Rightarrow> ('w poolState, nat option) prog" where
  "CachePool_GetCacheConn api =
     chain pool (\<lambda>p.
     if m_free_list p \<noteq> [] then pop_front
     else if m_cur_conn_cnt p \<ge> m_max_conn_cnt (m_conf p) then fail Blocked
     else chain (new_connection api) (\<lambda>c.
          case c of
            None \<Rightarrow> ret None
          | Some c \<Rightarrow>
              chain (set_pool (\<lambda>p. p\<lparr>m_free_list := m_free_list p @ [c], m_cur_conn_cnt := m_cur_conn_cnt p + 1\<rparr>)) (\<lambda>_.
              pop_front)))"

text \<open>The signal to a waiting thread changes no state here.\<close>

definition CachePool_RelCacheConn :: "nat \<Rightarrow> ('w poolState, unit) prog" where
  "CachePool_RelCacheConn c =
     set_pool (\<lambda>p. if c \<in> set (m_free_list p) then p else p\<lparr>m_free_list := m_free_list p @ [c]\<rparr>)"


section \<open>CacheManager\<close>

record 'w cacheWorld =
  cache_manager :: "(string \<rightharpoonup> cachePool) option"
  objs :: "'w cacheState"

definition split_instances :: "string \<Rightarrow> string \<Rightarrow> string list" where
  "split_instances str pattern = strtok_all (\<lambda>c. c \<in> set (c_str pattern)) (c_str str)"

definition config_name :: "string \<Rightarrow> string \<Rightarrow> string" where
  "config_name instance suffix = snprintf_trunc 64 (c_str instance @ suffix)"

fun CacheManager_Init_loop :: "'w redisApi \<Rightarrow> (string \<Rightarrow> string option) \<Rightarrow> string list \<Rightarrow> (string \<rightharpoonup> cachePool) \<Rightarrow>
    ('w cacheState, int \<times> (string \<rightharpoonup> cachePool)) prog" where
  "CacheManager_Init_loop api config [] pools = ret (0, pools)"
| "CacheManager_Init_loop api config (i # is) pools =
     (case (config (config_name i ''_host''), config (config_name i ''_port''),
            config (config_name i ''_db''), config (config_name i ''_maxconncnt'')) of
        (Some host, Some port, Some db, Some maxconncnt) \<Rightarrow>
          (\<lambda>s. andThen (CachePool_Init api (CachePool_ctor i host (atoi port) (atoi db) (atoi maxconncnt), s))
             (\<lambda>(r, p, s').
                if r \<noteq> 0 then Inr ((3, pools), s')
                else CacheManager_Init_loop api config is
                       (if pools i = None then pools(i \<mapsto> p) else pools) s'))
      | _ \<Rightarrow> ret (2, pools))"

definition CacheManager_Init :: "'w redisApi \<Rightarrow> (string \<Rightarrow> string option) \<Rightarrow>
    ('w cacheState, int \<times> (string \<rightharpoonup> cachePool)) prog" where
  "CacheManager_Init api fopen =
     chain (lift (ConfigFileReader_ctor fopen ''../conf/dbproxyserver.conf'')) (\<lambda>config_file.
     chain (lift (GetConfigName config_file ''CacheInstances'')) (\<lambda>cache_instances.
     case cache_instances of
       None \<Rightarrow> ret (1, Map.empty)
     | Some instances \<Rightarrow>
         CacheManager_Init_loop api
           (\<lambda>n. case GetConfigName config_file n of Inr v \<Rightarrow> v | Inl _ \<Rightarrow> None)
           (split_instances instances '','') Map.empty))"

definition CacheManager_getInstance :: "'w redisApi \<Rightarrow> (string \<Rightarrow> string option) \<Rightarrow> ('w cacheWorld, bool) prog" where
  "CacheManager_getInstance api fopen s =
     (case cache_manager s of
        Some _ \<Rightarrow> Inr (True, s)
      | None \<Rightarrow>
          andThen (CacheManager_Init api fopen (objs s)) (\<lambda>((r, pools), os).
          if r \<noteq> 0 then Inr (False, s\<lparr>objs := os\<rparr>)
          else Inr (True, s\<lparr>objs := os, cache_manager := Some pools\<rparr>)))"

text \<open>A pool operation on the pool of a name; the manager pointer must not be null.\<close>

definition on_pool :: "string \<Rightarrow> ('w poolState, 'a) prog \<Rightarrow> 'a \<Rightarrow> ('w cacheWorld, 'a) prog" where
  "on_pool name m missing s =
     (case cache_manager s of
        None \<Rightarrow> Inl (UndefinedBehaviour ''CacheManager'')
      | Some pools \<Rightarrow>
          (case pools name of
             None \<Rightarrow> Inr (missing, s)
           | Some p \<Rightarrow>
               andThen (m (p, objs s)) (\<lambda>(x, p', os).
               Inr (x, s\<lparr>cache_manager := Some (pools(name \<mapsto> p')), objs := os\<rparr>))))"

definition CacheManager_GetCacheConn :: "'w redisApi \<Rightarrow> string \<Rightarrow> ('w cacheWorld, nat option) prog" where
  "CacheManager_GetCacheConn api pool_name = on_pool (c_str pool_name) (CachePool_GetCacheConn api) None"

definition CacheManager_RelCacheConn :: "nat option \<Rightarrow> ('w cacheWorld, unit) prog" where
  "CacheManager_RelCacheConn c s =
     (case c of
        None \<Rightarrow> if cache_manager s = None then Inl (UndefinedBehaviour ''CacheManager'') else Inr ((), s)
      | Some c \<Rightarrow>
          andThen (CacheConn_GetPoolName c (objs s)) (\<lambda>(name, _).
          on_pool name (CachePool_RelCacheConn c) () s))"

text \<open>An operation of a connection, by its address, in the manager's world.\<close>

definition on_conn :: "('w cacheState, 'a) prog \<Rightarrow> ('w cacheWorld, 'a) prog" where
  "on_conn m s = andThen (m (objs s)) (\<lambda>(x, os). Inr (x, s\<lparr>objs := os\<rparr>))"


section \<open>The pool contract\<close>

definition cache_pool_inv :: "cachePoolConf \<Rightarrow> 'w poolState \<Rightarrow> nat set \<Rightarrow> bool" where
  "cache_pool_inv conf ps H \<longleftrightarrow>
     m_conf (fst ps) = conf \<and>
     distinct (m_free_list (fst ps)) \<and> finite H \<and> set (m_free_list (fst ps)) \<inter> H = {} \<and>
     set (m_free_list (fst ps)) \<union> H \<subseteq> dom (conn_heap (snd ps)) \<and>
     (\<forall>c \<in> dom (conn_heap (snd ps)). c < next_conn (snd ps)) \<and>
     m_cur_conn_cnt (fst ps) = int (length (m_free_list (fst ps)) + card H) \<and>
     m_cur_conn_cnt (fst ps) \<le> max MIN_CACHE_CONN_CNT (m_max_conn_cnt conf)"

lemmas pool_prog_defs = pool_def set_pool_def objects_def chain_def ret_def fail_def

text \<open>A new connection is a new object, whatever Redis answers; a failed one leaves no object.\<close>

lemma new_connection_ok:
  assumes "\<forall>c \<in> dom (conn_heap s). c < next_conn s"
  shows "\<exists>s'. (\<forall>c \<in> dom (conn_heap s'). c < next_conn s') \<and>
    (new_connection api (p, s) = Inr (Some (next_conn s), p, s') \<and>
       dom (conn_heap s') = insert (next_conn s) (dom (conn_heap s)) \<or>
     new_connection api (p, s) = Inr (None, p, s') \<and> dom (conn_heap s') = dom (conn_heap s))"
proof -
  define c where "c = \<lparr>m_pCachePool = m_conf p, m_pContext = None, m_last_connect_time = 0\<rparr>"
  define s1 where "s1 = s\<lparr>conn_heap := (conn_heap s)(next_conn s \<mapsto> c), next_conn := Suc (next_conn s)\<rparr>"
  have ctor: "CacheConn_ctor (m_conf p) s = Inr (next_conn s, s1)"
    by (simp add: CacheConn_ctor_def s1_def c_def)
  have heap: "conn_heap s1 (next_conn s) = Some c"
    by (simp add: s1_def)
  have fresh: "next_conn s \<notin> dom (conn_heap s)"
    using assms by auto
  have next1: "next_conn s1 = Suc (next_conn s)" "dom (conn_heap s1) = insert (next_conn s) (dom (conn_heap s))"
    by (auto simp: s1_def)
  show ?thesis
  proof (cases "fst (redisClusterContextInit api (redis s1))")
    case True
    with Init_ok [OF heap] ctor have "new_connection api (p, s) =
        Inr (Some (next_conn s), p, after_reply (next_conn s) c (connected_world api c (redis s1)) s1)"
      by (simp add: new_connection_def pool_prog_defs)
    with next1 assms show ?thesis
      by (intro exI [of _ "after_reply (next_conn s) c (connected_world api c (redis s1)) s1"])
         (auto simp: after_reply_def less_Suc_eq)
  next
    case False
    let ?s2 = "s1\<lparr>redis := snd (redisClusterContextInit api (redis s1)),
                  conn_heap := (conn_heap s1)(next_conn s \<mapsto> c\<lparr>m_pContext := None\<rparr>)\<rparr>"
    have "CacheConn_dtor (next_conn s) ?s2 = Inr ((), ?s2\<lparr>conn_heap := (conn_heap ?s2)(next_conn s := None)\<rparr>)"
      by (simp add: CacheConn_dtor_def conn_prog_defs)
    with Init_failed [OF heap False] ctor have "new_connection api (p, s) =
        Inr (None, p, ?s2\<lparr>conn_heap := (conn_heap ?s2)(next_conn s := None)\<rparr>)"
      by (simp add: new_connection_def pool_prog_defs)
    moreover have "dom ((conn_heap ?s2)(next_conn s := None)) = dom (conn_heap s)"
      using fresh next1 by (auto simp: s1_def)
    ultimately show ?thesis
      using next1 assms
      by (intro exI [of _ "?s2\<lparr>conn_heap := (conn_heap ?s2)(next_conn s := None)\<rparr>"]) (auto simp: less_Suc_eq)
  qed
qed

lemma GetCacheConn_pop:
  "m_free_list p = c # cs \<Longrightarrow> CachePool_GetCacheConn api (p, s) = Inr (Some c, p\<lparr>m_free_list := cs\<rparr>, s)"
  by (simp add: CachePool_GetCacheConn_def pop_front_def pool_prog_defs)

lemma GetCacheConn_grow:
  assumes "m_free_list p = []" and "m_cur_conn_cnt p < m_max_conn_cnt (m_conf p)"
    and "new_connection api (p, s) = Inr (r, p, s')"
  shows "CachePool_GetCacheConn api (p, s) =
    (case r of None \<Rightarrow> Inr (None, p, s')
             | Some c \<Rightarrow> Inr (Some c, p\<lparr>m_cur_conn_cnt := m_cur_conn_cnt p + 1\<rparr>, s'))"
  using assms by (cases r) (simp_all add: CachePool_GetCacheConn_def pop_front_def pool_prog_defs)

lemma GetCacheConn_block:
  "m_free_list p = [] \<Longrightarrow> m_max_conn_cnt (m_conf p) \<le> m_cur_conn_cnt p \<Longrightarrow>
   CachePool_GetCacheConn api (p, s) = Inl Blocked"
  by (simp add: CachePool_GetCacheConn_def pool_prog_defs)

lemma GetCacheConn_cases:
  assumes inv: "cache_pool_inv conf (p, s) H"
  shows "(\<exists>c cs. m_free_list p = c # cs \<and> CachePool_GetCacheConn api (p, s) = Inr (Some c, p\<lparr>m_free_list := cs\<rparr>, s)) \<or>
    CachePool_GetCacheConn api (p, s) = Inl Blocked \<or>
    (\<exists>s'. m_free_list p = [] \<and> m_cur_conn_cnt p < m_max_conn_cnt conf \<and>
       (\<forall>c \<in> dom (conn_heap s'). c < next_conn s') \<and>
       (CachePool_GetCacheConn api (p, s) =
          Inr (Some (next_conn s), p\<lparr>m_cur_conn_cnt := m_cur_conn_cnt p + 1\<rparr>, s') \<and>
        dom (conn_heap s') = insert (next_conn s) (dom (conn_heap s)) \<or>
        CachePool_GetCacheConn api (p, s) = Inr (None, p, s') \<and> dom (conn_heap s') = dom (conn_heap s)))"
proof (cases "m_free_list p")
  case (Cons c cs)
  with GetCacheConn_pop [of p c cs api s] show ?thesis by blast
next
  case Nil
  have conf: "m_conf p = conf" and heap: "\<forall>c \<in> dom (conn_heap s). c < next_conn s"
    using inv by (simp_all add: cache_pool_inv_def)
  show ?thesis
  proof (cases "m_cur_conn_cnt p < m_max_conn_cnt conf")
    case False
    with Nil conf GetCacheConn_block [of p api s] show ?thesis by simp
  next
    case True
    from new_connection_ok [OF heap, of api p] obtain s' where
      s': "\<forall>c \<in> dom (conn_heap s'). c < next_conn s'"
        "new_connection api (p, s) = Inr (Some (next_conn s), p, s') \<and>
           dom (conn_heap s') = insert (next_conn s) (dom (conn_heap s)) \<or>
         new_connection api (p, s) = Inr (None, p, s') \<and> dom (conn_heap s') = dom (conn_heap s)" by blast
    with True Nil conf GetCacheConn_grow [of p api s] show ?thesis by auto
  qed
qed

lemma inv_pop:
  assumes "cache_pool_inv conf (p, s) H" and "m_free_list p = c # cs"
  shows "c \<notin> H \<and> cache_pool_inv conf (p\<lparr>m_free_list := cs\<rparr>, s) (insert c H)"
  using assms by (auto simp: cache_pool_inv_def)

lemma inv_grow:
  assumes "cache_pool_inv conf (p, s) H" and "m_free_list p = []" and "m_cur_conn_cnt p < m_max_conn_cnt conf"
    and "\<forall>c \<in> dom (conn_heap s'). c < next_conn s'"
    and "dom (conn_heap s') = insert (next_conn s) (dom (conn_heap s))"
  shows "next_conn s \<notin> H \<and>
    cache_pool_inv conf (p\<lparr>m_cur_conn_cnt := m_cur_conn_cnt p + 1\<rparr>, s') (insert (next_conn s) H)"
proof -
  have "next_conn s \<notin> H"
    using assms(1) by (auto simp: cache_pool_inv_def)
  with assms show ?thesis
    by (auto simp: cache_pool_inv_def)
qed

lemma inv_same_pool:
  assumes "cache_pool_inv conf (p, s) H" and "\<forall>c \<in> dom (conn_heap s'). c < next_conn s'"
    and "dom (conn_heap s') = dom (conn_heap s)"
  shows "cache_pool_inv conf (p, s') H"
  using assms by (simp add: cache_pool_inv_def)

lemma inv_release:
  assumes "cache_pool_inv conf (p, s) H" and "c \<in> H"
  shows "cache_pool_inv conf (p\<lparr>m_free_list := m_free_list p @ [c]\<rparr>, s) (H - {c})"
proof -
  have "finite H" "0 < card H"
    using assms by (auto simp: cache_pool_inv_def card_gt_0_iff)
  with assms show ?thesis
    by (auto simp: cache_pool_inv_def card_Diff_singleton)
qed

interpretation cache_pool: conn_pool "cache_pool_inv conf" "CachePool_GetCacheConn api" CachePool_RelCacheConn
  "nat (max MIN_CACHE_CONN_CNT (m_max_conn_cnt conf))" for api :: "'w redisApi" and conf
proof
  fix ps :: "'w poolState" and H
  assume "cache_pool_inv conf ps H"
  then show "finite H \<and> card H \<le> nat (max MIN_CACHE_CONN_CNT (m_max_conn_cnt conf))"
    by (auto simp: cache_pool_inv_def)
next
  fix ps ps' :: "'w poolState" and H c
  assume "cache_pool_inv conf ps H" and "CachePool_GetCacheConn api ps = Inr (Some c, ps')"
  then show "c \<notin> H \<and> cache_pool_inv conf ps' (insert c H)"
    using GetCacheConn_cases [of conf "fst ps" "snd ps" H api] inv_pop [of conf "fst ps" "snd ps" H]
      inv_grow [of conf "fst ps" "snd ps" H] by auto
next
  fix ps ps' :: "'w poolState" and H
  assume "cache_pool_inv conf ps H" and "CachePool_GetCacheConn api ps = Inr (None, ps')"
  then show "cache_pool_inv conf ps' H"
    using GetCacheConn_cases [of conf "fst ps" "snd ps" H api] inv_same_pool [of conf "fst ps" "snd ps" H] by auto
next
  fix ps :: "'w poolState" and H e
  assume "cache_pool_inv conf ps H" and "CachePool_GetCacheConn api ps = Inl e"
  then show "e = Blocked"
    using GetCacheConn_cases [of conf "fst ps" "snd ps" H api] by auto
next
  fix ps :: "'w poolState" and H c
  assume inv: "cache_pool_inv conf ps H" and c: "c \<in> H"
  then have "c \<notin> set (m_free_list (fst ps))"
    by (auto simp: cache_pool_inv_def)
  with inv_release [of conf "fst ps" "snd ps" H c] inv c
  show "\<exists>ps'. CachePool_RelCacheConn c ps = Inr ((), ps') \<and> cache_pool_inv conf ps' (H - {c})"
    by (simp add: CachePool_RelCacheConn_def set_pool_def)
qed

text \<open>A pool whose initialization succeeded satisfies the invariant.\<close>

lemma Init_loop_inv:
  assumes "CachePool_Init_loop api n (p, s) = Inr (0, p', s')"
    and "distinct (m_free_list p)" and "set (m_free_list p) \<subseteq> dom (conn_heap s)"
    and "\<forall>c \<in> dom (conn_heap s). c < next_conn s"
  shows "m_conf p' = m_conf p \<and> m_cur_conn_cnt p' = m_cur_conn_cnt p \<and>
    length (m_free_list p') = length (m_free_list p) + n \<and> distinct (m_free_list p') \<and>
    set (m_free_list p') \<subseteq> dom (conn_heap s') \<and> (\<forall>c \<in> dom (conn_heap s'). c < next_conn s')"
  using assms
proof (induction n arbitrary: p s)
  case 0
  then show ?case by (simp add: ret_def)
next
  case (Suc n)
  from new_connection_ok [OF Suc.prems(4), of api p] obtain s1 where
    s1: "\<forall>c \<in> dom (conn_heap s1). c < next_conn s1" and
    new: "new_connection api (p, s) = Inr (Some (next_conn s), p, s1) \<and>
        dom (conn_heap s1) = insert (next_conn s) (dom (conn_heap s)) \<or>
      new_connection api (p, s) = Inr (None, p, s1) \<and> dom (conn_heap s1) = dom (conn_heap s)" by blast
  then have some: "new_connection api (p, s) = Inr (Some (next_conn s), p, s1)"
      "dom (conn_heap s1) = insert (next_conn s) (dom (conn_heap s))"
    using Suc.prems(1) by (auto simp: pool_prog_defs)
  define p1 where "p1 = p\<lparr>m_free_list := m_free_list p @ [next_conn s]\<rparr>"
  have "CachePool_Init_loop api n (p1, s1) = Inr (0, p', s')"
    using Suc.prems(1) some(1) by (simp add: pool_prog_defs p1_def)
  moreover have "next_conn s \<notin> set (m_free_list p)"
    using Suc.prems(3,4) by auto
  then have "distinct (m_free_list p1)" "set (m_free_list p1) \<subseteq> dom (conn_heap s1)"
    using Suc.prems(2,3) some(2) by (auto simp: p1_def)
  ultimately show ?case
    using Suc.IH [OF _ _ _ s1] by (simp add: p1_def)
qed

lemma Init_inv:
  assumes "CachePool_Init api (CachePool_ctor name ip port db maxcnt, s) = Inr (0, ps)"
    and "\<forall>c \<in> dom (conn_heap s). c < next_conn s"
  shows "cache_pool_inv (m_conf (CachePool_ctor name ip port db maxcnt)) ps {}"
proof -
  let ?p = "CachePool_ctor name ip port db maxcnt"
  have "CachePool_Init_loop api 2 (?p, s) = Inr (0, fst ps, snd ps)"
    using assms(1) by (simp add: CachePool_Init_def pool_prog_defs CachePool_ctor_def MIN_CACHE_CONN_CNT_def)
  from Init_loop_inv [OF this _ _ assms(2)] show ?thesis
    by (simp add: cache_pool_inv_def CachePool_ctor_def MIN_CACHE_CONN_CNT_def)
qed


section \<open>Properties\<close>

text \<open>
  C5. The Redis pool under concurrent use. Take a pool whose \<^verbatim>\<open>Init\<close> succeeded and any interleaving of
  threads that take connections and give back what they hold, with Redis answering in any way.
  No connection is ever handed to a thread while another holds it, giving back never fails, the
  pool's counter equals the free connections plus those that are out, and at most
  \<^verbatim>\<open>max(2, m_max_conn_cnt)\<close> connections are out.
\<close>

theorem cache_pool_exclusive:
  assumes "CachePool_Init api (CachePool_ctor name ip port db maxcnt, s) = Inr (0, ps)"
    and "\<forall>c \<in> dom (conn_heap s). c < next_conn s"
    and "pool_run (CachePool_GetCacheConn api) CachePool_RelCacheConn events ps = (ps', owner, bad)"
  shows "\<not> bad \<and> finite (dom owner) \<and> set (m_free_list (fst ps')) \<inter> dom owner = {} \<and>
    m_cur_conn_cnt (fst ps') = int (length (m_free_list (fst ps')) + card (dom owner)) \<and>
    int (card (dom owner)) \<le> max 2 maxcnt"
proof -
  note inv = Init_inv [OF assms(1,2)]
  from cache_pool.run_safe [OF inv assms(3)] cache_pool.run_bound [OF inv assms(3)] show ?thesis
    by (auto simp: cache_pool_inv_def CachePool_ctor_def MIN_CACHE_CONN_CNT_def)
qed

theorem cache_pool_exclusive_witness:
  "\<exists>ps ps' owner bad. CachePool_Init ref_redis (CachePool_ctor ''Master1'' ''127.0.0.1'' 7001 0 16, ref_state Map.empty) =
       Inr (0, ps) \<and>
     pool_run (CachePool_GetCacheConn ref_redis) CachePool_RelCacheConn [PoolGet 1, PoolGet 2, PoolGet 3] ps =
       (ps', owner, bad) \<and> \<not> bad \<and> int (card (dom owner)) \<le> 16"
proof -
  let ?p = "CachePool_ctor ''Master1'' ''127.0.0.1'' 7001 0 16"
  have heap: "\<forall>c \<in> dom (conn_heap (ref_state Map.empty)). c < next_conn (ref_state Map.empty)"
    by (simp add: ref_state_def)
  obtain ps where ps: "CachePool_Init ref_redis (?p, ref_state Map.empty) = Inr (0, ps)"
    by (simp add: CachePool_Init_def CachePool_ctor_def MIN_CACHE_CONN_CNT_def pool_prog_defs
        new_connection_def CacheConn_ctor_def conn_prog_defs ref_redis_def numeral_eq_Suc)
  obtain ps' owner bad where run:
    "pool_run (CachePool_GetCacheConn ref_redis) CachePool_RelCacheConn [PoolGet 1, PoolGet 2, PoolGet 3] ps =
       (ps', owner, bad)"
    by (metis prod_cases3)
  from cache_pool_exclusive [OF ps heap run] ps run show ?thesis by auto
qed

end
