(* ===== verification/MysqlUtil.thy ===== *)
theory MysqlUtil
  imports Text
begin

text \<open>
  The MySQL access class \<^verbatim>\<open>Comm::Mysql\<close> (\<^verbatim>\<open>MysqlUtil.h\<close>, \<^verbatim>\<open>MysqlUtil.cc\<close>). The MySQL client library is
  not part of the repository: \<open>mysqlApi\<close> holds the functions the class calls, over an opaque
  world \<open>'q\<close> (server and client handles; a handle is the address of the object that embeds it)
  and opaque result sets \<open>'r\<close>. Objects live in \<open>mysqlState\<close> by address.

  Shown here: connecting, querying and executing on every path, with the reconnection of
  \<^verbatim>\<open>Query\<close> and \<^verbatim>\<open>Execute\<close>; and that the row cursor that \<^verbatim>\<open>GetField\<close> and \<^verbatim>\<open>GetNextRow\<close> share is
  right: in any order of accesses, \<^verbatim>\<open>GetField(i, j)\<close> is the cell in row \<open>i\<close> and column \<open>j\<close>.
\<close>

section \<open>The client library\<close>

type_synonym mysqlRow = "string option list"

record ('q, 'r) mysqlApi =
  mysql_real_connect :: "nat \<Rightarrow> string \<Rightarrow> string \<Rightarrow> string \<Rightarrow> string option \<Rightarrow> int \<Rightarrow> 'q \<Rightarrow> bool \<times> 'q"
  mysql_ping :: "nat \<Rightarrow> 'q \<Rightarrow> int \<times> 'q"
  mysql_query :: "nat \<Rightarrow> string \<Rightarrow> 'q \<Rightarrow> int \<times> 'q"
  mysql_store_result :: "nat \<Rightarrow> 'q \<Rightarrow> 'r option \<times> 'q"
  mysql_next_result :: "nat \<Rightarrow> 'q \<Rightarrow> int \<times> 'q"
  mysql_close :: "nat \<Rightarrow> 'q \<Rightarrow> 'q"
  mysql_error :: "nat \<Rightarrow> 'q \<Rightarrow> string"
  mysql_errno :: "nat \<Rightarrow> 'q \<Rightarrow> int"
  mysql_real_escape_string :: "nat \<Rightarrow> string \<Rightarrow> 'q \<Rightarrow> string"
  mysql_affected_rows :: "nat \<Rightarrow> 'q \<Rightarrow> nat"
  mysql_insert_id :: "nat \<Rightarrow> 'q \<Rightarrow> nat"
  mysql_set_character_set :: "nat \<Rightarrow> string \<Rightarrow> 'q \<Rightarrow> int \<times> 'q"
  mysql_character_set_name :: "nat \<Rightarrow> 'q \<Rightarrow> string"
  mysql_options :: "nat \<Rightarrow> nat \<Rightarrow> string \<Rightarrow> 'q \<Rightarrow> int \<times> 'q"
  mysql_set_server_option :: "nat \<Rightarrow> nat \<Rightarrow> 'q \<Rightarrow> int \<times> 'q"
  mysql_num_fields :: "'r \<Rightarrow> nat"
  mysql_num_rows :: "'r \<Rightarrow> nat"
  mysql_data_seek :: "'r \<Rightarrow> nat \<Rightarrow> 'r"
  mysql_fetch_row :: "'r \<Rightarrow> mysqlRow option \<times> 'r"
  mysql_fetch_lengths :: "'r \<Rightarrow> nat list option"
  mysql_fetch_field :: "'r \<Rightarrow> string option \<times> 'r"


section \<open>State\<close>

record 'r mysqlProp =
  sErrMsg :: string
  szHost :: string
  szUser :: string
  szPass :: string
  szDB :: string
  iPort :: int
  iField :: nat
  iRows :: nat
  result :: "'r option"
  row :: "mysqlRow option"
  FieldIndex :: "string \<rightharpoonup> nat"
  FieldNameList :: "string list"
  bFieldIndexInitialized :: bool
  bConnected :: bool
  iRowNum :: int
  iErrCode :: int

record ('q, 'r) mysqlState =
  mysql :: 'q
  mysql_heap :: "nat \<rightharpoonup> 'r mysqlProp"
  next_mysql :: nat

text \<open>The arrays \<^verbatim>\<open>szHost\<close>, \<^verbatim>\<open>szUser\<close>, \<^verbatim>\<open>szPass\<close> have 64 bytes, \<^verbatim>\<open>szDB\<close> has 256; \<^verbatim>\<open>strncpy\<close> leaves a
  string that fills its array without a terminator.\<close>

definition strncpy :: "nat \<Rightarrow> string \<Rightarrow> string" where
  "strncpy n s = take n (c_str s)"

definition the_mysql :: "nat \<Rightarrow> (('q, 'r) mysqlState, 'r mysqlProp) prog" where
  "the_mysql this s =
     (case mysql_heap s this of None \<Rightarrow> Inl (UndefinedBehaviour ''Mysql'') | Some p \<Rightarrow> Inr (p, s))"

definition set_prop :: "nat \<Rightarrow> ('r mysqlProp \<Rightarrow> 'r mysqlProp) \<Rightarrow> (('q, 'r) mysqlState, unit) prog" where
  "set_prop this f =
     chain (the_mysql this) (\<lambda>p. modify (\<lambda>s. s\<lparr>mysql_heap := (mysql_heap s)(this \<mapsto> f p)\<rparr>))"

text \<open>A call of the library that changes its world, and one that only reads it.\<close>

definition call :: "('q \<Rightarrow> 'a \<times> 'q) \<Rightarrow> (('q, 'r) mysqlState, 'a) prog" where
  "call f s = (case f (mysql s) of (x, q) \<Rightarrow> Inr (x, s\<lparr>mysql := q\<rparr>))"

definition ask :: "('q \<Rightarrow> 'a) \<Rightarrow> (('q, 'r) mysqlState, 'a) prog" where
  "ask f s = Inr (f (mysql s), s)"

definition empty_prop :: "'r mysqlProp" where
  "empty_prop =
     \<lparr>sErrMsg = [], szHost = [], szUser = [], szPass = [], szDB = [], iPort = 0, iField = 0, iRows = 0,
      result = None, row = None, FieldIndex = Map.empty, FieldNameList = [],
      bFieldIndexInitialized = False, bConnected = False, iRowNum = - 1, iErrCode = 0\<rparr>"

definition new_prop :: "'r mysqlProp \<Rightarrow> (('q, 'r) mysqlState, nat) prog" where
  "new_prop p s =
     Inr (next_mysql s, s\<lparr>mysql_heap := (mysql_heap s)(next_mysql s \<mapsto> p), next_mysql := Suc (next_mysql s)\<rparr>)"

definition Mysql_ctor0 :: "(('q, 'r) mysqlState, nat) prog" where
  "Mysql_ctor0 = new_prop empty_prop"

definition Mysql_ctor :: "string \<Rightarrow> string \<Rightarrow> string \<Rightarrow> string \<Rightarrow> int \<Rightarrow> (('q, 'r) mysqlState, nat) prog" where
  "Mysql_ctor host user pass db port =
     new_prop (empty_prop\<lparr>szHost := strncpy 64 host, szUser := strncpy 64 user, szPass := strncpy 64 pass,
                          szDB := strncpy 256 db, iPort := port\<rparr>)"


section \<open>Results\<close>

definition free_result :: "'r mysqlProp \<Rightarrow> 'r mysqlProp" where
  "free_result p =
     p\<lparr>iField := 0, iRows := 0,
       FieldIndex := (if bFieldIndexInitialized p then Map.empty else FieldIndex p),
       bFieldIndexInitialized := False, result := None, iRowNum := - 1, row := None\<rparr>"

definition FreeResult :: "nat \<Rightarrow> (('q, 'r) mysqlState, int) prog" where
  "FreeResult this = chain (set_prop this free_result) (\<lambda>_. ret 0)"

definition FreeMem :: "nat \<Rightarrow> (('q, 'r) mysqlState, int) prog" where
  "FreeMem this = FreeResult this"

text \<open>\<^verbatim>\<open>sErrMsg\<close> and \<^verbatim>\<open>iErrCode\<close> from the handle.\<close>

definition record_error :: "('q, 'r) mysqlApi \<Rightarrow> nat \<Rightarrow> string \<Rightarrow> (('q, 'r) mysqlState, unit) prog" where
  "record_error api this prefix =
     chain (ask (mysql_error api this)) (\<lambda>msg.
     chain (ask (mysql_errno api this)) (\<lambda>code.
     set_prop this (\<lambda>p. p\<lparr>sErrMsg := prefix @ c_str msg, iErrCode := code\<rparr>)))"

definition StoreResult :: "('q, 'r) mysqlApi \<Rightarrow> nat \<Rightarrow> (('q, 'r) mysqlState, int) prog" where
  "StoreResult api this =
     chain (FreeResult this) (\<lambda>_.
     chain (call (mysql_store_result api this)) (\<lambda>r.
     chain (set_prop this (\<lambda>p. p\<lparr>result := r\<rparr>)) (\<lambda>_.
     case r of
       None \<Rightarrow> chain (record_error api this ''mysql StoreResult error: '') (\<lambda>_. ret (- 1))
     | Some r \<Rightarrow>
         chain (set_prop this (\<lambda>p. p\<lparr>iField := mysql_num_fields api r, iRows := mysql_num_rows api r mod 2 ^ 32\<rparr>)) (\<lambda>_.
         ret 0))))"

definition MysqlStoreResult :: "('q, 'r) mysqlApi \<Rightarrow> nat \<Rightarrow> (('q, 'r) mysqlState, int) prog" where
  "MysqlStoreResult api this = StoreResult api this"

definition MysqlNextResult :: "('q, 'r) mysqlApi \<Rightarrow> nat \<Rightarrow> (('q, 'r) mysqlState, int) prog" where
  "MysqlNextResult api this = chain (the_mysql this) (\<lambda>_. call (mysql_next_result api this))"

definition GetRecordCount :: "nat \<Rightarrow> (('q, 'r) mysqlState, nat) prog" where
  "GetRecordCount this = chain (the_mysql this) (\<lambda>p. ret (iRows p))"

definition GetFieldCount :: "nat \<Rightarrow> (('q, 'r) mysqlState, nat) prog" where
  "GetFieldCount this = chain (the_mysql this) (\<lambda>p. ret (iField p))"

definition GetAffectedRows :: "('q, 'r) mysqlApi \<Rightarrow> nat \<Rightarrow> (('q, 'r) mysqlState, nat) prog" where
  "GetAffectedRows api this =
     chain (the_mysql this) (\<lambda>_. chain (ask (mysql_affected_rows api this)) (\<lambda>n. ret (n mod 2 ^ 32)))"

definition GetInsertId :: "('q, 'r) mysqlApi \<Rightarrow> nat \<Rightarrow> (('q, 'r) mysqlState, nat) prog" where
  "GetInsertId api this =
     chain (the_mysql this) (\<lambda>_. chain (ask (mysql_insert_id api this)) (\<lambda>n. ret (n mod 2 ^ 32)))"

definition getErrMsg :: "nat \<Rightarrow> (('q, 'r) mysqlState, string) prog" where
  "getErrMsg this = chain (the_mysql this) (\<lambda>p. ret (sErrMsg p))"

definition getErrCode :: "nat \<Rightarrow> (('q, 'r) mysqlState, int) prog" where
  "getErrCode this = chain (the_mysql this) (\<lambda>p. ret (iErrCode p))"

definition IsConnected :: "nat \<Rightarrow> (('q, 'r) mysqlState, bool) prog" where
  "IsConnected this = chain (the_mysql this) (\<lambda>p. ret (bConnected p))"

text \<open>The result pairs the return value with the output argument; the escaped text is a C string.\<close>

definition StripField :: "('q, 'r) mysqlApi \<Rightarrow> nat \<Rightarrow> string \<Rightarrow> string option \<Rightarrow> nat \<Rightarrow> (('q, 'r) mysqlState, int \<times> string) prog" where
  "StripField api this to_str from_str len =
     (case from_str of
        None \<Rightarrow> ret (- 1, to_str)
      | Some f \<Rightarrow>
          chain (the_mysql this) (\<lambda>_.
          chain (ask (mysql_real_escape_string api this (take len f))) (\<lambda>t. ret (0, c_str t))))"

definition SetCharset :: "('q, 'r) mysqlApi \<Rightarrow> nat \<Rightarrow> string \<Rightarrow> (('q, 'r) mysqlState, int) prog" where
  "SetCharset api this charset = chain (the_mysql this) (\<lambda>_. call (mysql_set_character_set api this charset))"

definition CharacterSetName :: "('q, 'r) mysqlApi \<Rightarrow> nat \<Rightarrow> (('q, 'r) mysqlState, string) prog" where
  "CharacterSetName api this = chain (the_mysql this) (\<lambda>_. ask (mysql_character_set_name api this))"

definition SetOption :: "('q, 'r) mysqlApi \<Rightarrow> nat \<Rightarrow> nat \<Rightarrow> string \<Rightarrow> (('q, 'r) mysqlState, int) prog" where
  "SetOption api this opt arg = chain (the_mysql this) (\<lambda>_. call (mysql_options api this opt arg))"

definition SetServerOption :: "('q, 'r) mysqlApi \<Rightarrow> nat \<Rightarrow> nat \<Rightarrow> (('q, 'r) mysqlState, int) prog" where
  "SetServerOption api this opt = chain (the_mysql this) (\<lambda>_. call (mysql_set_server_option api this opt))"


section \<open>Connection\<close>

definition terminated :: "'r mysqlProp \<Rightarrow> bool" where
  "terminated p \<longleftrightarrow>
     length (szHost p) < 64 \<and> length (szUser p) < 64 \<and> length (szPass p) < 64 \<and> length (szDB p) < 256"

definition Connect :: "('q, 'r) mysqlApi \<Rightarrow> nat \<Rightarrow> (('q, 'r) mysqlState, int) prog" where
  "Connect api this =
     chain (the_mysql this) (\<lambda>p.
     if bConnected p then ret 0
     else if \<not> terminated p then fail (UndefinedBehaviour ''unterminated string'')
     else chain (call (mysql_real_connect api this (szHost p) (szUser p) (szPass p)
                         (if szDB p = [] then None else Some (szDB p)) (iPort p))) (\<lambda>ok.
          if \<not> ok then chain (record_error api this ''connect to mysql failed'') (\<lambda>_. ret (- 1))
          else chain (set_prop this (\<lambda>p. p\<lparr>bConnected := True\<rparr>)) (\<lambda>_. ret 0)))"

definition Connect_to :: "('q, 'r) mysqlApi \<Rightarrow> nat \<Rightarrow> string \<Rightarrow> string \<Rightarrow> string \<Rightarrow> string \<Rightarrow> int \<Rightarrow> (('q, 'r) mysqlState, int) prog" where
  "Connect_to api this host user pass db port =
     chain (set_prop this (\<lambda>p. p\<lparr>szHost := strncpy 64 host, szUser := strncpy 64 user, szPass := strncpy 64 pass,
                                 szDB := strncpy 256 db, iPort := port\<rparr>)) (\<lambda>_.
     Connect api this)"

definition Close :: "('q, 'r) mysqlApi \<Rightarrow> nat \<Rightarrow> (('q, 'r) mysqlState, unit) prog" where
  "Close api this =
     chain (FreeResult this) (\<lambda>_.
     chain (call (\<lambda>q. ((), mysql_close api this q))) (\<lambda>_.
     set_prop this (\<lambda>p. p\<lparr>bConnected := False\<rparr>)))"

definition Mysql_dtor :: "('q, 'r) mysqlApi \<Rightarrow> nat \<Rightarrow> (('q, 'r) mysqlState, unit) prog" where
  "Mysql_dtor api this =
     chain (the_mysql this) (\<lambda>p.
     chain (if bConnected p
            then chain (FreeResult this) (\<lambda>_. call (\<lambda>q. ((), mysql_close api this q)))
            else ret ()) (\<lambda>_.
     modify (\<lambda>s. s\<lparr>mysql_heap := (mysql_heap s)(this := None)\<rparr>)))"

definition Ping :: "('q, 'r) mysqlApi \<Rightarrow> nat \<Rightarrow> (('q, 'r) mysqlState, int) prog" where
  "Ping api this =
     chain (the_mysql this) (\<lambda>_.
     chain (call (mysql_ping api this)) (\<lambda>r.
     if r \<noteq> 0 then chain (Close api this) (\<lambda>_. ret (- 1)) else ret 0))"


section \<open>Queries\<close>

definition MysqlQuery :: "('q, 'r) mysqlApi \<Rightarrow> nat \<Rightarrow> string \<Rightarrow> (('q, 'r) mysqlState, int) prog" where
  "MysqlQuery api this sSql =
     chain (call (mysql_query api this sSql)) (\<lambda>r.
     if r \<noteq> 0
     then chain (call (mysql_ping api this)) (\<lambda>ping. if ping = 0 then call (mysql_query api this sSql) else ret r)
     else ret r)"

text \<open>
  The opening of \<^verbatim>\<open>Query\<close> and \<^verbatim>\<open>Execute\<close>: connect, and reconnect if the handle does not answer.
  \<open>broken\<close> is the message recorded when that fails as well.
\<close>

definition reconnect :: "('q, 'r) mysqlApi \<Rightarrow> nat \<Rightarrow> (('q, 'r) mysqlState, unit) prog \<Rightarrow> (('q, 'r) mysqlState, int) prog" where
  "reconnect api this broken =
     chain (Connect api this) (\<lambda>_.
     chain (call (mysql_ping api this)) (\<lambda>ping.
     if ping \<noteq> 0
     then chain (Close api this) (\<lambda>_.
          chain (Connect api this) (\<lambda>r.
          if r \<noteq> 0
          then chain (set_prop this (\<lambda>p. p\<lparr>bConnected := False\<rparr>)) (\<lambda>_. chain broken (\<lambda>_. ret (- 1)))
          else ret 0))
     else ret 0))"

text \<open>The message of a broken \<^verbatim>\<open>Query\<close> lacks the text of the handle: the comma discards it.\<close>

definition Query :: "('q, 'r) mysqlApi \<Rightarrow> nat \<Rightarrow> string \<Rightarrow> (('q, 'r) mysqlState, int) prog" where
  "Query api this szSqlString =
     chain (reconnect api this
              (chain (ask (mysql_errno api this)) (\<lambda>code.
               set_prop this (\<lambda>p. p\<lparr>sErrMsg := ''mysql connection broken:'', iErrCode := code\<rparr>)))) (\<lambda>r.
     if r \<noteq> 0 then ret (- 1)
     else chain (MysqlQuery api this szSqlString) (\<lambda>r.
          if r \<noteq> 0 then chain (record_error api this ''mysql query failed:'') (\<lambda>_. ret (- 2))
          else chain (StoreResult api this) (\<lambda>r. ret (if r \<noteq> 0 then - 3 else 0))))"

definition QueryWithoutReconnect :: "('q, 'r) mysqlApi \<Rightarrow> nat \<Rightarrow> string \<Rightarrow> (('q, 'r) mysqlState, int) prog" where
  "QueryWithoutReconnect api this szSqlString =
     chain (MysqlQuery api this szSqlString) (\<lambda>r.
     if r \<noteq> 0 then chain (record_error api this ''mysql query failed:'') (\<lambda>_. ret (- 2))
     else chain (StoreResult api this) (\<lambda>r. ret (if r \<noteq> 0 then - 3 else 0)))"

definition Execute :: "('q, 'r) mysqlApi \<Rightarrow> nat \<Rightarrow> string \<Rightarrow> (('q, 'r) mysqlState, int) prog" where
  "Execute api this szSqlString =
     chain (reconnect api this (record_error api this ''mysql connection broken:%s'')) (\<lambda>r.
     if r \<noteq> 0 then ret (- 1)
     else chain (MysqlQuery api this szSqlString) (\<lambda>r.
          if r \<noteq> 0 then chain (record_error api this ''mysql query failed:%s'') (\<lambda>_. ret (- 2)) else ret 0))"

definition ExecuteWithReconnect :: "('q, 'r) mysqlApi \<Rightarrow> nat \<Rightarrow> string \<Rightarrow> (('q, 'r) mysqlState, int) prog" where
  "ExecuteWithReconnect api this szSqlString =
     chain (MysqlQuery api this szSqlString) (\<lambda>r.
     if r \<noteq> 0 then chain (record_error api this ''mysql query failed:'') (\<lambda>_. ret (- 2)) else ret 0)"


section \<open>Access to the fields of a result\<close>

fun fetch_names :: "('q, 'r) mysqlApi \<Rightarrow> nat \<Rightarrow> 'r \<Rightarrow> (string list \<times> 'r) res" where
  "fetch_names api 0 r = Inr ([], r)"
| "fetch_names api (Suc n) r =
     (case mysql_fetch_field api r of
        (None, r') \<Rightarrow> Inl (UndefinedBehaviour ''field->name'')
      | (Some name, r') \<Rightarrow> andThen (fetch_names api n r') (\<lambda>(names, r''). Inr (c_str name # names, r'')))"

text \<open>\<^verbatim>\<open>FieldIndex[field->name] = i\<close> for each field: of equal names the last one counts.\<close>

definition InitFieldName :: "('q, 'r) mysqlApi \<Rightarrow> nat \<Rightarrow> (('q, 'r) mysqlState, int) prog" where
  "InitFieldName api this =
     chain (the_mysql this) (\<lambda>p.
     case (bFieldIndexInitialized p, result p) of
       (False, Some r) \<Rightarrow>
         chain (lift (fetch_names api (mysql_num_fields api r) r)) (\<lambda>(names, r').
         chain (set_prop this (\<lambda>p. p\<lparr>result := Some r', FieldNameList := names,
                  FieldIndex := FieldIndex p ++ map_of (rev (zip names [0..<length names])),
                  bFieldIndexInitialized := True\<rparr>)) (\<lambda>_. ret 0))
     | _ \<Rightarrow> ret 0)"

text \<open>\<^verbatim>\<open>row[iField]\<close> as a C string, with the empty string \<^verbatim>\<open>szNULL\<close> for SQL NULL.\<close>

definition cell :: "mysqlRow option \<Rightarrow> nat \<Rightarrow> string res" where
  "cell r i =
     (case r of
        None \<Rightarrow> Inl (UndefinedBehaviour ''row'')
      | Some cs \<Rightarrow>
          if i < length cs then Inr (case cs ! i of None \<Rightarrow> [] | Some v \<Rightarrow> c_str v)
          else Inl (UndefinedBehaviour ''row[iField]''))"

text \<open>The part of both \<^verbatim>\<open>GetField\<close> functions that moves the cursor to a row.\<close>

definition fetch_at :: "('q, 'r) mysqlApi \<Rightarrow> int \<Rightarrow> 'r \<Rightarrow> 'r mysqlProp \<Rightarrow> 'r mysqlProp" where
  "fetch_at api i r p =
     (let r1 = (if iRowNum p = - 1 \<or> i \<noteq> iRowNum p + 1 then mysql_data_seek api r (nat i) else r);
          (fetched, r2) = mysql_fetch_row api r1
      in p\<lparr>iRowNum := i, row := fetched, result := Some r2\<rparr>)"

definition GetField :: "('q, 'r) mysqlApi \<Rightarrow> nat \<Rightarrow> int \<Rightarrow> nat \<Rightarrow> (('q, 'r) mysqlState, string) prog" where
  "GetField api this i j =
     chain (the_mysql this) (\<lambda>p.
     if i < 0 \<or> nat i \<ge> iRows p then ret []
     else case result p of
       None \<Rightarrow> ret []
     | Some r \<Rightarrow>
         if i = iRowNum p \<and> row p \<noteq> None then lift (cell (row p) j)
         else let p' = fetch_at api i r p
              in chain (set_prop this (\<lambda>_. p')) (\<lambda>_. lift (cell (row p') j)))"

definition GetNextRow :: "('q, 'r) mysqlApi \<Rightarrow> nat \<Rightarrow> (('q, 'r) mysqlState, mysqlRow option) prog" where
  "GetNextRow api this =
     chain (the_mysql this) (\<lambda>p.
     case result p of
       None \<Rightarrow> ret None
     | Some r \<Rightarrow>
         (case mysql_fetch_row api r of
            (fetched, r') \<Rightarrow>
              chain (set_prop this (\<lambda>p. p\<lparr>row := fetched, result := Some r',
                       iRowNum := (if fetched = None then - 1 else iRowNum p + 1)\<rparr>)) (\<lambda>_.
              ret fetched)))"

definition GetField_name :: "('q, 'r) mysqlApi \<Rightarrow> nat \<Rightarrow> int \<Rightarrow> string option \<Rightarrow> (('q, 'r) mysqlState, string) prog" where
  "GetField_name api this i szFieldName =
     chain (InitFieldName api this) (\<lambda>_.
     chain (the_mysql this) (\<lambda>p.
     case szFieldName of
       None \<Rightarrow> ret []
     | Some name \<Rightarrow>
         (case FieldIndex p (c_str name) of
            None \<Rightarrow> ret []
          | Some j \<Rightarrow> GetField api this i j)))"

text \<open>
  The overloads that also give the length: the pointer is the start of the raw field, which may
  contain NUL, and the result pairs it with \<^verbatim>\<open>iLen\<close>.
\<close>

definition raw_cell :: "mysqlRow option \<Rightarrow> nat \<Rightarrow> string option res" where
  "raw_cell r j =
     (case r of
        None \<Rightarrow> Inl (UndefinedBehaviour ''row'')
      | Some cs \<Rightarrow> if j < length cs then Inr (cs ! j) else Inl (UndefinedBehaviour ''row[iField]''))"

definition length_at :: "nat list \<Rightarrow> nat \<Rightarrow> nat res" where
  "length_at ls j = (if j < length ls then Inr (ls ! j) else Inl (UndefinedBehaviour ''lengths[iField]''))"

definition GetField_len :: "('q, 'r) mysqlApi \<Rightarrow> nat \<Rightarrow> int \<Rightarrow> nat \<Rightarrow> (('q, 'r) mysqlState, string \<times> nat) prog" where
  "GetField_len api this i j =
     chain (the_mysql this) (\<lambda>p.
     if i < 0 \<or> nat i \<ge> iRows p then ret ([], 0)
     else case result p of
       None \<Rightarrow> ret ([], 0)
     | Some r \<Rightarrow>
         if i = iRowNum p \<and> row p \<noteq> None then
           chain (lift (raw_cell (row p) j)) (\<lambda>v.
           case v of
             None \<Rightarrow> ret ([], 0)
           | Some v \<Rightarrow>
               (case mysql_fetch_lengths api r of
                  None \<Rightarrow> chain (record_error api this ''mysql_fetch_lengths failed:'') (\<lambda>_. ret ([], 0))
                | Some ls \<Rightarrow> chain (lift (length_at ls j)) (\<lambda>l. ret (v, l))))
         else let p' = fetch_at api i r p in
           chain (set_prop this (\<lambda>_. p')) (\<lambda>_.
           case mysql_fetch_lengths api (the (result p')) of
             None \<Rightarrow> chain (record_error api this ''mysql_fetch_lengths failed:'') (\<lambda>_. ret ([], 0))
           | Some ls \<Rightarrow>
               chain (lift (raw_cell (row p') j)) (\<lambda>v.
               case v of
                 None \<Rightarrow> ret ([], 0)
               | Some v \<Rightarrow> chain (lift (length_at ls j)) (\<lambda>l. ret (v, l)))))"

text \<open>With a null name the length keeps the value it had.\<close>

definition GetField_name_len :: "('q, 'r) mysqlApi \<Rightarrow> nat \<Rightarrow> int \<Rightarrow> string option \<Rightarrow> nat \<Rightarrow> (('q, 'r) mysqlState, string \<times> nat) prog" where
  "GetField_name_len api this i szFieldName old_len =
     chain (InitFieldName api this) (\<lambda>_.
     chain (the_mysql this) (\<lambda>p.
     case szFieldName of
       None \<Rightarrow> ret ([], old_len)
     | Some name \<Rightarrow>
         (case FieldIndex p (c_str name) of
            None \<Rightarrow> ret ([], 0)
          | Some j \<Rightarrow> GetField_len api this i j)))"

definition GetFieldNameList :: "('q, 'r) mysqlApi \<Rightarrow> nat \<Rightarrow> bool \<Rightarrow> (('q, 'r) mysqlState, int \<times> string list option) prog" where
  "GetFieldNameList api this has_vec =
     chain (InitFieldName api this) (\<lambda>_.
     chain (the_mysql this) (\<lambda>p.
     if \<not> has_vec then ret (- 1, None) else ret (0, Some (FieldNameList p))))"


section \<open>The shared row cursor\<close>

text \<open>
  The documented behaviour of a stored result, for views \<open>rows\<close> of its rows and \<open>pos\<close> of the
  position of the next row to fetch.
\<close>

definition result_laws :: "('q, 'r) mysqlApi \<Rightarrow> ('r \<Rightarrow> mysqlRow list) \<Rightarrow> ('r \<Rightarrow> nat) \<Rightarrow> bool" where
  "result_laws api rows pos \<longleftrightarrow>
     (\<forall>h q. case fst (mysql_store_result api h q) of
              None \<Rightarrow> True | Some r \<Rightarrow> pos r = 0 \<and> length (rows r) < 2 ^ 32) \<and>
     (\<forall>r. mysql_num_rows api r = length (rows r)) \<and>
     (\<forall>r n. rows (mysql_data_seek api r n) = rows r \<and> pos (mysql_data_seek api r n) = n) \<and>
     (\<forall>r. rows (snd (mysql_fetch_row api r)) = rows r) \<and>
     (\<forall>r. if pos r < length (rows r)
          then fst (mysql_fetch_row api r) = Some (rows r ! pos r) \<and> pos (snd (mysql_fetch_row api r)) = Suc (pos r)
          else fst (mysql_fetch_row api r) = None \<and> pos (snd (mysql_fetch_row api r)) = pos r)"

text \<open>
  What the cached row and row number say about the position: either nothing is cached and the
  position is at the start or past the end, or the cached row is the one before the position.
\<close>

definition cursor_ok :: "('r \<Rightarrow> mysqlRow list) \<Rightarrow> ('r \<Rightarrow> nat) \<Rightarrow> mysqlRow list \<Rightarrow> 'r mysqlProp \<Rightarrow> bool" where
  "cursor_ok rows pos tab p \<longleftrightarrow>
     (\<exists>r. result p = Some r \<and> rows r = tab \<and> iRows p = length tab \<and>
        (iRowNum p = - 1 \<and> (pos r = 0 \<or> length tab \<le> pos r) \<or>
         0 \<le> iRowNum p \<and> nat (iRowNum p) < length tab \<and> row p = Some (tab ! nat (iRowNum p)) \<and>
         pos r = Suc (nat (iRowNum p))))"

text \<open>Accesses in any order.\<close>

datatype access =
    Field int nat
  | Next

fun run_accesses :: "('q, 'r) mysqlApi \<Rightarrow> nat \<Rightarrow> access list \<Rightarrow> (('q, 'r) mysqlState, unit) prog" where
  "run_accesses api this [] = ret ()"
| "run_accesses api this (Field i j # as) = chain (GetField api this i j) (\<lambda>_. run_accesses api this as)"
| "run_accesses api this (Next # as) = chain (GetNextRow api this) (\<lambda>_. run_accesses api this as)"

lemmas mysql_prog_defs = the_mysql_def set_prop_def call_def ask_def modify_def lift_def chain_def ret_def

text \<open>
  A live connection object with terminated strings: every call on it returns and leaves it so,
  whatever the server answers.
\<close>

definition usable :: "nat \<Rightarrow> ('q, 'r) mysqlState \<Rightarrow> bool" where
  "usable this s \<longleftrightarrow> (\<exists>p. mysql_heap s this = Some p \<and> terminated p)"

abbreviation keeps_usable :: "nat \<Rightarrow> (('q, 'r) mysqlState, 'a) prog \<Rightarrow> bool" where
  "keeps_usable this m \<equiv> yields (usable this) m (\<lambda>_. usable this)"

lemma call_usable: "keeps_usable this (call f)"
  by (rule yieldsI) (auto simp: call_def usable_def split: prod.splits)

lemma ask_usable: "keeps_usable this (ask f)"
  by (rule yieldsI) (auto simp: ask_def)

lemma set_prop_usable: "(\<And>p. terminated p \<Longrightarrow> terminated (f p)) \<Longrightarrow> keeps_usable this (set_prop this f)"
  by (rule yieldsI) (auto simp: mysql_prog_defs usable_def)

lemma ret_usable: "keeps_usable this (ret x)"
  by (rule yields_ret)

lemma chain_usable: "keeps_usable this m \<Longrightarrow> (\<And>x. keeps_usable this (f x)) \<Longrightarrow> keeps_usable this (chain m f)"
  by (rule yields_chain)

lemmas usable_intros = chain_usable yields_if call_usable ask_usable set_prop_usable ret_usable

lemma record_error_usable: "keeps_usable this (record_error api this prefix)"
  unfolding record_error_def by (intro usable_intros) (simp add: terminated_def)

lemma FreeResult_usable: "keeps_usable this (FreeResult this)"
  unfolding FreeResult_def by (intro usable_intros) (simp add: terminated_def free_result_def)

lemma Close_usable: "keeps_usable this (Close api this)"
  unfolding Close_def by (intro usable_intros FreeResult_usable) (simp add: terminated_def)

lemma Connect_usable:
  fixes api :: "('q, 'r) mysqlApi"
  shows "keeps_usable this (Connect api this)"
proof (rule yieldsI)
  fix s :: "('q, 'r) mysqlState"
  assume s: "usable this s"
  then obtain p where p: "mysql_heap s this = Some p" "terminated p"
    by (auto simp: usable_def)
  let ?go = "chain (call (mysql_real_connect api this (szHost p) (szUser p) (szPass p)
                         (if szDB p = [] then None else Some (szDB p)) (iPort p))) (\<lambda>ok.
          if \<not> ok then chain (record_error api this ''connect to mysql failed'') (\<lambda>_. ret (- 1 :: int))
          else chain (set_prop this (\<lambda>p. p\<lparr>bConnected := True\<rparr>)) (\<lambda>_. ret 0))"
  have "keeps_usable this ?go"
    by (intro usable_intros record_error_usable) (simp add: terminated_def)
  from yieldsD [OF this s] s p show "\<exists>x s'. Connect api this s = Inr (x, s') \<and> usable this s'"
    by (auto simp: Connect_def the_mysql_def chain_def [of "the_mysql this"] ret_def)
qed

lemma reconnect_usable: "keeps_usable this broken \<Longrightarrow> keeps_usable this (reconnect api this broken)"
  unfolding reconnect_def
  by (intro usable_intros Connect_usable Close_usable) (simp_all add: terminated_def)

lemma MysqlQuery_usable: "keeps_usable this (MysqlQuery api this sql)"
  unfolding MysqlQuery_def by (intro usable_intros)

lemma Execute_usable: "keeps_usable this (Execute api this sql)"
  unfolding Execute_def by (intro usable_intros reconnect_usable MysqlQuery_usable record_error_usable)

lemma StoreResult_usable: "keeps_usable this (StoreResult api this)"
  unfolding StoreResult_def
  by (intro usable_intros FreeResult_usable; (simp add: terminated_def)?)
     (auto split: option.split intro!: usable_intros record_error_usable simp: terminated_def)

lemma Query_usable: "keeps_usable this (Query api this sql)"
  unfolding Query_def
  by (intro usable_intros reconnect_usable MysqlQuery_usable record_error_usable StoreResult_usable)
     (simp add: terminated_def)

lemma fetch_row_at:
  assumes "result_laws api rows pos" and "pos r < length (rows r)"
  shows "\<exists>r'. mysql_fetch_row api r = (Some (rows r ! pos r), r') \<and> rows r' = rows r \<and> pos r' = Suc (pos r)"
  using assms by (cases "mysql_fetch_row api r") (force simp: result_laws_def prod_eq_iff)

lemma fetch_row_end:
  assumes "result_laws api rows pos" and "\<not> pos r < length (rows r)"
  shows "\<exists>r'. mysql_fetch_row api r = (None, r') \<and> rows r' = rows r \<and> pos r' = pos r"
  using assms by (cases "mysql_fetch_row api r") (force simp: result_laws_def prod_eq_iff)

lemma fetch_at_ok:
  assumes laws: "result_laws api rows pos" and cur: "cursor_ok rows pos tab p" and r: "result p = Some r"
    and i: "0 \<le> i" "nat i < length tab"
  shows "cursor_ok rows pos tab (fetch_at api i r p) \<and> row (fetch_at api i r p) = Some (tab ! nat i)"
proof -
  define r1 where "r1 = (if iRowNum p = - 1 \<or> i \<noteq> iRowNum p + 1 then mysql_data_seek api r (nat i) else r)"
  have "rows r1 = tab \<and> pos r1 = nat i"
    using laws cur r i by (auto simp: r1_def cursor_ok_def result_laws_def nat_add_distrib)
  moreover from this obtain r2 where "mysql_fetch_row api r1 = (Some (tab ! nat i), r2)" "rows r2 = tab" "pos r2 = Suc (nat i)"
    using fetch_row_at [OF laws, of r1] i by auto
  ultimately show ?thesis
    using cur i by (auto simp: fetch_at_def r1_def [symmetric] cursor_ok_def Let_def)
qed

lemma GetField_step:
  assumes laws: "result_laws api rows pos" and p: "mysql_heap s this = Some p" and cur: "cursor_ok rows pos tab p"
    and run: "GetField api this i j s = Inr (v, s')"
  shows "\<exists>p'. mysql_heap s' this = Some p' \<and> cursor_ok rows pos tab p'"
proof -
  obtain r where r: "result p = Some r" "iRows p = length tab"
    using cur by (auto simp: cursor_ok_def)
  show ?thesis
  proof (cases "i < 0 \<or> nat i \<ge> length tab \<or> i = iRowNum p \<and> row p \<noteq> None")
    case True
    then have "s' = s"
      using run p r by (auto simp: GetField_def mysql_prog_defs andThen_eq_Inr split: if_splits)
    with p cur show ?thesis by blast
  next
    case False
    then have "s' = s\<lparr>mysql_heap := (mysql_heap s)(this \<mapsto> fetch_at api i r p)\<rparr>"
      using run p r by (auto simp: GetField_def mysql_prog_defs andThen_eq_Inr Let_def split: if_splits)
    with fetch_at_ok [OF laws cur r(1), of i] False show ?thesis by auto
  qed
qed

lemma GetNextRow_step:
  assumes laws: "result_laws api rows pos" and p: "mysql_heap s this = Some p" and cur: "cursor_ok rows pos tab p"
    and run: "GetNextRow api this s = Inr (v, s')"
  shows "\<exists>p'. mysql_heap s' this = Some p' \<and> cursor_ok rows pos tab p'"
proof -
  obtain r where r: "result p = Some r" "rows r = tab"
    using cur by (auto simp: cursor_ok_def)
  show ?thesis
  proof (cases "pos r < length tab")
    case True
    then obtain r' where r': "mysql_fetch_row api r = (Some (tab ! pos r), r')" "rows r' = tab" "pos r' = Suc (pos r)"
      using fetch_row_at [OF laws, of r] r by auto
    moreover have "pos r = nat (iRowNum p + 1) \<and> - 1 \<le> iRowNum p"
      using cur r True by (auto simp: cursor_ok_def nat_add_distrib)
    ultimately show ?thesis
      using run p r cur True
      by (auto simp: GetNextRow_def mysql_prog_defs cursor_ok_def)
  next
    case False
    then obtain r' where "mysql_fetch_row api r = (None, r')" "rows r' = tab" "pos r' = pos r"
      using fetch_row_end [OF laws, of r] r by auto
    with False show ?thesis
      using run p r cur by (auto simp: GetNextRow_def mysql_prog_defs cursor_ok_def)
  qed
qed

lemma run_accesses_step:
  assumes "result_laws api rows pos"
  shows "mysql_heap s this = Some p \<Longrightarrow> cursor_ok rows pos tab p \<Longrightarrow> run_accesses api this as s = Inr ((), s') \<Longrightarrow>
    \<exists>p'. mysql_heap s' this = Some p' \<and> cursor_ok rows pos tab p'"
proof (induction as arbitrary: s p)
  case Nil
  then show ?case by (auto simp: ret_def)
next
  case (Cons a as)
  show ?case
  proof (cases a)
    case (Field i j)
    with Cons.prems(3) obtain v s1 where "GetField api this i j s = Inr (v, s1)" "run_accesses api this as s1 = Inr ((), s')"
      by (auto simp: chain_eq_Inr)
    with GetField_step [OF assms Cons.prems(1,2)] Cons.IH show ?thesis by blast
  next
    case Next
    with Cons.prems(3) obtain v s1 where "GetNextRow api this s = Inr (v, s1)" "run_accesses api this as s1 = Inr ((), s')"
      by (auto simp: chain_eq_Inr)
    with GetNextRow_step [OF assms Cons.prems(1,2)] Cons.IH show ?thesis by blast
  qed
qed

lemma GetField_value:
  assumes laws: "result_laws api rows pos" and p: "mysql_heap s this = Some p" and cur: "cursor_ok rows pos tab p"
    and i: "0 \<le> i" "nat i < length tab" and j: "j < length (tab ! nat i)"
  shows "\<exists>s'. GetField api this i j s = Inr (case tab ! nat i ! j of None \<Rightarrow> [] | Some v \<Rightarrow> c_str v, s')"
proof -
  obtain r where r: "result p = Some r" "iRows p = length tab"
    using cur by (auto simp: cursor_ok_def)
  show ?thesis
  proof (cases "i = iRowNum p \<and> row p \<noteq> None")
    case True
    then have "row p = Some (tab ! nat i)"
      using cur i by (auto simp: cursor_ok_def)
    with True p r i j show ?thesis
      by (auto simp: GetField_def mysql_prog_defs cell_def)
  next
    case False
    with fetch_at_ok [OF laws cur r(1) i] p r i j show ?thesis
      by (auto simp: GetField_def mysql_prog_defs cell_def Let_def)
  qed
qed

lemma StoreResult_cursor:
  assumes laws: "result_laws api rows pos" and p: "mysql_heap s this = Some p"
    and run: "StoreResult api this s = Inr (0, s')"
  shows "\<exists>r p'. fst (mysql_store_result api this (mysql s)) = Some r \<and> mysql_heap s' this = Some p' \<and>
    cursor_ok rows pos (rows r) p'"
proof (cases "mysql_store_result api this (mysql s)")
  case (Pair o' q)
  then obtain r where r: "mysql_store_result api this (mysql s) = (Some r, q)"
    using run p by (cases o') (auto simp: StoreResult_def FreeResult_def record_error_def mysql_prog_defs)
  have "pos r = 0 \<and> length (rows r) < 2 ^ 32 \<and> mysql_num_rows api r = length (rows r)"
    using laws r by (auto simp: result_laws_def dest!: spec [of _ this] spec [of _ "mysql s"])
  with run p r show ?thesis
    by (auto simp: StoreResult_def FreeResult_def mysql_prog_defs cursor_ok_def free_result_def)
qed


section \<open>Properties\<close>

text \<open>A concrete library for the closed instance: a result is its rows and its position.\<close>

definition ref_mysql :: "mysqlRow list \<Rightarrow> (unit, mysqlRow list \<times> nat) mysqlApi" where
  "ref_mysql rs =
     \<lparr>mysql_real_connect = (\<lambda>_ _ _ _ _ _ q. (True, q)), mysql_ping = (\<lambda>_ q. (0, q)), mysql_query = (\<lambda>_ _ q. (0, q)),
      mysql_store_result = (\<lambda>_ q. (if length rs < 2 ^ 32 then Some (rs, 0) else None, q)),
      mysql_next_result = (\<lambda>_ q. (- 1, q)), mysql_close = (\<lambda>_ q. q), mysql_error = (\<lambda>_ _. []), mysql_errno = (\<lambda>_ _. 0),
      mysql_real_escape_string = (\<lambda>_ s _. s), mysql_affected_rows = (\<lambda>_ _. 0), mysql_insert_id = (\<lambda>_ _. 0),
      mysql_set_character_set = (\<lambda>_ _ q. (0, q)), mysql_character_set_name = (\<lambda>_ _. ''utf8''),
      mysql_options = (\<lambda>_ _ _ q. (0, q)), mysql_set_server_option = (\<lambda>_ _ q. (0, q)),
      mysql_num_fields = (\<lambda>r. if fst r = [] then 0 else length (hd (fst r))), mysql_num_rows = (\<lambda>r. length (fst r)),
      mysql_data_seek = (\<lambda>r n. (fst r, n)),
      mysql_fetch_row = (\<lambda>r. if snd r < length (fst r) then (Some (fst r ! snd r), fst r, Suc (snd r)) else (None, r)),
      mysql_fetch_lengths = (\<lambda>r. None), mysql_fetch_field = (\<lambda>r. (None, r))\<rparr>"

text \<open>
  C7. The cells of a query result. After a result was stored, and after any sequence of
  \<^verbatim>\<open>GetField(i, j)\<close> and \<^verbatim>\<open>GetNextRow()\<close> calls in any order that did not index outside a row,
  \<^verbatim>\<open>GetField(i, j)\<close> returns the text of row \<open>i\<close>, column \<open>j\<close> (empty for SQL NULL): reusing the
  cached row and seeking only when the next row is not the one asked for never gives a wrong row.
\<close>

theorem GetField_any_order:
  assumes "result_laws api rows pos" and "mysql_heap s0 this = Some p"
    and "StoreResult api this s0 = Inr (0, s1)" and "fst (mysql_store_result api this (mysql s0)) = Some r"
    and "run_accesses api this accesses s1 = Inr ((), s2)"
    and "0 \<le> i" and "nat i < length (rows r)" and "j < length (rows r ! nat i)"
  shows "\<exists>s3. GetField api this i j s2 = Inr (case rows r ! nat i ! j of None \<Rightarrow> [] | Some v \<Rightarrow> c_str v, s3)"
proof -
  obtain p1 where p1: "mysql_heap s1 this = Some p1" "cursor_ok rows pos (rows r) p1"
    using StoreResult_cursor [OF assms(1,2,3)] assms(4) by auto
  obtain p2 where p2: "mysql_heap s2 this = Some p2" "cursor_ok rows pos (rows r) p2"
    using run_accesses_step [OF assms(1) p1 assms(5)] by blast
  show ?thesis
    by (rule GetField_value [OF assms(1) p2 assms(6-8)])
qed

theorem GetField_any_order_witness:
  "\<exists>s2 s3. run_accesses (ref_mysql [[Some ''bob''], [Some ''eve'']]) 0 [Next, Field 1 0, Next]
       (the (case StoreResult (ref_mysql [[Some ''bob''], [Some ''eve'']]) 0
               \<lparr>mysql = (), mysql_heap = [0 \<mapsto> empty_prop], next_mysql = 1\<rparr> of Inr (_, s) \<Rightarrow> Some s | Inl _ \<Rightarrow> None)) = Inr ((), s2) \<and>
     GetField (ref_mysql [[Some ''bob''], [Some ''eve'']]) 0 0 0 s2 = Inr (''bob'', s3)"
proof -
  let ?api = "ref_mysql [[Some ''bob''], [Some ''eve'']]"
  let ?s0 = "\<lparr>mysql = (), mysql_heap = [0 \<mapsto> empty_prop], next_mysql = 1\<rparr>"
  have laws: "result_laws ?api fst snd"
    by (simp add: result_laws_def ref_mysql_def)
  have heap: "mysql_heap ?s0 0 = Some empty_prop" by simp
  obtain s1 where s1: "StoreResult ?api 0 ?s0 = Inr (0, s1)"
    by (simp add: StoreResult_def FreeResult_def mysql_prog_defs ref_mysql_def)
  have r: "fst (mysql_store_result ?api 0 (mysql ?s0)) = Some ([[Some ''bob''], [Some ''eve'']], 0)"
    by (simp add: ref_mysql_def)
  have "\<exists>s2. run_accesses ?api 0 [Next, Field 1 0, Next] s1 = Inr ((), s2)"
    using s1 by (auto simp: StoreResult_def FreeResult_def mysql_prog_defs ref_mysql_def free_result_def
        empty_prop_def GetNextRow_def GetField_def fetch_at_def cell_def Let_def)
  then obtain s2 where s2: "run_accesses ?api 0 [Next, Field 1 0, Next] s1 = Inr ((), s2)" by blast
  from GetField_any_order [OF laws heap s1 r s2, of 0 0] s1 s2 show ?thesis
    by (auto simp: c_str_def)
qed

end
