(* ===== verification/MysqlLinkPool.thy ===== *)
theory MysqlLinkPool
  imports MysqlUtil ConnPool
begin

text \<open>
  The pool of MySQL connections, \<^verbatim>\<open>MysqlLinkPool.cc\<close>. Every operation runs under the pool's mutex.
  A pool operation is a program over the pool and the \<^verbatim>\<open>Mysql\<close> objects. \<^verbatim>\<open>GetConnection\<close> never
  waits: it returns a null pointer when the pool is used up.

  The pool is an instance of the contract \<open>conn_pool\<close>. The test of an idle connection is
  inverted in the code (\<^verbatim>\<open>Ping\<close> returns 0 on success): a connection that answers is thrown away
  and one that does not answer is handed out.
\<close>

section \<open>The pool\<close>

record mysqlLinkPool =
  curSize :: int
  maxSize :: int
  connList :: "nat list"
  Host :: string
  User :: string
  Pass :: string
  DB :: string
  Port :: int

type_synonym ('q, 'r) linkState = "mysqlLinkPool \<times> ('q, 'r) mysqlState"

definition mysqls :: "(('q, 'r) mysqlState, 'a) prog \<Rightarrow> (('q, 'r) linkState, 'a) prog" where
  "mysqls m ps = andThen (m (snd ps)) (\<lambda>(x, s). Inr (x, fst ps, s))"

definition linkpool :: "(('q, 'r) linkState, mysqlLinkPool) prog" where
  "linkpool ps = Inr (fst ps, ps)"

definition set_linkpool :: "(mysqlLinkPool \<Rightarrow> mysqlLinkPool) \<Rightarrow> (('q, 'r) linkState, unit) prog" where
  "set_linkpool f ps = Inr ((), f (fst ps), snd ps)"

text \<open>
  The constructor of \<^verbatim>\<open>Mysql\<close> does not connect and throws nothing, so that \<^verbatim>\<open>CreateConnection\<close> always
  returns an object.
\<close>

definition CreateConnection :: "(('q, 'r) linkState, nat option) prog" where
  "CreateConnection =
     chain linkpool (\<lambda>p.
     chain (mysqls (Mysql_ctor (Host p) (User p) (Pass p) (DB p) (Port p))) (\<lambda>c. ret (Some c)))"

fun InitConnection :: "nat \<Rightarrow> (('q, 'r) linkState, unit) prog" where
  "InitConnection 0 = ret ()"
| "InitConnection (Suc n) =
     chain CreateConnection (\<lambda>c.
     chain (case c of
              Some c \<Rightarrow> set_linkpool (\<lambda>p. p\<lparr>connList := connList p @ [c], curSize := curSize p + 1\<rparr>)
            | None \<Rightarrow> ret ()) (\<lambda>_.
     InitConnection n))"

definition MysqlLinkPool_ctor :: "string \<Rightarrow> string \<Rightarrow> string \<Rightarrow> string \<Rightarrow> int \<Rightarrow> int \<Rightarrow>
    ('q, 'r) mysqlState \<Rightarrow> (unit \<times> ('q, 'r) linkState) res" where
  "MysqlLinkPool_ctor host user pass db port maxsize s =
     InitConnection (nat (maxsize div 2))
       (\<lparr>curSize = 0, maxSize = maxsize, connList = [], Host = host, User = user, Pass = pass, DB = db, Port = port\<rparr>, s)"

text \<open>The pool of the program, \<^verbatim>\<open>MysqlLinkPool::linkpool\<close>, which \<^verbatim>\<open>GetInstance\<close> returns.\<close>

definition MysqlLinkPool_GetInstance :: "('q, 'r) mysqlState \<Rightarrow> (unit \<times> ('q, 'r) linkState) res" where
  "MysqlLinkPool_GetInstance = MysqlLinkPool_ctor ''127.0.0.1'' ''root'' ''IM@tencent123'' ''IM'' 3306 20"

definition GetConnection :: "('q, 'r) mysqlApi \<Rightarrow> (('q, 'r) linkState, nat option) prog" where
  "GetConnection api =
     chain linkpool (\<lambda>p.
     case connList p of
       con # rest \<Rightarrow>
         chain (set_linkpool (\<lambda>p. p\<lparr>connList := rest\<rparr>)) (\<lambda>_.
         chain (mysqls (Ping api con)) (\<lambda>ping.
         chain (if ping = 0 then chain (mysqls (Mysql_dtor api con)) (\<lambda>_. CreateConnection) else ret (Some con)) (\<lambda>con'.
         chain (if con' = None then set_linkpool (\<lambda>p. p\<lparr>curSize := curSize p - 1\<rparr>) else ret ()) (\<lambda>_.
         ret con'))))
     | [] \<Rightarrow>
         if curSize p < maxSize p then
           chain CreateConnection (\<lambda>con.
           case con of
             Some con \<Rightarrow> chain (set_linkpool (\<lambda>p. p\<lparr>curSize := curSize p + 1\<rparr>)) (\<lambda>_. ret (Some con))
           | None \<Rightarrow> ret None)
         else ret None)"

definition ReleaseConnection :: "nat option \<Rightarrow> (('q, 'r) linkState, unit) prog" where
  "ReleaseConnection conn =
     (case conn of
        Some c \<Rightarrow> set_linkpool (\<lambda>p. p\<lparr>connList := connList p @ [c]\<rparr>)
      | None \<Rightarrow> ret ())"

definition DestoryConnection :: "('q, 'r) mysqlApi \<Rightarrow> nat \<Rightarrow> (('q, 'r) linkState, unit) prog" where
  "DestoryConnection api c = chain (mysqls (Close api c)) (\<lambda>_. mysqls (Mysql_dtor api c))"

fun destroy_all :: "('q, 'r) mysqlApi \<Rightarrow> nat list \<Rightarrow> (('q, 'r) linkState, unit) prog" where
  "destroy_all api [] = ret ()"
| "destroy_all api (c # cs) = chain (DestoryConnection api c) (\<lambda>_. destroy_all api cs)"

definition DestoryMysqlLinkPool :: "('q, 'r) mysqlApi \<Rightarrow> (('q, 'r) linkState, unit) prog" where
  "DestoryMysqlLinkPool api =
     chain linkpool (\<lambda>p.
     chain (destroy_all api (connList p)) (\<lambda>_.
     set_linkpool (\<lambda>p. p\<lparr>curSize := 0, connList := []\<rparr>)))"


section \<open>The pool contract\<close>

definition link_pool_inv :: "int \<Rightarrow> ('q, 'r) linkState \<Rightarrow> nat set \<Rightarrow> bool" where
  "link_pool_inv m ps H \<longleftrightarrow>
     maxSize (fst ps) = m \<and> distinct (connList (fst ps)) \<and> finite H \<and> set (connList (fst ps)) \<inter> H = {} \<and>
     set (connList (fst ps)) \<union> H \<subseteq> dom (mysql_heap (snd ps)) \<and>
     (\<forall>c \<in> dom (mysql_heap (snd ps)). c < next_mysql (snd ps)) \<and>
     curSize (fst ps) = int (length (connList (fst ps)) + card H) \<and> curSize (fst ps) \<le> m"

lemmas link_prog_defs = linkpool_def set_linkpool_def mysqls_def chain_def ret_def

lemma CreateConnection_ok:
  "\<exists>s'. CreateConnection (p, s) = Inr (Some (next_mysql s), p, s') \<and>
     dom (mysql_heap s') = insert (next_mysql s) (dom (mysql_heap s)) \<and> next_mysql s' = Suc (next_mysql s)"
  by (simp add: CreateConnection_def link_prog_defs Mysql_ctor_def new_prop_def)

lemma Ping_ok:
  assumes "c \<in> dom (mysql_heap s)"
  shows "\<exists>s'. Ping api c s = Inr (if fst (mysql_ping api c (mysql s)) = 0 then 0 else - 1, s') \<and>
     dom (mysql_heap s') = dom (mysql_heap s) \<and> next_mysql s' = next_mysql s"
proof -
  obtain p where "mysql_heap s c = Some p"
    using assms by auto
  then show ?thesis
    by (cases "mysql_ping api c (mysql s)")
       (auto simp: Ping_def Close_def FreeResult_def mysql_prog_defs)
qed

lemma dtor_ok:
  assumes "c \<in> dom (mysql_heap s)"
  shows "\<exists>s'. Mysql_dtor api c s = Inr ((), s') \<and>
     dom (mysql_heap s') = dom (mysql_heap s) - {c} \<and> next_mysql s' = next_mysql s"
proof -
  obtain p where "mysql_heap s c = Some p"
    using assms by auto
  then show ?thesis
    by (auto simp: Mysql_dtor_def FreeResult_def mysql_prog_defs)
qed

lemma GetConnection_idle:
  assumes "connList p = c # cs" and "c \<in> dom (mysql_heap s)" and "\<forall>c \<in> dom (mysql_heap s). c < next_mysql s"
  shows "if fst (mysql_ping api c (mysql s)) = 0
    then \<exists>s'. GetConnection api (p, s) = Inr (Some (next_mysql s), p\<lparr>connList := cs\<rparr>, s') \<and>
           dom (mysql_heap s') = insert (next_mysql s) (dom (mysql_heap s) - {c}) \<and> next_mysql s' = Suc (next_mysql s)
    else \<exists>s'. GetConnection api (p, s) = Inr (Some c, p\<lparr>connList := cs\<rparr>, s') \<and>
           dom (mysql_heap s') = dom (mysql_heap s) \<and> next_mysql s' = next_mysql s"
proof -
  let ?p = "p\<lparr>connList := cs\<rparr>"
  obtain s1 where s1: "Ping api c s = Inr (if fst (mysql_ping api c (mysql s)) = 0 then 0 else - 1, s1)"
      "dom (mysql_heap s1) = dom (mysql_heap s)" "next_mysql s1 = next_mysql s"
    using Ping_ok [OF assms(2)] by blast
  obtain s2 where s2: "Mysql_dtor api c s1 = Inr ((), s2)" "dom (mysql_heap s2) = dom (mysql_heap s) - {c}"
      "next_mysql s2 = next_mysql s"
    using dtor_ok [of c s1 api] assms(2) s1 by auto
  obtain s3 where s3: "CreateConnection (?p, s2) = Inr (Some (next_mysql s), ?p, s3)"
      "dom (mysql_heap s3) = insert (next_mysql s) (dom (mysql_heap s) - {c})" "next_mysql s3 = Suc (next_mysql s)"
    using CreateConnection_ok [of ?p s2] s2 by auto
  show ?thesis
    using s1 s2 s3 assms(1) by (auto simp: GetConnection_def link_prog_defs)
qed

lemma GetConnection_empty:
  assumes "connList p = []"
  shows "if curSize p < maxSize p
    then \<exists>s'. GetConnection api (p, s) = Inr (Some (next_mysql s), p\<lparr>curSize := curSize p + 1\<rparr>, s') \<and>
           dom (mysql_heap s') = insert (next_mysql s) (dom (mysql_heap s)) \<and> next_mysql s' = Suc (next_mysql s)
    else GetConnection api (p, s) = Inr (None, p, s)"
  using assms CreateConnection_ok [of p s] by (auto simp: GetConnection_def link_prog_defs)

lemma GetConnection_inv:
  assumes inv: "link_pool_inv m (p, s) H"
  shows "\<exists>p' s'. GetConnection api (p, s) = Inr (None, p', s') \<and> link_pool_inv m (p', s') H \<or>
    (\<exists>c. GetConnection api (p, s) = Inr (Some c, p', s') \<and> c \<notin> H \<and> link_pool_inv m (p', s') (insert c H))"
proof -
  have heap: "\<forall>c \<in> dom (mysql_heap s). c < next_mysql s"
    using inv by (simp add: link_pool_inv_def)
  then have fresh: "next_mysql s \<notin> dom (mysql_heap s)"
    by auto
  then have fresh': "next_mysql s \<notin> set (connList p)" "next_mysql s \<notin> H"
    using inv by (auto simp: link_pool_inv_def)
  show ?thesis
  proof (cases "connList p")
    case Nil
    show ?thesis
    proof (cases "curSize p < maxSize p")
      case True
      with GetConnection_empty [OF Nil, of api s] obtain s' where
        "GetConnection api (p, s) = Inr (Some (next_mysql s), p\<lparr>curSize := curSize p + 1\<rparr>, s')"
        "dom (mysql_heap s') = insert (next_mysql s) (dom (mysql_heap s))" "next_mysql s' = Suc (next_mysql s)" by auto
      moreover from this have "link_pool_inv m (p\<lparr>curSize := curSize p + 1\<rparr>, s') (insert (next_mysql s) H)"
        using inv Nil True heap fresh' by (auto simp: link_pool_inv_def less_Suc_eq)
      ultimately show ?thesis
        using fresh' by blast
    next
      case False
      with GetConnection_empty [OF Nil, of api s] inv show ?thesis by auto
    qed
  next
    case (Cons c cs)
    then have c: "c \<in> dom (mysql_heap s)"
      using inv by (auto simp: link_pool_inv_def)
    show ?thesis
    proof (cases "fst (mysql_ping api c (mysql s)) = 0")
      case True
      with GetConnection_idle [OF Cons c heap, of api] obtain s' where
        "GetConnection api (p, s) = Inr (Some (next_mysql s), p\<lparr>connList := cs\<rparr>, s')"
        "dom (mysql_heap s') = insert (next_mysql s) (dom (mysql_heap s) - {c})" "next_mysql s' = Suc (next_mysql s)" by auto
      moreover from this have "link_pool_inv m (p\<lparr>connList := cs\<rparr>, s') (insert (next_mysql s) H)"
        using inv Cons heap fresh' by (auto simp: link_pool_inv_def less_Suc_eq)
      ultimately show ?thesis
        using fresh' by blast
    next
      case False
      with GetConnection_idle [OF Cons c heap, of api] obtain s' where
        "GetConnection api (p, s) = Inr (Some c, p\<lparr>connList := cs\<rparr>, s')"
        "dom (mysql_heap s') = dom (mysql_heap s)" "next_mysql s' = next_mysql s" by auto
      moreover from this have "c \<notin> H \<and> link_pool_inv m (p\<lparr>connList := cs\<rparr>, s') (insert c H)"
        using inv Cons by (auto simp: link_pool_inv_def)
      ultimately show ?thesis by blast
    qed
  qed
qed

lemma ReleaseConnection_inv:
  assumes "link_pool_inv m (p, s) H" and "c \<in> H"
  shows "link_pool_inv m (p\<lparr>connList := connList p @ [c]\<rparr>, s) (H - {c})"
proof -
  have "finite H" "0 < card H"
    using assms by (auto simp: link_pool_inv_def card_gt_0_iff)
  with assms show ?thesis
    by (auto simp: link_pool_inv_def card_Diff_singleton)
qed

interpretation link_pool: conn_pool "link_pool_inv m" "GetConnection api" "\<lambda>c. ReleaseConnection (Some c)" "nat m"
  for api :: "('q, 'r) mysqlApi" and m
proof
  fix ps :: "('q, 'r) linkState" and H
  assume "link_pool_inv m ps H"
  then show "finite H \<and> card H \<le> nat m"
    by (auto simp: link_pool_inv_def)
next
  fix ps ps' :: "('q, 'r) linkState" and H c
  assume "link_pool_inv m ps H" and "GetConnection api ps = Inr (Some c, ps')"
  then show "c \<notin> H \<and> link_pool_inv m ps' (insert c H)"
    using GetConnection_inv [of m "fst ps" "snd ps" H api] by auto
next
  fix ps ps' :: "('q, 'r) linkState" and H
  assume "link_pool_inv m ps H" and "GetConnection api ps = Inr (None, ps')"
  then show "link_pool_inv m ps' H"
    using GetConnection_inv [of m "fst ps" "snd ps" H api] by auto
next
  fix ps :: "('q, 'r) linkState" and H e
  assume "link_pool_inv m ps H" and "GetConnection api ps = Inl e"
  then show "e = Blocked"
    using GetConnection_inv [of m "fst ps" "snd ps" H api] by auto
next
  fix ps :: "('q, 'r) linkState" and H c
  assume "link_pool_inv m ps H" and "c \<in> H"
  then show "\<exists>ps'. ReleaseConnection (Some c) ps = Inr ((), ps') \<and> link_pool_inv m ps' (H - {c})"
    using ReleaseConnection_inv [of m "fst ps" "snd ps" H c]
    by (simp add: ReleaseConnection_def set_linkpool_def)
qed

lemma InitConnection_inv:
  assumes "link_pool_inv m (p, s) {}" and "curSize p + int n \<le> m"
  shows "\<exists>p' s'. InitConnection n (p, s) = Inr ((), p', s') \<and> link_pool_inv m (p', s') {}"
  using assms
proof (induction n arbitrary: p s)
  case 0
  then show ?case by (simp add: ret_def)
next
  case (Suc n)
  obtain s1 where s1: "CreateConnection (p, s) = Inr (Some (next_mysql s), p, s1)"
      "dom (mysql_heap s1) = insert (next_mysql s) (dom (mysql_heap s))" "next_mysql s1 = Suc (next_mysql s)"
    using CreateConnection_ok [of p s] by blast
  let ?p = "p\<lparr>connList := connList p @ [next_mysql s], curSize := curSize p + 1\<rparr>"
  have "link_pool_inv m (?p, s1) {}"
    using Suc.prems s1 by (auto simp: link_pool_inv_def less_Suc_eq)
  with Suc.IH [of ?p s1] Suc.prems(2) s1(1) show ?case
    by (auto simp: link_prog_defs)
qed

lemma ctor_inv:
  assumes "\<forall>c \<in> dom (mysql_heap s). c < next_mysql s" and "0 \<le> maxsize"
  shows "\<exists>ps. MysqlLinkPool_ctor host user pass db port maxsize s = Inr ((), ps) \<and> link_pool_inv maxsize ps {}"
proof -
  let ?p = "\<lparr>curSize = 0, maxSize = maxsize, connList = [], Host = host, User = user, Pass = pass, DB = db, Port = port\<rparr>"
  have "link_pool_inv maxsize (?p, s) {}"
    using assms by (simp add: link_pool_inv_def)
  from InitConnection_inv [OF this, of "nat (maxsize div 2)"] assms(2) show ?thesis
    by (simp add: MysqlLinkPool_ctor_def)
qed

lemma GetInstance_inv:
  assumes "\<forall>c \<in> dom (mysql_heap s). c < next_mysql s"
  shows "\<exists>ps. MysqlLinkPool_GetInstance s = Inr ((), ps) \<and> link_pool_inv 20 ps {}"
  unfolding MysqlLinkPool_GetInstance_def by (rule ctor_inv [OF assms]) simp


section \<open>Properties\<close>

text \<open>
  C6. The MySQL pool under concurrent use, for the pool of the program (20 connections): in any
  interleaving of threads that take connections and give back what they hold, with the server
  answering in any way, no connection is handed to a thread while another holds it, taking and
  giving back never fault, \<^verbatim>\<open>curSize\<close> equals the idle connections plus those that are out, and at
  most 20 are out.
\<close>

theorem mysql_pool_exclusive:
  assumes "\<forall>c \<in> dom (mysql_heap s). c < next_mysql s"
  shows "\<exists>ps ps' owner. MysqlLinkPool_GetInstance s = Inr ((), ps) \<and>
    pool_run (GetConnection api) (\<lambda>c. ReleaseConnection (Some c)) events ps = (ps', owner, False) \<and>
    finite (dom owner) \<and> card (dom owner) \<le> 20 \<and> set (connList (fst ps')) \<inter> dom owner = {} \<and>
    curSize (fst ps') = int (length (connList (fst ps')) + card (dom owner))"
proof -
  obtain ps where ps: "MysqlLinkPool_GetInstance s = Inr ((), ps)" "link_pool_inv 20 ps {}"
    using GetInstance_inv [OF assms] by blast
  obtain ps' owner bad where run:
    "pool_run (GetConnection api) (\<lambda>c. ReleaseConnection (Some c)) events ps = (ps', owner, bad)"
    by (metis prod_cases3)
  from link_pool.run_safe [OF ps(2) run] link_pool.run_bound [OF ps(2) run] ps(1) run show ?thesis
    by (intro exI [of _ ps] exI [of _ ps'] exI [of _ owner]) (simp add: link_pool_inv_def)
qed

theorem mysql_pool_exclusive_witness:
  "\<exists>ps ps' owner. MysqlLinkPool_GetInstance \<lparr>mysql = (), mysql_heap = Map.empty, next_mysql = 0\<rparr> = Inr ((), ps) \<and>
     pool_run (GetConnection (ref_mysql [])) (\<lambda>c. ReleaseConnection (Some c)) [PoolGet 1, PoolGet 2] ps = (ps', owner, False) \<and>
     card (dom owner) \<le> 20"
  using mysql_pool_exclusive [of "\<lparr>mysql = (), mysql_heap = Map.empty, next_mysql = 0\<rparr>" "ref_mysql []" "[PoolGet 1, PoolGet 2]"]
  by auto

text \<open>
  The health check is inverted. When the first idle connection answers the ping, it is
  destroyed and a new object, which is not connected, is returned in its place; when it does not
  answer, that very connection is returned.
\<close>

theorem GetConnection_inverted_ping:
  assumes "link_pool_inv m (p, s) H" and "connList p = c # cs"
  shows "\<exists>s' c'. GetConnection api (p, s) = Inr (Some c', p\<lparr>connList := cs\<rparr>, s') \<and>
    (if fst (mysql_ping api c (mysql s)) = 0 then c' \<noteq> c \<and> mysql_heap s' c = None else c' = c)"
proof -
  have heap: "\<forall>c \<in> dom (mysql_heap s). c < next_mysql s" and c: "c \<in> dom (mysql_heap s)"
    using assms by (auto simp: link_pool_inv_def)
  then have "next_mysql s \<noteq> c"
    by blast
  with GetConnection_idle [OF assms(2) c heap, of api] show ?thesis
    by (auto split: if_splits) (metis Diff_iff domIff insert_iff singletonI)
qed

theorem GetConnection_inverted_ping_witness:
  "\<exists>ps s' c c' cs. MysqlLinkPool_GetInstance \<lparr>mysql = (), mysql_heap = Map.empty, next_mysql = 0\<rparr> = Inr ((), ps) \<and>
     connList (fst ps) = c # cs \<and>
     GetConnection (ref_mysql []) ps = Inr (Some c', (fst ps)\<lparr>connList := cs\<rparr>, s') \<and> c' \<noteq> c"
proof -
  obtain ps :: "(unit, mysqlRow list \<times> nat) linkState" where
    ps: "MysqlLinkPool_GetInstance \<lparr>mysql = (), mysql_heap = Map.empty, next_mysql = 0\<rparr> = Inr ((), ps)"
      "link_pool_inv 20 (fst ps, snd ps) {}"
    using GetInstance_inv [of "\<lparr>mysql = (), mysql_heap = Map.empty, next_mysql = 0\<rparr>"] by auto
  then obtain c cs where c: "connList (fst ps) = c # cs"
    by (auto simp: MysqlLinkPool_GetInstance_def MysqlLinkPool_ctor_def CreateConnection_def Mysql_ctor_def new_prop_def
        link_prog_defs numeral_eq_Suc)
  from GetConnection_inverted_ping [OF ps(2) c, of "ref_mysql []"] ps(1) c show ?thesis
    by (auto simp: ref_mysql_def)
qed

end
