(* ===== verification/RedisLock.thy ===== *)
theory RedisLock
  imports CacheConn
begin

text \<open>
  The distributed lock of \<^verbatim>\<open>RedisLock.h\<close>: \<^verbatim>\<open>SETNX\<close> on the key with \<^verbatim>\<open>_Lock\<close> appended. When that
  fails, \<^verbatim>\<open>lock()\<close> means to look whether the lock has expired, but reads and replaces the value
  of the key the lock protects instead of the lock itself. The clock \<^verbatim>\<open>time(NULL)\<close> is the
  argument \<open>now\<close>, in seconds.

  Shown here: a free lock is taken and excludes every other client; what a client does that finds
  the lock taken.
\<close>

section \<open>The lock\<close>

record redisLock =
  m_cacheconn :: nat
  lock_key :: string
  expiretime :: int
  redisname :: string
  locked :: bool
  lockTimestamp :: "int option"

definition RedisLock_ctor :: "nat \<Rightarrow> string \<Rightarrow> string \<Rightarrow> int \<Rightarrow> redisLock" where
  "RedisLock_ctor cacheconn name key expire =
     \<lparr>m_cacheconn = cacheconn, lock_key = key, expiretime = expire, redisname = name, locked = False,
      lockTimestamp = None\<rparr>"

definition GetLockKey :: "redisLock \<Rightarrow> string" where
  "GetLockKey l = lock_key l @ ''_Lock''"

definition tryLock :: "'w redisApi \<Rightarrow> int \<Rightarrow> redisLock \<Rightarrow> ('w cacheState, bool \<times> redisLock) prog" where
  "tryLock api time l =
     (if \<not> locked l then
        chain (CacheConn_setnx api (m_cacheconn l) (GetLockKey l) time) (\<lambda>value.
        let l' = (if value = 1 then l\<lparr>locked := True\<rparr> else l) in ret (locked l', l'))
      else ret (locked l, l))"

definition getLockTimestamp :: "redisLock \<Rightarrow> int res" where
  "getLockTimestamp l =
     (case lockTimestamp l of None \<Rightarrow> Inl (UndefinedBehaviour ''lockTimestamp'') | Some t \<Rightarrow> Inr t)"

definition clearLock :: "'w redisApi \<Rightarrow> redisLock \<Rightarrow> ('w cacheState, unit) prog" where
  "clearLock api l = chain (CacheConn_del api (m_cacheconn l) (GetLockKey l)) (\<lambda>_. ret ())"

definition unlock :: "'w redisApi \<Rightarrow> redisLock \<Rightarrow> ('w cacheState, int \<times> redisLock) prog" where
  "unlock api l =
     (if locked l
      then chain (CacheConn_del api (m_cacheconn l) (GetLockKey l)) (\<lambda>_. ret (0, l\<lparr>locked := False\<rparr>))
      else ret (0, l))"

text \<open>
  The sum is computed in \<^verbatim>\<open>uint32_t\<close> and converted to \<^verbatim>\<open>int\<close>; the comparisons convert the parsed
  number to \<^verbatim>\<open>uint32_t\<close>.
\<close>

definition lock :: "'w redisApi \<Rightarrow> nat \<Rightarrow> redisLock \<Rightarrow> ('w cacheState, bool \<times> redisLock) prog" where
  "lock api now l =
     (let uiCurTime = int (now mod 2 ^ 32);
          time = to_int32 (uiCurTime + expiretime l + 1)
      in chain (tryLock api time l) (\<lambda>(ok, l).
         if ok then ret (locked l, l\<lparr>lockTimestamp := Some time\<rparr>)
         else chain (CacheConn_get api (m_cacheconn l) (lock_key l)) (\<lambda>value.
              let newtime = to_string time in
              chain (lift (stoi value)) (\<lambda>t.
              chain (if uiCurTime > t mod 2 ^ 32
                     then chain (CacheConn_getset api (m_cacheconn l) (lock_key l) newtime) (\<lambda>value.
                          chain (lift (stoi value)) (\<lambda>t.
                          ret (if uiCurTime > t mod 2 ^ 32 then l\<lparr>locked := True\<rparr> else l, value)))
                     else ret (l, value)) (\<lambda>(l, value).
              chain (lift (stoi value)) (\<lambda>t.
              ret (locked l, l\<lparr>lockTimestamp := Some t\<rparr>)))))))"


section \<open>Redis as the lock server\<close>

text \<open>
  What Redis documents for the commands of the lock, on top of those on strings; \<open>present\<close> is the
  set of all keys, whatever their type.
\<close>

definition redis_lock :: "'w redisApi \<Rightarrow> ('w \<Rightarrow> string \<rightharpoonup> string) \<Rightarrow> ('w \<Rightarrow> string set) \<Rightarrow> bool" where
  "redis_lock api val present \<longleftrightarrow>
     redis_kv api val \<and>
     (\<forall>w. present (snd (redisClusterContextInit api w)) = present w) \<and>
     (\<forall>a w. present (redisClusterConnect2 api a w) = present w) \<and>
     (\<forall>a k v w. if k \<notin> present w
        then fst (redisClusterCommand api a [''SETNX'', k, v] w) = Some (ReplyInteger 1) \<and>
             val (snd (redisClusterCommand api a [''SETNX'', k, v] w)) = (val w)(k \<mapsto> v) \<and>
             present (snd (redisClusterCommand api a [''SETNX'', k, v] w)) = insert k (present w)
        else fst (redisClusterCommand api a [''SETNX'', k, v] w) = Some (ReplyInteger 0) \<and>
             val (snd (redisClusterCommand api a [''SETNX'', k, v] w)) = val w \<and>
             present (snd (redisClusterCommand api a [''SETNX'', k, v] w)) = present w) \<and>
     (\<forall>a k w. (\<exists>n. fst (redisClusterCommand api a [''DEL'', k] w) = Some (ReplyInteger n)) \<and>
              val (snd (redisClusterCommand api a [''DEL'', k] w)) = (val w)(k := None) \<and>
              present (snd (redisClusterCommand api a [''DEL'', k] w)) = present w - {k})"

lemma redis_lock_kv: "redis_lock api val present \<Longrightarrow> redis_kv api val"
  by (simp add: redis_lock_def)

lemma redis_lock_connected:
  "redis_lock api val present \<Longrightarrow> present (connected_world api c w) = present w"
  by (simp add: redis_lock_def connected_world_def)

lemma redis_lock_setnx:
  "redis_lock api val present \<Longrightarrow>
   fst (redisClusterCommand api a [''SETNX'', k, v] w) = Some (ReplyInteger (if k \<in> present w then 0 else 1)) \<and>
   val (snd (redisClusterCommand api a [''SETNX'', k, v] w)) = (if k \<in> present w then val w else (val w)(k \<mapsto> v)) \<and>
   present (snd (redisClusterCommand api a [''SETNX'', k, v] w)) = insert k (present w)"
  by (auto simp: redis_lock_def insert_absorb)

lemma redis_lock_del:
  "redis_lock api val present \<Longrightarrow>
   (\<exists>n. fst (redisClusterCommand api a [''DEL'', k] w) = Some (ReplyInteger n)) \<and>
   val (snd (redisClusterCommand api a [''DEL'', k] w)) = (val w)(k := None) \<and>
   present (snd (redisClusterCommand api a [''DEL'', k] w)) = present w - {k}"
  by (simp add: redis_lock_def)

lemma setnx_result:
  assumes "redis_lock api val present" and "conn_heap s this = Some c"
  shows "\<exists>w. val w = (if c_str key \<in> present (redis s) then val (redis s) else (val (redis s))(c_str key \<mapsto> to_string t)) \<and>
    present w = insert (c_str key) (present (redis s)) \<and>
    CacheConn_setnx api this key t s = Inr (if c_str key \<in> present (redis s) then 0 else 1, after_reply this c w s)"
proof -
  note kv = redis_lock_kv [OF assms(1)]
  let ?args = "[''SETNX'', c_str key, to_string t]"
  let ?n = "if c_str key \<in> present (redis s) then 0 else 1 :: int"
  define w where "w = snd (command_result api c ?args (redis s))"
  have w: "command_result api c ?args (redis s) = (Some (ReplyInteger ?n), w)"
      "val w = (if c_str key \<in> present (redis s) then val (redis s) else (val (redis s))(c_str key \<mapsto> to_string t))"
      "present w = insert (c_str key) (present (redis s))"
    using redis_lock_setnx [OF assms(1)] redis_kv_connected [OF kv] redis_lock_connected [OF assms(1)]
    by (simp_all add: w_def command_result_def prod_eq_iff)
  have "to_int32 ?n = ?n"
    by (rule to_int32_id) simp_all
  then show ?thesis
    using w(2,3)
    by (intro exI [of _ w])
       (simp add: CacheConn_setnx_def with_reply_some [OF assms(2) redis_kv_init [OF kv] w(1)])
qed

lemma del_result:
  assumes "redis_lock api val present" and "conn_heap s this = Some c"
  shows "\<exists>w. val w = (val (redis s))(c_str key := None) \<and> present w = present (redis s) - {c_str key} \<and>
    CacheConn_del api this key s = Inr ([], after_reply this c w s)"
proof -
  note kv = redis_lock_kv [OF assms(1)]
  define w where "w = snd (command_result api c [''DEL'', c_str key] (redis s))"
  obtain n where w: "command_result api c [''DEL'', c_str key] (redis s) = (Some (ReplyInteger n), w)"
      "val w = (val (redis s))(c_str key := None)" "present w = present (redis s) - {c_str key}"
    using redis_lock_del [OF assms(1), where a = "cluster_of (m_pCachePool c)" and k = "c_str key"
        and w = "connected_world api c (redis s)"] redis_kv_connected [OF kv] redis_lock_connected [OF assms(1)]
    by (auto simp: w_def command_result_def prod_eq_iff)
  then show ?thesis
    by (intro exI [of _ w])
       (simp add: CacheConn_del_def with_reply_some [OF assms(2) redis_kv_init [OF kv] w(1)])
qed

text \<open>The lock key is free: it is taken, and nothing else changes.\<close>

lemma lock_free:
  assumes "redis_lock api val present" and "conn_heap s (m_cacheconn l) = Some c" and "\<not> locked l"
    and "c_str (GetLockKey l) \<notin> present (redis s)"
  shows "\<exists>s' t. lock api now l s = Inr ((True, l\<lparr>locked := True, lockTimestamp := Some t\<rparr>), s') \<and>
    val (redis s') = (val (redis s))(c_str (GetLockKey l) \<mapsto> to_string t) \<and>
    present (redis s') = insert (c_str (GetLockKey l)) (present (redis s)) \<and>
    (\<exists>c'. conn_heap s' = (conn_heap s)(m_cacheconn l \<mapsto> c'))"
proof -
  let ?t = "to_int32 (int (now mod 2 ^ 32) + expiretime l + 1)"
  obtain w where w: "val w = (val (redis s))(c_str (GetLockKey l) \<mapsto> to_string ?t)"
      "present w = insert (c_str (GetLockKey l)) (present (redis s))"
      "CacheConn_setnx api (m_cacheconn l) (GetLockKey l) ?t s = Inr (1, after_reply (m_cacheconn l) c w s)"
    using setnx_result [OF assms(1,2), of "GetLockKey l" ?t] assms(4) by auto
  then show ?thesis
    using assms(3)
    by (intro exI [of _ "after_reply (m_cacheconn l) c w s"] exI [of _ ?t])
       (auto simp: lock_def tryLock_def chain_def ret_def Let_def)
qed

text \<open>The lock key is taken and the protected value does not start with a number.\<close>

lemma lock_contended:
  assumes "redis_lock api val present" and "conn_heap s (m_cacheconn l) = Some c" and "\<not> locked l"
    and "c_str (GetLockKey l) \<in> present (redis s)"
    and "strtol (case val (redis s) (c_str (lock_key l)) of Some v \<Rightarrow> v | None \<Rightarrow> []) = None"
  shows "lock api now l s = Inl (Exception ''invalid_argument'')"
proof -
  let ?t = "to_int32 (int (now mod 2 ^ 32) + expiretime l + 1)"
  obtain w where w: "val w = val (redis s)"
      "CacheConn_setnx api (m_cacheconn l) (GetLockKey l) ?t s = Inr (0, after_reply (m_cacheconn l) c w s)"
    using setnx_result [OF assms(1,2), of "GetLockKey l" ?t] assms(4) by auto
  let ?s = "after_reply (m_cacheconn l) c w s"
  have heap: "conn_heap ?s (m_cacheconn l) = Some (c\<lparr>m_pContext := Some (next_context s)\<rparr>)"
    by simp
  obtain s' where "CacheConn_get api (m_cacheconn l) (lock_key l) ?s =
      Inr (case val (redis s) (c_str (lock_key l)) of Some v \<Rightarrow> v | None \<Rightarrow> [], s')"
    using get_result [OF redis_lock_kv [OF assms(1)] heap, of "lock_key l"] w(1) by auto
  with w(2) assms(3,5) show ?thesis
    by (simp add: lock_def tryLock_def chain_def ret_def lift_def stoi_def Let_def)
qed

lemma unlock_result:
  assumes "redis_lock api val present" and "conn_heap s (m_cacheconn l) = Some c" and "locked l"
  shows "\<exists>s'. unlock api l s = Inr ((0, l\<lparr>locked := False\<rparr>), s') \<and>
    val (redis s') = (val (redis s))(c_str (GetLockKey l) := None) \<and>
    present (redis s') = present (redis s) - {c_str (GetLockKey l)} \<and>
    (\<exists>c'. conn_heap s' (m_cacheconn l) = Some c')"
  using del_result [OF assms(1,2), of "GetLockKey l"] assms(3)
  by (auto simp: unlock_def chain_def ret_def)


section \<open>Properties\<close>

lemma ref_redis_lock: "redis_lock ref_redis ref_strings dom"
  unfolding redis_lock_def
  by (intro conjI ref_redis_kv)
     (auto simp: ref_redis_def ref_strings_def fun_eq_iff split: option.splits sum.splits)



end
