(* ===== verification/Business.thy ===== *)
theory Business
  imports Messages CachePool MysqlLinkPool RedisLock
begin

text \<open>
  The business functions of \<^verbatim>\<open>BaseBusiness.cc\<close>: registration, login, cached messages, and the red
  packets. They are programs over \<open>businessWorld\<close>: the Redis pools, the MySQL pool, the
  messages handed to \<^verbatim>\<open>GServer->send\<close> and the timers set with \<^verbatim>\<open>GServer->runAfter\<close>. What they use of
  the outside is the record \<open>businessEnv\<close>: the client libraries, the clock during the call, the
  generator behind \<^verbatim>\<open>rand\<close>, and the protobuf functions of the messages they store. Log output is
  left out.

  Shown here: how a red packet is split; that the split never hands out more than is left and
  hands out all of it; what a duplicate registration reports; which exits leave a connection
  of a pool behind.
\<close>

section \<open>State and environment\<close>

record ('w, 'q, 'r) businessWorld =
  caches :: "'w cacheWorld"
  links :: "('q, 'r) linkState"
  outbox :: "(string \<times> singlechat_msg) list"
  timers :: "(nat \<times> string \<times> string) list"

record ('w, 'q, 'r) businessEnv =
  redis_api :: "'w redisApi"
  mysql_api :: "('q, 'r) mysqlApi"
  config_fopen :: "string \<Rightarrow> string option"
  now :: nat
  rand_after :: "nat \<Rightarrow> nat"
  serialize_session :: "session_msg \<Rightarrow> string"
  parse_session :: "string \<Rightarrow> session_msg option"
  parse_userinfo :: "string \<Rightarrow> userinfo_msg option"
  serialize_hongbao :: "sendhongbao_msg \<Rightarrow> string"
  parse_hongbao :: "string \<Rightarrow> sendhongbao_msg option"
  serialize_chat :: "singlechat_msg \<Rightarrow> string option"
  parse_chat :: "string \<Rightarrow> singlechat_msg option"

type_synonym ('w, 'q, 'r, 'a) bprog = "(('w, 'q, 'r) businessWorld, 'a) prog"

definition cacheW :: "('w cacheWorld, 'a) prog \<Rightarrow> ('w, 'q, 'r, 'a) bprog" where
  "cacheW m s = andThen (m (caches s)) (\<lambda>(x, c). Inr (x, s\<lparr>caches := c\<rparr>))"

definition linkW :: "(('q, 'r) linkState, 'a) prog \<Rightarrow> ('w, 'q, 'r, 'a) bprog" where
  "linkW m s = andThen (m (links s)) (\<lambda>(x, l). Inr (x, s\<lparr>links := l\<rparr>))"

text \<open>A call through a pointer that may be null.\<close>

definition deref :: "nat option \<Rightarrow> (nat \<Rightarrow> ('s, 'a) prog) \<Rightarrow> ('s, 'a) prog" where
  "deref ptr f = (case ptr of None \<Rightarrow> fail (UndefinedBehaviour ''null pointer'') | Some p \<Rightarrow> f p)"

abbreviation on_redis :: "nat option \<Rightarrow> (nat \<Rightarrow> ('w cacheState, 'a) prog) \<Rightarrow> ('w, 'q, 'r, 'a) bprog" where
  "on_redis ptr f \<equiv> deref ptr (\<lambda>p. cacheW (on_conn (f p)))"

abbreviation on_mysql :: "nat option \<Rightarrow> (nat \<Rightarrow> (('q, 'r) mysqlState, 'a) prog) \<Rightarrow> ('w, 'q, 'r, 'a) bprog" where
  "on_mysql ptr f \<equiv> deref ptr (\<lambda>p. linkW (mysqls (f p)))"

abbreviation get_cache :: "('w, 'q, 'r) businessEnv \<Rightarrow> string \<Rightarrow> ('w, 'q, 'r, nat option) bprog" where
  "get_cache env name \<equiv> cacheW (CacheManager_GetCacheConn (redis_api env) name)"

abbreviation rel_cache :: "nat option \<Rightarrow> ('w, 'q, 'r, unit) bprog" where
  "rel_cache c \<equiv> cacheW (CacheManager_RelCacheConn c)"

abbreviation get_manager :: "('w, 'q, 'r) businessEnv \<Rightarrow> ('w, 'q, 'r, bool) bprog" where
  "get_manager env \<equiv> cacheW (CacheManager_getInstance (redis_api env) (config_fopen env))"

abbreviation get_link :: "('w, 'q, 'r) businessEnv \<Rightarrow> ('w, 'q, 'r, nat option) bprog" where
  "get_link env \<equiv> linkW (GetConnection (mysql_api env))"

abbreviation rel_link :: "nat option \<Rightarrow> ('w, 'q, 'r, unit) bprog" where
  "rel_link c \<equiv> linkW (ReleaseConnection c)"

abbreviation sql_buffer :: "string \<Rightarrow> string" where
  "sql_buffer s \<equiv> snprintf_trunc 1024 s"

text \<open>A string argument of an SQL statement: between single quotes and not escaped.\<close>

definition quoted :: "string \<Rightarrow> string" where
  "quoted v = [CHR 0x27] @ c_str v @ [CHR 0x27]"

definition redis_name :: "string \<Rightarrow> string" where
  "redis_name user = ''Master'' @ to_string (DJBHash user mod 3 + 1)"


section \<open>Red packets: the timer that closes one\<close>

definition sql_close_hongbao :: "sendhongbao_msg \<Rightarrow> string \<Rightarrow> string \<Rightarrow> string" where
  "sql_close_hongbao h roblog key = sql_buffer
     (''update Hongbao set leftmoney='' @ printf_lf (sh_leftmoney h) @ '', leftcount = '' @
      to_string (to_int32 (sh_leftcount h)) @ '',roblog= '' @ quoted roblog @ ''  where hbkey = '' @ quoted key)"

definition sql_refund :: "sendhongbao_msg \<Rightarrow> string" where
  "sql_refund h = sql_buffer
     (''update IMUser set money=money+'' @ printf_lf (sh_leftmoney h) @ '' where name = '' @ quoted (sh_sender h) @ '' '')"

definition StopRobHongbao :: "('w, 'q, 'r) businessEnv \<Rightarrow> string \<Rightarrow> string \<Rightarrow> ('w, 'q, 'r, unit) bprog" where
  "StopRobHongbao env key sender =
     chain (get_manager env) (\<lambda>_.
     chain (get_cache env (redis_name sender)) (\<lambda>pCacheConn.
     chain (on_redis pCacheConn (\<lambda>c. CacheConn_getpb (redis_api env) (parse_hongbao env) c key new_sendhongbao)) (\<lambda>(_, hongbao).
     chain (on_redis pCacheConn (\<lambda>c. CacheConn_del (redis_api env) c key)) (\<lambda>_.
     chain (lift (replaceFromZero (serialize_hongbao env hongbao) (length (serialize_hongbao env hongbao)))) (\<lambda>roblog.
     chain (get_link env) (\<lambda>ml.
     if ml = None then ret ()
     else chain (on_mysql ml (\<lambda>m. Execute (mysql_api env) m (sql_close_hongbao hongbao roblog key))) (\<lambda>_.
          chain (if sh_leftcount hongbao \<noteq> 0
                 then on_mysql ml (\<lambda>m. Execute (mysql_api env) m (sql_refund hongbao))
                 else ret 0) (\<lambda>_.
          chain (rel_cache pCacheConn) (\<lambda>_.
          rel_link ml)))))))))"


section \<open>Registration\<close>

definition sql_by_name :: "string \<Rightarrow> string" where
  "sql_by_name name = sql_buffer (''select * from IMUser where name = '' @ quoted name)"

definition CheckDuplication :: "('w, 'q, 'r) businessEnv \<Rightarrow> register_msg \<Rightarrow> ('w, 'q, 'r, int) bprog" where
  "CheckDuplication env info =
     chain (get_link env) (\<lambda>ml.
     chain (if ml = None then ret (- 1)
            else chain (on_mysql ml (\<lambda>m. Query (mysql_api env) m (sql_by_name (rg_username info)))) (\<lambda>r.
                 if r \<noteq> 0 then ret (- 1)
                 else chain (on_mysql ml GetRecordCount) (\<lambda>n. ret (if n > 0 then - 1 else 0)))) (\<lambda>r.
     chain (rel_link ml) (\<lambda>_. ret r)))"

definition sql_register :: "register_msg \<Rightarrow> double \<Rightarrow> string" where
  "sql_register i money = sql_buffer
     (''insert into IMUser(sex,age,name,nick,password,phone,email,created,sign_info,money) values('' @
      to_string (rg_sex i) @ '', '' @ to_string (to_int32 (rg_age i)) @ '','' @ quoted (rg_username i) @ '','' @
      quoted (rg_nickname i) @ '','' @ quoted (rg_password i) @ '','' @ quoted (rg_mobile i) @ '','' @
      quoted (rg_email i) @ '','' @ to_string (rg_timestamp i) @ '','' @ quoted (rg_sign_info i) @ '','' @
      printf_lf money @ '')'')"

text \<open>
  \<^verbatim>\<open>registerResult\<close> is a \<^verbatim>\<open>bool\<close>, and assigning a string literal to it makes it true. The result
  pairs the return value with the response.
\<close>

definition Register :: "('w, 'q, 'r) businessEnv \<Rightarrow> register_msg \<Rightarrow> ('w, 'q, 'r, int \<times> response_msg) bprog" where
  "Register env info =
     chain (get_link env) (\<lambda>ml.
     chain (CheckDuplication env info) (\<lambda>dup.
     chain (if dup \<noteq> 0 then ret True
            else chain (on_mysql ml (\<lambda>m. Execute (mysql_api env) m (sql_register info (Fin 10000)))) (\<lambda>r. ret (r = 0))) (\<lambda>registerResult.
     chain (rel_link ml) (\<lambda>_.
     ret (if registerResult then 0 else - 1, \<lparr>rs_result = registerResult, rs_description = []\<rparr>)))))"


section \<open>Messages for users that are offline\<close>

fun send_cached :: "('w, 'q, 'r) businessEnv \<Rightarrow> string \<Rightarrow> string list \<Rightarrow> int \<Rightarrow> ('w, 'q, 'r, int) bprog" where
  "send_cached env username [] r = ret r"
| "send_cached env username (c # cs) r =
     (case parse_chat env (replaceToZero c) of
        None \<Rightarrow> ret (- 1)
      | Some sg \<Rightarrow>
          chain (modify (\<lambda>s. s\<lparr>outbox := outbox s @ [(username, sg)]\<rparr>)) (\<lambda>_. send_cached env username cs r))"

definition sendCacheMessage :: "('w, 'q, 'r) businessEnv \<Rightarrow> string \<Rightarrow> ('w, 'q, 'r, int) bprog" where
  "sendCacheMessage env username =
     chain (get_manager env) (\<lambda>_.
     chain (get_cache env (redis_name username)) (\<lambda>pCacheConn.
     chain (if pCacheConn = None then ret (- 1)
            else chain (on_redis pCacheConn (\<lambda>c. CacheConn_lrange (redis_api env) c (username @ ''_message'') 0 (- 1) [])) (\<lambda>(ok, msgs).
                 send_cached env username msgs (if ok then 0 else - 1))) (\<lambda>r.
     chain (rel_cache pCacheConn) (\<lambda>_. ret r))))"

definition cacheMessage :: "('w, 'q, 'r) businessEnv \<Rightarrow> string \<Rightarrow> singlechat_msg \<Rightarrow> ('w, 'q, 'r, int) bprog" where
  "cacheMessage env username message =
     chain (get_manager env) (\<lambda>_.
     chain (get_cache env (redis_name username)) (\<lambda>pCacheConn.
     chain (if pCacheConn = None then ret (- 1)
            else case serialize_chat env message of
                   None \<Rightarrow> ret (- 1)
                 | Some v \<Rightarrow>
                     chain (lift (replaceFromZero v (length v))) (\<lambda>v.
                     chain (on_redis pCacheConn (\<lambda>c. CacheConn_lpush (redis_api env) c (username @ ''_message'') v)) (\<lambda>_.
                     ret 0))) (\<lambda>r.
     chain (rel_cache pCacheConn) (\<lambda>_. ret r))))"


section \<open>Login\<close>

definition sql_login :: "login_msg \<Rightarrow> string" where
  "sql_login l = sql_buffer
     (''select * from IMUser where name = '' @ quoted (lg_username l) @ '' and password = '' @ quoted (lg_password l))"

definition field :: "('w, 'q, 'r) businessEnv \<Rightarrow> nat option \<Rightarrow> string \<Rightarrow> ('w, 'q, 'r, string) bprog" where
  "field env ml name = on_mysql ml (\<lambda>m. GetField_name (mysql_api env) m 0 (Some name))"

definition login_session :: "('w, 'q, 'r) businessEnv \<Rightarrow> nat option \<Rightarrow> int \<Rightarrow> string \<Rightarrow> ('w, 'q, 'r, session_msg) bprog" where
  "login_session env ml hashkey rname =
     chain (field env ml ''id'') (\<lambda>uid.
     chain (field env ml ''sex'') (\<lambda>sex.
     chain (field env ml ''age'') (\<lambda>age.
     chain (field env ml ''name'') (\<lambda>name.
     chain (field env ml ''nick'') (\<lambda>nick.
     chain (field env ml ''passwd'') (\<lambda>passwd.
     chain (field env ml ''email'') (\<lambda>email.
     chain (field env ml ''createtime'') (\<lambda>createtime.
     chain (field env ml ''updatetime'') (\<lambda>updatetime.
     chain (field env ml ''sign_info'') (\<lambda>sign_info.
     chain (field env ml ''money'') (\<lambda>money.
     ret \<lparr>ss_islogin = True, ss_hashkey = hashkey, ss_ip = [], ss_redisname = rname,
          ss_userinfo =
            \<lparr>ui_id = atoi uid, ui_sex = atoi sex, ui_age = atoi age, ui_name = name, ui_nick = nick, ui_phone = passwd,
             ui_email = email, ui_createtime = atoi createtime, ui_updatetime = atoi updatetime,
             ui_sign_info = sign_info, ui_money = atof money\<rparr>\<rparr>)))))))))))"

text \<open>The inner program gives the outcome, its text, and the cache connection to release.\<close>

definition Business_Login :: "('w, 'q, 'r) businessEnv \<Rightarrow> login_msg \<Rightarrow> ('w, 'q, 'r, int \<times> response_msg) bprog" where
  "Business_Login env login =
     chain (get_link env) (\<lambda>ml.
     chain (get_manager env) (\<lambda>manager.
     chain (if ml = None \<or> \<not> manager then ret (False, ''server error'', None)
            else chain (on_mysql ml (\<lambda>m. Query (mysql_api env) m (sql_login login))) (\<lambda>r.
                 if r \<noteq> 0 then ret (False, ''server error'', None)
                 else chain (on_mysql ml GetRecordCount) (\<lambda>n.
                      if n = 0 then ret (False, ''Login failed! username or password not matched!'', None)
                      else chain (get_cache env (redis_name (lg_username login))) (\<lambda>pCacheConn.
                           if pCacheConn = None then ret (True, ''Login success!'', None)
                           else chain (login_session env ml (DJBHash (lg_username login)) (redis_name (lg_username login))) (\<lambda>session.
                                chain (on_redis pCacheConn (\<lambda>c. CacheConn_setpb (redis_api env) c (lg_username login @ ''_session'') (86400 * 2)
                                         (length (serialize_session env session)) (serialize_session env session))) (\<lambda>_.
                                ret (True, ''Login success!'', pCacheConn))))))) (\<lambda>(loginResult, loginInfo, pCacheConn).
     chain (rel_cache pCacheConn) (\<lambda>_.
     chain (rel_link ml) (\<lambda>_.
     ret (if loginResult then 0 else - 1, \<lparr>rs_result = loginResult, rs_description = loginInfo\<rparr>))))))"

text \<open>The function reads the session into a message of another type and returns without a result.\<close>

definition Business_GetFriendInfo :: "('w, 'q, 'r) businessEnv \<Rightarrow> getfriendinfo_msg \<Rightarrow> ('w, 'q, 'r, int) bprog" where
  "Business_GetFriendInfo env reqinfo =
     chain (get_link env) (\<lambda>ml.
     chain (get_manager env) (\<lambda>_.
     chain (get_cache env (redis_name (gf_sender reqinfo))) (\<lambda>pCacheConn.
     if pCacheConn = None then ret 0
     else chain (on_redis pCacheConn (\<lambda>c. CacheConn_getpb (redis_api env) (parse_userinfo env) c (gf_sender reqinfo @ ''_session'') new_userinfo)) (\<lambda>_.
          chain (rel_cache pCacheConn) (\<lambda>_.
          chain (rel_link ml) (\<lambda>_. ret 0))))))"


section \<open>Red packets: sending\<close>

definition sql_pay :: "double \<Rightarrow> string \<Rightarrow> string" where
  "sql_pay money name = sql_buffer
     (''update IMUser set money=money-'' @ printf_lf money @ '' where name = '' @ quoted name)"

definition sql_hongbao :: "string \<Rightarrow> sendhongbao_msg \<Rightarrow> string" where
  "sql_hongbao key h = sql_buffer
     (''insert into Hongbao(hbkey,sender,money,category,count,receiver,time) values('' @ quoted key @ '','' @
      quoted (sh_sender h) @ '','' @ printf_lf (sh_money h) @ '','' @ to_string (to_int32 (sh_category h)) @ '','' @
      to_string (to_int32 (sh_count h)) @ '','' @ quoted (sh_receiver h) @ '','' @ to_string (sh_timestamp h) @ '')'')"

definition new_hongbao :: "hongbaoreq_msg \<Rightarrow> sendhongbao_msg" where
  "new_hongbao req =
     \<lparr>sh_sender = hr_sender req, sh_money = hr_money req, sh_leftmoney = hr_money req, sh_category = hr_category req,
      sh_count = hr_count req, sh_leftcount = hr_count req, sh_receiver = hr_receiver req, sh_robitem = [],
      sh_timestamp = hr_timestamp req\<rparr>"

definition hongbao_key :: "('w, 'q, 'r) businessEnv \<Rightarrow> string \<Rightarrow> string" where
  "hongbao_key env sender = sender @ ''_'' @ to_string (int (now env mod 2 ^ 32)) @ ''_HBcount''"

definition Business_SendHongbao ::
    "('w, 'q, 'r) businessEnv \<Rightarrow> hongbaoreq_msg \<Rightarrow> hongbaoresp_msg \<Rightarrow> ('w, 'q, 'r, int \<times> hongbaoresp_msg) bprog" where
  "Business_SendHongbao env req resp =
     (let hongbao = new_hongbao req in
      chain (get_manager env) (\<lambda>_.
      chain (get_cache env (redis_name (sh_sender hongbao))) (\<lambda>pCacheConn.
      if pCacheConn = None then ret (- 1, resp)
      else chain (on_redis pCacheConn (\<lambda>c. CacheConn_getpb (redis_api env) (parse_session env) c (sh_sender hongbao @ ''_session'') new_session)) (\<lambda>(_, session).
           chain (get_link env) (\<lambda>ml.
           if ml = None then ret (- 1, resp)
           else let money = ui_money (ss_userinfo session) in
             if d_less (d_sub money (sh_money hongbao)) (round_double (1 / 1000000))
             then ret (- 1, resp\<lparr>hp_isok := False, hp_description := ''money not enough''\<rparr>)
             else chain (on_mysql ml (\<lambda>m. Execute (mysql_api env) m (sql_pay (sh_money hongbao) (ui_name (ss_userinfo session))))) (\<lambda>_.
                  let strKey = hongbao_key env (sh_sender hongbao) in
                  chain (on_redis pCacheConn (\<lambda>c. CacheConn_setpb (redis_api env) c strKey 90000
                           (length (serialize_hongbao env hongbao)) (serialize_hongbao env hongbao))) (\<lambda>_.
                  chain (on_mysql ml (\<lambda>m. Execute (mysql_api env) m (sql_hongbao strKey hongbao))) (\<lambda>_.
                  chain (modify (\<lambda>s. s\<lparr>timers := timers s @ [(6, strKey, sh_sender hongbao)]\<rparr>)) (\<lambda>_.
                  chain (rel_cache pCacheConn) (\<lambda>_.
                  chain (rel_link ml) (\<lambda>_.
                  ret (0, resp\<lparr>hp_isok := True, hp_sender := sh_sender hongbao, hp_hongbaokey := strKey,
                               hp_description := ''send ok''\<rparr>))))))))))))"


section \<open>Red packets: taking a share\<close>

text \<open>\<^verbatim>\<open>srand(time(NULL))\<close> before every draw: the number depends on the second only.\<close>

definition RAND :: "('w, 'q, 'r) businessEnv \<Rightarrow> int \<Rightarrow> int \<Rightarrow> int" where
  "RAND env n m = int (rand_after env (now env)) mod (m - n + 1) + n"

definition getRandomMoney :: "int \<Rightarrow> int \<Rightarrow> int \<Rightarrow> int res" where
  "getRandomMoney rnd remainMoney left_MoneyPacksize =
     (if left_MoneyPacksize = 0 then Inr 0
      else andThen (check_int (c_div remainMoney left_MoneyPacksize)) (\<lambda>each.
           if each = 1 then Inr each
           else if left_MoneyPacksize = 1 then Inr remainMoney
           else andThen (check_int (remainMoney * rnd)) (\<lambda>product.
                check_int (c_div (c_div product 100) left_MoneyPacksize))))"

definition sql_credit :: "double \<Rightarrow> string \<Rightarrow> string" where
  "sql_credit money name = sql_buffer
     (''update IMUser set money=money+'' @ printf_lf money @ '' where name = '' @ quoted name @ '' '')"

abbreviation cents :: "int \<Rightarrow> double" where
  "cents n \<equiv> d_scale (d_of_int n) (1 / 100)"

definition rob_failed :: "reqrob_msg \<Rightarrow> string \<Rightarrow> resprob_msg \<Rightarrow> resprob_msg" where
  "rob_failed req text resp =
     resp\<lparr>rp_hongbaokey := rq_hongbaokey req, rp_sender := rq_sender req, rp_isok := False, rp_description := text\<rparr>"

text \<open>
  The red packet after a share was taken from it. Its 64-bit \<^verbatim>\<open>leftcount\<close> is converted to \<^verbatim>\<open>int\<close>.
\<close>

definition take_share :: "('w, 'q, 'r) businessEnv \<Rightarrow> string \<Rightarrow> sendhongbao_msg \<Rightarrow> (int \<times> int \<times> sendhongbao_msg) res" where
  "take_share env selfname hongbao =
     (let leftmoney = sh_leftmoney hongbao;
          leftcount = to_int32 (sh_leftcount hongbao)
      in andThen (d_to_int (d_scale leftmoney 100)) (\<lambda>remain.
         andThen (getRandomMoney (RAND env 1 199) remain leftcount) (\<lambda>getmoney.
         andThen (if leftcount \<noteq> 0 then check_int (leftcount - 1) else Inr 0) (\<lambda>left_count.
         let roblog = \<lparr>rl_name = selfname, rl_money = cents getmoney, rl_time = int (now env)\<rparr>
         in Inr (getmoney, left_count,
                 hongbao\<lparr>sh_leftmoney := d_sub leftmoney (cents getmoney), sh_leftcount := left_count,
                         sh_robitem := sh_robitem hongbao @ [roblog]\<rparr>)))))"

text \<open>
  The part between taking and giving back the connections. The first component of the result says
  that the function returned from inside it.
\<close>

definition rob_locked ::
    "('w, 'q, 'r) businessEnv \<Rightarrow> reqrob_msg \<Rightarrow> resprob_msg \<Rightarrow> nat option \<Rightarrow> nat option \<Rightarrow>
     ('w, 'q, 'r, bool \<times> resprob_msg) bprog" where
  "rob_locked env req resp ml pCacheConn =
     (let strKey = rq_hongbaokey req in
      chain (on_redis pCacheConn (\<lambda>c. lock (redis_api env) (now env)
               (RedisLock_ctor c (redis_name (rq_sender req)) strKey 50000))) (\<lambda>(ok, redisLock).
      let unlock_it = cacheW (on_conn (unlock (redis_api env) redisLock)) in
      if ok then
        chain (on_redis pCacheConn (\<lambda>c. CacheConn_getpb (redis_api env) (parse_hongbao env) c strKey new_sendhongbao)) (\<lambda>(retstr, hongbao).
        if retstr = [] then chain unlock_it (\<lambda>_. ret (True, rob_failed req (CHR ''s'' # ''orry redpacket expired'') resp))
        else if \<exists>item \<in> set (sh_robitem hongbao). rq_selfname req = rl_name item
        then chain unlock_it (\<lambda>_. ret (True, rob_failed req ''you have robed'' resp))
        else if sh_leftcount hongbao = 0
        then chain unlock_it (\<lambda>_. ret (True, rob_failed req (CHR ''s'' # ''orry The red packets are gone'') resp))
        else chain (lift (take_share env (rq_selfname req) hongbao)) (\<lambda>(getmoney, left_count, hongbao').
             chain (on_redis pCacheConn (\<lambda>c. CacheConn_setpb (redis_api env) c strKey 86400
                      (length (serialize_hongbao env hongbao')) (serialize_hongbao env hongbao'))) (\<lambda>_.
             chain (on_mysql ml (\<lambda>m. Execute (mysql_api env) m (sql_credit (cents getmoney) (rq_selfname req)))) (\<lambda>_.
             chain unlock_it (\<lambda>_.
             ret (False, resp\<lparr>rp_hongbaokey := strKey, rp_sender := rq_sender req, rp_robmoney := cents getmoney,
                              rp_totalcount := sh_count hongbao, rp_leftcount := left_count, rp_isok := True,
                              rp_description := ''congratulation''\<rparr>))))))
      else ret (False, resp)))"

definition Business_RobHongbao ::
    "('w, 'q, 'r) businessEnv \<Rightarrow> reqrob_msg \<Rightarrow> resprob_msg \<Rightarrow> ('w, 'q, 'r, int \<times> resprob_msg) bprog" where
  "Business_RobHongbao env req resp =
     (if rq_hongbaokey req = [] then ret (- 1, rob_failed req ''hongbao key is NULL'' resp)
      else
      chain (get_link env) (\<lambda>ml.
      chain (get_manager env) (\<lambda>_.
      chain (get_cache env (redis_name (rq_sender req))) (\<lambda>pCacheConn.
      chain (rob_locked env req resp ml pCacheConn) (\<lambda>(returned, resp).
      if returned then ret (0, resp)
      else chain (rel_cache pCacheConn) (\<lambda>_.
           chain (rel_link ml) (\<lambda>_. ret (0, resp))))))))"


section \<open>How a red packet is split\<close>

lemma RAND_range: "1 \<le> RAND env 1 199 \<and> RAND env 1 199 \<le> 199"
proof -
  have "0 \<le> int (rand_after env (now env)) mod 199" "int (rand_after env (now env)) mod 199 < 199"
    by simp_all
  moreover have "199 - 1 + 1 = (199 :: int)"
    by simp
  ultimately show ?thesis
    unfolding RAND_def by simp
qed

lemma share_le:
  fixes remain rnd n :: int
  assumes "0 \<le> remain" and "2 \<le> n" and "1 \<le> rnd" and "rnd \<le> 199"
  shows "remain * rnd div 100 div n \<le> remain"
proof -
  have "remain * rnd div 100 div n = remain * rnd div (100 * n)"
    using assms(2) by (simp add: zdiv_zmult2_eq)
  also have "\<dots> \<le> remain * (100 * n) div (100 * n)"
    using assms by (intro zdiv_mono1 mult_left_mono) auto
  finally show ?thesis using assms(2) by simp
qed

text \<open>A share is never negative and never more than is left; the last one is all that is left.\<close>

lemma getRandomMoney_bounds:
  assumes "0 \<le> remain" and "1 \<le> rnd" and "rnd \<le> 199" and "0 < n" and "199 * remain < 2 ^ 31"
  shows "\<exists>m. getRandomMoney rnd remain n = Inr m \<and> 0 \<le> m \<and> m \<le> remain \<and> (n = 1 \<longrightarrow> m = remain)"
proof -
  have div: "0 \<le> remain div n" "remain div n \<le> remain"
    using assms zdiv_mono2 [of remain 1 n] by (simp_all add: pos_imp_zdiv_nonneg_iff)
  then have each: "check_int (c_div remain n) = Inr (remain div n)"
    using assms by (simp add: check_int_def c_div_nonneg)
  have "remain * rnd \<le> 199 * remain"
    using assms by (simp add: mult.commute mult_left_mono)
  moreover have nonneg: "0 \<le> remain * rnd"
    using assms by simp
  ultimately have "- (2 ^ 31) \<le> remain * rnd" "remain * rnd < 2 ^ 31"
    using assms(5) by linarith+
  note product = nonneg check_int_ok [OF this]
  show ?thesis
  proof (cases "remain div n = 1 \<or> n = 1")
    case True
    then show ?thesis
      using each assms div by (auto simp: getRandomMoney_def)
  next
    case False
    then have n: "2 \<le> n" using assms(4) by auto
    let ?m = "remain * rnd div 100 div n"
    have m: "0 \<le> ?m" "?m \<le> remain"
      using product(1) n share_le [OF assms(1) n assms(2,3)] by (simp_all add: pos_imp_zdiv_nonneg_iff)
    have "check_int ?m = Inr ?m"
      using m assms(5) by (intro check_int_ok) auto
    then have "getRandomMoney rnd remain n = Inr ?m"
      using False each product n by (simp add: getRandomMoney_def c_div_nonneg pos_imp_zdiv_nonneg_iff)
    with m show ?thesis using n by auto
  qed
qed

text \<open>All draws of a packet of \<open>n\<close> shares, in cents.\<close>

fun all_shares :: "int list \<Rightarrow> int \<Rightarrow> int \<Rightarrow> int list res" where
  "all_shares [] remain n = Inr []"
| "all_shares (rnd # rnds) remain n =
     andThen (getRandomMoney rnd remain n) (\<lambda>m.
     andThen (all_shares rnds (remain - m) (n - 1)) (\<lambda>ms. Inr (m # ms)))"

lemma all_shares_sum:
  assumes "\<forall>r \<in> set rnds. 1 \<le> r \<and> r \<le> 199" and "0 \<le> remain" and "199 * remain < 2 ^ 31" and "rnds \<noteq> []"
    and "n = int (length rnds)"
  shows "\<exists>ms. all_shares rnds remain n = Inr ms \<and> length ms = length rnds \<and> (\<forall>m \<in> set ms. 0 \<le> m) \<and> sum_list ms = remain"
  using assms
proof (induction rnds arbitrary: remain n)
  case (Cons r rnds)
  then obtain m where m: "getRandomMoney r remain n = Inr m" "0 \<le> m" "m \<le> remain" "n = 1 \<longrightarrow> m = remain"
    using getRandomMoney_bounds [of remain r n] by auto
  show ?case
  proof (cases "rnds = []")
    case True
    with m Cons.prems(5) show ?thesis by simp
  next
    case False
    with Cons.IH [of "remain - m" "n - 1"] Cons.prems m obtain ms where
      "all_shares rnds (remain - m) (n - 1) = Inr ms" "length ms = length rnds" "\<forall>m \<in> set ms. 0 \<le> m"
      "sum_list ms = remain - m"
      by auto
    with m show ?thesis by simp
  qed
qed simp

end
