(* ===== verification/Hongbao.thy ===== *)
theory Hongbao
  imports Business
begin

text \<open>
  The life of a red packet under the requests for a share. \<open>rob_packet\<close> is what one request does to
  the stored packet; the lemmas bound the rounding of the \<^verbatim>\<open>double\<close> amounts, so that the cents paid
  out can be compared with the money put in.
\<close>

section \<open>Amounts\<close>

lemma cents_near:
  assumes "0 \<le> m" and "m < 2 ^ 24"
  shows "\<exists>c. cents m = Fin c \<and> \<bar>c - of_int m / 100\<bar> \<le> 1 / 10000000000"
proof -
  have m: "\<bar>of_int m :: rat\<bar> < 2 ^ 24"
    using assms by simp
  obtain r where r: "d_of_int m = Fin r" "\<bar>r - of_int m\<bar> \<le> 1 / 1000000000"
    using round_double_near_24 [OF m] by (auto simp: d_of_int_def)
  moreover have "1 / 1000000000 < (1 :: rat)"
    by simp
  ultimately have "\<bar>r\<bar> < 2 ^ 24 + 1"
    using m by linarith
  then have "\<bar>r * (1 / 100)\<bar> < 2 ^ 18"
    by (simp add: abs_mult)
  then obtain c where "round_double (r * (1 / 100)) = Fin c" "\<bar>c - r * (1 / 100)\<bar> \<le> 2 / 100000000000"
    using round_double_near [of "r * (1 / 100)" 17] by (auto simp: pow2_def)
  moreover from this(2) r(2) have "\<bar>c - of_int m / 100\<bar> \<le> 1 / 10000000000"
    by linarith
  ultimately show ?thesis
    using r(1) by simp
qed

lemma remain_bounds:
  assumes "- 1 / 1000 \<le> q" and "q \<le> 100001"
  shows "\<exists>n. d_to_int (d_scale (Fin q) 100) = Inr n \<and> 0 \<le> n \<and> n \<le> 10000101 \<and>
    of_int n \<le> max 0 (100 * q) + 1 / 1000000000"
proof -
  have "\<bar>q * 100\<bar> < 2 ^ 24"
    using assms by (simp add: abs_if)
  then obtain r where r: "round_double (q * 100) = Fin r" "\<bar>r - q * 100\<bar> \<le> 1 / 1000000000"
    using round_double_near_24 by blast
  moreover have "1 / 1000000000 < (1 / 1000 :: rat)"
    by simp
  ultimately have range: "- 1 < r" "r < 10000101"
    using assms by linarith+
  show ?thesis
  proof (cases "0 \<le> r")
    case True
    have "0 \<le> \<lfloor>r\<rfloor>" "\<lfloor>r\<rfloor> < 10000101" "of_int \<lfloor>r\<rfloor> \<le> r"
      using True range by (simp_all add: floor_less_iff)
    moreover from this(3) r(2) have "of_int \<lfloor>r\<rfloor> \<le> max 0 (100 * q) + 1 / 1000000000"
      by linarith
    ultimately show ?thesis
      using True r(1) by auto
  next
    case False
    then have "\<lceil>r\<rceil> = 0"
      using range by (simp add: ceiling_eq_iff)
    with False r(1) show ?thesis by (simp add: max_def)
  qed
qed

text \<open>
  One share: it is not negative, the request returns, and what is left is the difference, up to
  rounding.
\<close>

lemma take_share_step:
  assumes "sh_leftmoney h = Fin q" and "- 1 / 1000 \<le> q" and "q \<le> 100001"
    and "0 < sh_leftcount h" and "sh_leftcount h < 2 ^ 31"
  shows "\<exists>m q'. 0 \<le> m \<and> \<bar>q' - (q - of_int m / 100)\<bar> \<le> 1 / 1000000000 \<and> min q 0 - 1 / 1000000000 \<le> q' \<and>
    take_share env name h =
      Inr (m, sh_leftcount h - 1,
           h\<lparr>sh_leftmoney := Fin q', sh_leftcount := sh_leftcount h - 1,
             sh_robitem := sh_robitem h @ [\<lparr>rl_name = name, rl_money = cents m, rl_time = int (now env)\<rparr>]\<rparr>)"
proof -
  obtain n where n: "d_to_int (d_scale (Fin q) 100) = Inr n" "0 \<le> n" "n \<le> 10000101"
      "of_int n \<le> max 0 (100 * q) + 1 / 1000000000"
    using remain_bounds [OF assms(2,3)] by blast
  obtain m where m: "getRandomMoney (RAND env 1 199) n (sh_leftcount h) = Inr m" "0 \<le> m" "m \<le> n"
    using getRandomMoney_bounds [of n "RAND env 1 199" "sh_leftcount h"] n(2,3) RAND_range [of env] assms(4) by auto
  obtain c where c: "cents m = Fin c" "\<bar>c - of_int m / 100\<bar> \<le> 1 / 10000000000"
    using cents_near [of m] m n(3) by auto
  have mn: "of_int m \<le> (of_int n :: rat)" "of_int n \<le> (10000101 :: rat)" "0 \<le> (of_int m :: rat)"
    using m n(3) of_int_le_iff [of n 10000101, where 'a = rat] by simp_all
  then have "\<bar>q - c\<bar> < 131072"
    using c(2) assms(2,3) by linarith
  then have "\<bar>q - c\<bar> < 2 ^ 17"
    by simp
  then obtain q' where q': "round_double (q - c) = Fin q'" "\<bar>q' - (q - c)\<bar> \<le> 1 / 100000000000"
    using round_double_near_17 by blast
  have "to_int32 (sh_leftcount h) = sh_leftcount h" "check_int (sh_leftcount h - 1) = Inr (sh_leftcount h - 1)"
    using assms(4,5) by (simp_all add: to_int32_id check_int_def)
  then have "take_share env name h =
      Inr (m, sh_leftcount h - 1,
           h\<lparr>sh_leftmoney := Fin q', sh_leftcount := sh_leftcount h - 1,
             sh_robitem := sh_robitem h @ [\<lparr>rl_name = name, rl_money = cents m, rl_time = int (now env)\<rparr>]\<rparr>)"
    using n(1) m(1) c(1) q'(1) assms(1,4) by (simp add: take_share_def Let_def)
  moreover have "\<bar>q' - (q - of_int m / 100)\<bar> \<le> 1 / 1000000000"
    using q'(2) c(2) by linarith
  moreover have "min q 0 - 1 / 1000000000 \<le> q'"
  proof (cases "0 \<le> q")
    case True
    with n(4) mn have "of_int m \<le> 100 * q + 1 / 1000000000" by (simp add: max_def)
    with True q'(2) c(2) show ?thesis by linarith
  next
    case False
    with n(4) mn have "of_int m \<le> (1 / 1000000000 :: rat)" by (simp add: max_def split: if_splits)
    then have "(of_int m :: rat) < of_int 1" by simp
    with m(2) have "m = 0" by (simp only: of_int_less_iff)
    with False q'(2) c(2) show ?thesis by linarith
  qed
  ultimately show ?thesis using m(2) by blast
qed


section \<open>A packet under any sequence of requests\<close>

text \<open>
  What a request for a share does to the packet (\<^verbatim>\<open>RobHongbao\<close> between \<^verbatim>\<open>getpb\<close> and \<^verbatim>\<open>setpb\<close>): nothing
  if the user has a share already or none is left. \<open>rob_all\<close> is a sequence of such requests, each
  with its own clock and random number.
\<close>

definition rob_packet :: "('w, 'q, 'r) businessEnv \<Rightarrow> string \<Rightarrow> sendhongbao_msg \<Rightarrow> sendhongbao_msg res" where
  "rob_packet env name h =
     (if (\<exists>item \<in> set (sh_robitem h). name = rl_name item) \<or> sh_leftcount h = 0 then Inr h
      else andThen (take_share env name h) (\<lambda>(_, _, h'). Inr h'))"

fun rob_all :: "(('w, 'q, 'r) businessEnv \<times> string) list \<Rightarrow> sendhongbao_msg \<Rightarrow> sendhongbao_msg res" where
  "rob_all [] h = Inr h"
| "rob_all ((env, name) # rs) h = andThen (rob_packet env name h) (rob_all rs)"

definition shares_ok :: "hongbaoreq_msg \<Rightarrow> sendhongbao_msg \<Rightarrow> bool" where
  "shares_ok req h \<longleftrightarrow>
     distinct (map rl_name (sh_robitem h)) \<and> 0 \<le> sh_leftcount h \<and>
     int (length (sh_robitem h)) + sh_leftcount h = hr_count req"

text \<open>\<open>paid\<close> are the cents of the shares; \<open>k\<close> bounds the rounding errors so far.\<close>

definition money_ok :: "rat \<Rightarrow> int list \<Rightarrow> sendhongbao_msg \<Rightarrow> bool" where
  "money_ok stake paid h \<longleftrightarrow>
     map rl_money (sh_robitem h) = map cents paid \<and> (\<forall>m \<in> set paid. 0 \<le> m) \<and>
     (\<exists>q. sh_leftmoney h = Fin q \<and> - (of_nat (length paid) / 1000000000) \<le> q \<and>
          \<bar>stake - of_int (sum_list paid) / 100 - q\<bar> \<le> of_nat (length paid) / 1000000000)"

lemma money_ok_bounds:
  assumes "money_ok stake paid h" and "length paid \<le> 1000000" and "0 \<le> stake" and "stake \<le> 100000"
  shows "\<exists>q. sh_leftmoney h = Fin q \<and> - 1 / 1000 \<le> q \<and> q \<le> 100001"
proof -
  obtain q where q: "sh_leftmoney h = Fin q" "- (of_nat (length paid) / 1000000000) \<le> q"
      "\<bar>stake - of_int (sum_list paid) / 100 - q\<bar> \<le> of_nat (length paid) / 1000000000"
    using assms(1) by (auto simp: money_ok_def)
  have "(of_nat (length paid) :: rat) \<le> of_nat 1000000"
    using assms(2) by (simp only: of_nat_le_iff)
  then have "of_nat (length paid) / 1000000000 \<le> (1 / 1000 :: rat)"
    by simp
  moreover have "0 \<le> (of_int (sum_list paid) :: rat)"
    using assms(1) by (auto simp: money_ok_def intro: sum_list_nonneg)
  ultimately show ?thesis
    using q assms(3,4) by (intro exI [of _ q]) linarith
qed

lemma rob_packet_step:
  assumes "shares_ok req h" and "money_ok stake paid h" and "hr_count req \<le> 1000000"
    and "0 \<le> stake" and "stake \<le> 100000"
  shows "\<exists>h' paid'. rob_packet env name h = Inr h' \<and> shares_ok req h' \<and> money_ok stake paid' h'"
proof (cases "(\<exists>item \<in> set (sh_robitem h). name = rl_name item) \<or> sh_leftcount h = 0")
  case True
  with assms(1,2) show ?thesis by (auto simp: rob_packet_def)
next
  case False
  have len: "length paid = length (sh_robitem h)"
    using assms(2) by (auto simp: money_ok_def dest: map_eq_imp_length_eq)
  then have "length paid \<le> 1000000"
    using assms(1,3) by (simp add: shares_ok_def)
  from money_ok_bounds [OF assms(2) this assms(4,5)] obtain q where
    q: "sh_leftmoney h = Fin q" "- 1 / 1000 \<le> q" "q \<le> 100001" by blast
  have "0 < sh_leftcount h" "sh_leftcount h < 2 ^ 31"
    using False assms(1,3) by (auto simp: shares_ok_def)
  then obtain m q' where m: "0 \<le> m" "\<bar>q' - (q - of_int m / 100)\<bar> \<le> 1 / 1000000000" "min q 0 - 1 / 1000000000 \<le> q'"
      "take_share env name h =
        Inr (m, sh_leftcount h - 1,
             h\<lparr>sh_leftmoney := Fin q', sh_leftcount := sh_leftcount h - 1,
               sh_robitem := sh_robitem h @ [\<lparr>rl_name = name, rl_money = cents m, rl_time = int (now env)\<rparr>]\<rparr>)"
    (is "_ = Inr (_, _, ?h')")
    using take_share_step [OF q, of env name] by blast
  have "rob_packet env name h = Inr ?h'"
    using False m(4) by (auto simp: rob_packet_def)
  moreover have "shares_ok req ?h'"
    using False assms(1) by (auto simp: shares_ok_def)
  moreover have "money_ok stake (paid @ [m]) ?h'"
    unfolding money_ok_def
  proof (intro conjI exI [of _ q'])
    have old: "- (of_nat (length paid) / 1000000000) \<le> q"
        "\<bar>stake - of_int (sum_list paid) / 100 - q\<bar> \<le> of_nat (length paid) / 1000000000"
      using assms(2) q(1) by (auto simp: money_ok_def)
    moreover have "0 \<le> (of_nat (length paid) / 1000000000 :: rat)" by simp
    moreover have suc: "of_nat (length (paid @ [m])) / 1000000000 = of_nat (length paid) / 1000000000 + (1 / 1000000000 :: rat)"
      by (simp add: add_divide_distrib)
    ultimately show "- (of_nat (length (paid @ [m])) / 1000000000) \<le> q'"
      using m(3) by linarith
    show "\<bar>stake - of_int (sum_list (paid @ [m])) / 100 - q'\<bar> \<le> of_nat (length (paid @ [m])) / 1000000000"
      unfolding suc sum_list_append sum_list_simps of_int_add add_divide_distrib
      using m(2) old(2) by linarith
  qed (use assms(2) m(1) in \<open>auto simp: money_ok_def\<close>)
  ultimately show ?thesis by blast
qed

lemma rob_all_steps:
  assumes "shares_ok req h" and "money_ok stake paid h" and "hr_count req \<le> 1000000"
    and "0 \<le> stake" and "stake \<le> 100000"
  shows "\<exists>h' paid'. rob_all rs h = Inr h' \<and> shares_ok req h' \<and> money_ok stake paid' h'"
  using assms(1,2)
proof (induction rs arbitrary: h paid)
  case (Cons r rs)
  obtain env name where r: "r = (env, name)" by fastforce
  obtain h1 paid1 where "rob_packet env name h = Inr h1" "shares_ok req h1" "money_ok stake paid1 h1"
    using rob_packet_step [OF Cons.prems assms(3-5)] by blast
  with Cons.IH [of h1 paid1] show ?case by (auto simp: r)
qed auto


section \<open>The locked section implements the step on the stored packet\<close>

definition with_objs :: "'w cacheState \<Rightarrow> ('w, 'q, 'r) businessWorld \<Rightarrow> ('w, 'q, 'r) businessWorld" where
  "with_objs os s = s\<lparr>caches := (caches s)\<lparr>objs := os\<rparr>\<rparr>"

lemma with_objs_simps [simp]:
  "objs (caches (with_objs os s)) = os" "links (with_objs os s) = links s"
  "cache_manager (caches (with_objs os s)) = cache_manager (caches s)"
  "with_objs os (with_objs os' s) = with_objs os s"
  "with_objs os (s\<lparr>links := ls\<rparr>) = (with_objs os s)\<lparr>links := ls\<rparr>"
  by (simp_all add: with_objs_def)

lemma on_conn_Inr:
  "m (objs (caches s)) = Inr (x, os) \<Longrightarrow> cacheW (on_conn m) s = Inr (x, with_objs os s)"
  by (simp add: cacheW_def on_conn_def with_objs_def)

lemma on_mysql_usable:
  assumes "keeps_usable m (f m)" and "usable m (snd (links s))"
  shows "\<exists>x ms. on_mysql (Some m) f s = Inr (x, s\<lparr>links := (fst (links s), ms)\<rparr>) \<and> usable m ms"
  using yieldsD [OF assms] by (auto simp: deref_def linkW_def mysqls_def)

text \<open>What the protocol buffer runtime promises for a packet that can be stored.\<close>

definition storable :: "('w, 'q, 'r) businessEnv \<Rightarrow> sendhongbao_msg \<Rightarrow> bool" where
  "storable env h \<longleftrightarrow>
     (let bs = serialize_hongbao env h
      in bs \<noteq> [] \<and> length bs < sizeof_setpb_value \<and> tilde \<notin> set bs \<and> parse_hongbao env bs = Some h)"

definition stored :: "('w, 'q, 'r) businessEnv \<Rightarrow> ('w \<Rightarrow> string \<rightharpoonup> string) \<Rightarrow> string \<Rightarrow> sendhongbao_msg \<Rightarrow> 'w \<Rightarrow> bool" where
  "stored env val key h w \<longleftrightarrow> val w key = Some (map zeroToTilde (serialize_hongbao env h))"

lemma getpb_stored:
  assumes "redis_kv (redis_api env) val" and "conn_heap os c = Some conn" and "stored env val key h (redis os)"
    and "NUL \<notin> set key" and "storable env h"
  shows "\<exists>w. val w = val (redis os) \<and>
    CacheConn_getpb (redis_api env) (parse_hongbao env) c key obj os =
      Inr ((serialize_hongbao env h, h), after_reply c conn w os)"
proof -
  have "replaceToZero (map zeroToTilde (serialize_hongbao env h)) = serialize_hongbao env h"
    using assms(5) by (simp add: replace_roundtrip_iff storable_def Let_def)
  then show ?thesis
    using getpb_result [OF assms(1,2), of key "serialize_hongbao env h" "parse_hongbao env" obj] assms(3-5)
    by (auto simp: stored_def storable_def Let_def c_str_no_nul)
qed

text \<open>The state of the Redis objects while the lock of \<open>key\<close> is held over connection \<open>c\<close>.\<close>

definition holding :: "('w \<Rightarrow> string set) \<Rightarrow> string \<Rightarrow> nat \<Rightarrow> redisLock \<Rightarrow> 'w cacheState \<Rightarrow> bool" where
  "holding present key c l os \<longleftrightarrow>
     locked l \<and> m_cacheconn l = c \<and> lock_key l = key \<and> (\<exists>conn. conn_heap os c = Some conn)"

lemma unlock_holding:
  assumes "redis_lock (redis_api env) val present" and "holding present key c l (objs (caches s))" and "NUL \<notin> set key"
  shows "\<exists>l' os. cacheW (on_conn (unlock (redis_api env) l)) s = Inr ((0, l'), with_objs os s) \<and>
    val (redis os) = (val (redis (objs (caches s))))(key @ ''_Lock'' := None) \<and>
    key @ ''_Lock'' \<notin> present (redis os)"
proof -
  have "c_str (GetLockKey l) = key @ ''_Lock''"
    using assms(2,3) by (simp add: GetLockKey_def holding_def c_str_no_nul)
  then obtain os where "unlock (redis_api env) l (objs (caches s)) = Inr ((0, l\<lparr>locked := False\<rparr>), os)"
      "val (redis os) = (val (redis (objs (caches s))))(key @ ''_Lock'' := None)" "key @ ''_Lock'' \<notin> present (redis os)"
    using unlock_result [OF assms(1), of "objs (caches s)" l] assms(2) by (auto simp: holding_def)
  then show ?thesis
    using on_conn_Inr [of "unlock (redis_api env) l" s] by blast
qed

lemma lock_holding:
  assumes "redis_lock (redis_api env) val present" and "conn_heap (objs (caches s)) c = Some conn"
    and "key @ ''_Lock'' \<notin> present (redis (objs (caches s)))" and "NUL \<notin> set key"
  shows "\<exists>l os t. on_redis (Some c) (\<lambda>c. lock (redis_api env) time (RedisLock_ctor c name key expire)) s =
      Inr ((True, l), with_objs os s) \<and>
    holding present key c l os \<and> val (redis os) = (val (redis (objs (caches s))))(key @ ''_Lock'' \<mapsto> t)"
proof -
  let ?l = "RedisLock_ctor c name key expire"
  have l: "m_cacheconn ?l = c" "\<not> locked ?l" "c_str (GetLockKey ?l) = key @ ''_Lock''" "lock_key ?l = key"
    using assms(4) by (simp_all add: RedisLock_ctor_def GetLockKey_def c_str_no_nul)
  obtain os t c' where "lock (redis_api env) time ?l (objs (caches s)) =
        Inr ((True, ?l\<lparr>locked := True, lockTimestamp := Some t\<rparr>), os)"
      "val (redis os) = (val (redis (objs (caches s))))(key @ ''_Lock'' \<mapsto> to_string t)"
      "conn_heap os = (conn_heap (objs (caches s)))(c \<mapsto> c')"
    using lock_free [OF assms(1), of "objs (caches s)" ?l conn time] assms(2,3) l by auto
  then show ?thesis
    using l on_conn_Inr [of "lock (redis_api env) time ?l" s]
    by (intro exI conjI) (auto simp: deref_def holding_def)
qed

lemma holding_after_reply:
  "holding present key c l os \<Longrightarrow> conn_heap os c = Some conn \<Longrightarrow> holding present key c l (after_reply c conn w os)"
  by (simp add: holding_def)

text \<open>Lines of the function after the lock was taken and the packet read.\<close>

lemma rob_locked_read:
  assumes "redis_lock (redis_api env) val present" and "conn_heap (objs (caches s)) c = Some conn"
    and "key @ ''_Lock'' \<notin> present (redis (objs (caches s)))" and "NUL \<notin> set key"
    and "stored env val key h (redis (objs (caches s)))" and "storable env h" and "rq_hongbaokey req = key"
  shows "\<exists>l os. holding present key c l os \<and>
    (\<forall>k. k \<noteq> key @ ''_Lock'' \<longrightarrow> val (redis os) k = val (redis (objs (caches s))) k) \<and>
    rob_locked env req resp ml (Some c) s =
      (let unlock_it = cacheW (on_conn (unlock (redis_api env) l)) in
       if \<exists>item \<in> set (sh_robitem h). rq_selfname req = rl_name item
       then chain unlock_it (\<lambda>_. ret (True, rob_failed req ''you have robed'' resp))
       else if sh_leftcount h = 0
       then chain unlock_it (\<lambda>_. ret (True, rob_failed req (CHR ''s'' # ''orry The red packets are gone'') resp))
       else chain (lift (take_share env (rq_selfname req) h)) (\<lambda>(getmoney, left_count, hongbao').
            chain (on_redis (Some c) (\<lambda>c. CacheConn_setpb (redis_api env) c key 86400
                     (length (serialize_hongbao env hongbao')) (serialize_hongbao env hongbao'))) (\<lambda>_.
            chain (on_mysql ml (\<lambda>m. Execute (mysql_api env) m (sql_credit (cents getmoney) (rq_selfname req)))) (\<lambda>_.
            chain unlock_it (\<lambda>_.
            ret (False, resp\<lparr>rp_hongbaokey := key, rp_sender := rq_sender req, rp_robmoney := cents getmoney,
                             rp_totalcount := sh_count h, rp_leftcount := left_count, rp_isok := True,
                             rp_description := ''congratulation''\<rparr>)))))) (with_objs os s)"
proof -
  obtain l os1 t where lock: "on_redis (Some c) (\<lambda>c. lock (redis_api env) (now env)
         (RedisLock_ctor c (redis_name (rq_sender req)) key 50000)) s = Inr ((True, l), with_objs os1 s)"
      "holding present key c l os1" "val (redis os1) = (val (redis (objs (caches s))))(key @ ''_Lock'' \<mapsto> t)"
    using lock_holding [OF assms(1-4)] by blast
  obtain conn1 where conn1: "conn_heap os1 c = Some conn1"
    using lock(2) by (auto simp: holding_def)
  have "stored env val key h (redis os1)"
    using assms(5) lock(3) by (simp add: stored_def)
  from getpb_stored [OF redis_lock_kv [OF assms(1)] conn1 this assms(4,6), of new_sendhongbao] obtain w where
    w: "val w = val (redis os1)" "CacheConn_getpb (redis_api env) (parse_hongbao env) c key new_sendhongbao os1 =
      Inr ((serialize_hongbao env h, h), after_reply c conn1 w os1)" by blast
  let ?os = "after_reply c conn1 w os1"
  have get: "on_redis (Some c) (\<lambda>c. CacheConn_getpb (redis_api env) (parse_hongbao env) c key new_sendhongbao) (with_objs os1 s) =
      Inr ((serialize_hongbao env h, h), with_objs ?os s)"
    using w(2) by (simp add: deref_def on_conn_Inr)
  have "serialize_hongbao env h \<noteq> []"
    using assms(6) by (simp add: storable_def Let_def)
  then show ?thesis
    using holding_after_reply [OF lock(2) conn1, of w] w(1) lock(3)
    by (intro exI [of _ l] exI [of _ ?os]) (simp add: rob_locked_def Let_def assms(7) chain_Inr lock(1) get)
qed

lemma unlock_and_return:
  assumes "redis_lock (redis_api env) val present" and "holding present key c l (objs (caches s))" and "NUL \<notin> set key"
    and "stored env val key h (redis (objs (caches s)))"
  shows "\<exists>s'. chain (cacheW (on_conn (unlock (redis_api env) l))) (\<lambda>_. ret r) s = Inr (r, s') \<and>
    stored env val key h (redis (objs (caches s'))) \<and> key @ ''_Lock'' \<notin> present (redis (objs (caches s'))) \<and>
    (\<forall>k. k \<noteq> key @ ''_Lock'' \<longrightarrow> val (redis (objs (caches s'))) k = val (redis (objs (caches s))) k)"
proof -
  obtain l' os where os: "cacheW (on_conn (unlock (redis_api env) l)) s = Inr ((0, l'), with_objs os s)"
      "val (redis os) = (val (redis (objs (caches s))))(key @ ''_Lock'' := None)" "key @ ''_Lock'' \<notin> present (redis os)"
    using unlock_holding [OF assms(1-3)] by blast
  then show ?thesis
    using assms(4) by (intro exI [of _ "with_objs os s"]) (simp add: chain_Inr ret_apply stored_def)
qed

lemma setpb_stored:
  assumes "redis_kv (redis_api env) val" and "conn_heap (objs (caches s)) c = Some conn" and "storable env h"
    and "NUL \<notin> set key"
  shows "\<exists>w. on_redis (Some c) (\<lambda>c. CacheConn_setpb (redis_api env) c key 86400
      (length (serialize_hongbao env h)) (serialize_hongbao env h)) s =
        Inr (''OK'', with_objs (after_reply c conn w (objs (caches s))) s) \<and>
      val w = (val (redis (objs (caches s))))(key \<mapsto> map zeroToTilde (serialize_hongbao env h))"
proof -
  have "length (serialize_hongbao env h) < sizeof_setpb_value"
    using assms(3) by (simp add: storable_def Let_def)
  from setpb_result [OF assms(1,2) _ this, of 86400 key] assms(4) show ?thesis
    by (auto simp: deref_def c_str_no_nul intro: on_conn_Inr)
qed

lemma rob_locked_refused:
  assumes "redis_lock (redis_api env) val present" and "conn_heap (objs (caches s)) c = Some conn"
    and "key @ ''_Lock'' \<notin> present (redis (objs (caches s)))" and "NUL \<notin> set key"
    and "stored env val key h (redis (objs (caches s)))" and "storable env h" and "rq_hongbaokey req = key"
    and "(\<exists>item \<in> set (sh_robitem h). rq_selfname req = rl_name item) \<or> sh_leftcount h = 0"
  shows "\<exists>resp' s'. rob_locked env req resp ml (Some c) s = Inr ((True, resp'), s') \<and> \<not> rp_isok resp' \<and>
    stored env val key h (redis (objs (caches s'))) \<and> key @ ''_Lock'' \<notin> present (redis (objs (caches s'))) \<and>
    (\<forall>k. k \<notin> {key, key @ ''_Lock''} \<longrightarrow> val (redis (objs (caches s'))) k = val (redis (objs (caches s))) k)"
proof -
  define msg where "msg = (if \<exists>item \<in> set (sh_robitem h). rq_selfname req = rl_name item
    then ''you have robed'' else (CHR ''s'' # ''orry The red packets are gone''))"
  obtain l os where l: "holding present key c l os"
      "\<forall>k. k \<noteq> key @ ''_Lock'' \<longrightarrow> val (redis os) k = val (redis (objs (caches s))) k"
    and run: "rob_locked env req resp ml (Some c) s =
      chain (cacheW (on_conn (unlock (redis_api env) l))) (\<lambda>_. ret (True, rob_failed req msg resp)) (with_objs os s)"
    using rob_locked_read [OF assms(1-7), of resp ml] assms(8) unfolding Let_def msg_def
    by (cases "\<exists>item \<in> set (sh_robitem h). rq_selfname req = rl_name item") auto
  have "stored env val key h (redis os)"
    using assms(5) l(2) by (simp add: stored_def)
  then show ?thesis
    unfolding run
    using unlock_and_return [OF assms(1), of key c l "with_objs os s" h "(True, rob_failed req msg resp)"] l assms(4)
    by (auto simp: rob_failed_def)
qed

lemma rob_locked_granted:
  assumes "redis_lock (redis_api env) val present" and "conn_heap (objs (caches s)) c = Some conn"
    and "key @ ''_Lock'' \<notin> present (redis (objs (caches s)))" and "NUL \<notin> set key"
    and "stored env val key h (redis (objs (caches s)))" and "storable env h" and "rq_hongbaokey req = key"
    and "\<not> ((\<exists>item \<in> set (sh_robitem h). rq_selfname req = rl_name item) \<or> sh_leftcount h = 0)"
    and "take_share env (rq_selfname req) h = Inr (getmoney, left_count, h')" and "storable env h'"
    and "usable m (snd (links s))"
  shows "\<exists>resp' s'. rob_locked env req resp (Some m) (Some c) s = Inr ((False, resp'), s') \<and> rp_isok resp' \<and>
    stored env val key h' (redis (objs (caches s'))) \<and> key @ ''_Lock'' \<notin> present (redis (objs (caches s'))) \<and>
    (\<forall>k. k \<notin> {key, key @ ''_Lock''} \<longrightarrow> val (redis (objs (caches s'))) k = val (redis (objs (caches s))) k)"
proof -
  obtain l os where l: "holding present key c l os"
      "\<forall>k. k \<noteq> key @ ''_Lock'' \<longrightarrow> val (redis os) k = val (redis (objs (caches s))) k"
    and run: "rob_locked env req resp (Some m) (Some c) s = 
      chain (on_redis (Some c) (\<lambda>c. CacheConn_setpb (redis_api env) c key 86400
               (length (serialize_hongbao env h')) (serialize_hongbao env h'))) (\<lambda>_.
      chain (on_mysql (Some m) (\<lambda>m. Execute (mysql_api env) m (sql_credit (cents getmoney) (rq_selfname req)))) (\<lambda>_.
      chain (cacheW (on_conn (unlock (redis_api env) l))) (\<lambda>_.
      ret (False, resp\<lparr>rp_hongbaokey := key, rp_sender := rq_sender req, rp_robmoney := cents getmoney,
                       rp_totalcount := sh_count h, rp_leftcount := left_count, rp_isok := True,
                       rp_description := ''congratulation''\<rparr>)))) (with_objs os s)"
    using rob_locked_read [OF assms(1-7), of resp "Some m"] assms(8,9) by (auto simp: Let_def lift_Inr)
  obtain conn1 where conn1: "conn_heap os c = Some conn1"
    using l(1) by (auto simp: holding_def)
  let ?s1 = "with_objs os s"
  obtain w where w: "on_redis (Some c) (\<lambda>c. CacheConn_setpb (redis_api env) c key 86400
      (length (serialize_hongbao env h')) (serialize_hongbao env h')) ?s1 =
        Inr (''OK'', with_objs (after_reply c conn1 w os) s)"
      "val w = (val (redis os))(key \<mapsto> map zeroToTilde (serialize_hongbao env h'))"
    using setpb_stored [OF redis_lock_kv [OF assms(1)], of ?s1 c conn1 h' key] conn1 assms(4,10) by auto
  let ?s2 = "with_objs (after_reply c conn1 w os) s"
  obtain x ms where x: "on_mysql (Some m) (\<lambda>m. Execute (mysql_api env) m (sql_credit (cents getmoney) (rq_selfname req))) ?s2 =
      Inr (x, ?s2\<lparr>links := (fst (links s), ms)\<rparr>)"
    using on_mysql_usable [where f = "\<lambda>m. Execute (mysql_api env) m (sql_credit (cents getmoney) (rq_selfname req))"
        and s = ?s2 and m = m, OF Execute_usable] assms(11) by auto
  let ?s3 = "?s2\<lparr>links := (fst (links s), ms)\<rparr>"
  have caches: "objs (caches ?s3) = after_reply c conn1 w os"
    by (simp add: with_objs_def)
  have "holding present key c l (objs (caches ?s3))" "stored env val key h' (redis (objs (caches ?s3)))"
    using holding_after_reply [OF l(1) conn1] w(2) by (simp_all add: caches stored_def)
  let ?resp = "resp\<lparr>rp_hongbaokey := key, rp_sender := rq_sender req, rp_robmoney := cents getmoney,
      rp_totalcount := sh_count h, rp_leftcount := left_count, rp_isok := True, rp_description := ''congratulation''\<rparr>"
  obtain s' where s': "chain (cacheW (on_conn (unlock (redis_api env) l))) (\<lambda>_. ret (False, ?resp)) ?s3 = Inr ((False, ?resp), s')"
      "stored env val key h' (redis (objs (caches s')))" "key @ ''_Lock'' \<notin> present (redis (objs (caches s')))"
      "\<forall>k. k \<noteq> key @ ''_Lock'' \<longrightarrow> val (redis (objs (caches s'))) k = val (redis (objs (caches ?s3))) k"
    using unlock_and_return [OF assms(1) \<open>holding present key c l (objs (caches ?s3))\<close> assms(4)
        \<open>stored env val key h' (redis (objs (caches ?s3)))\<close>, of "(False, ?resp)"] by blast
  show ?thesis
    unfolding run using w(2) l(2) s'
    by (intro exI [of _ ?resp] exI [of _ s']) (simp add: chain_Inr w(1) x caches)
qed


section \<open>Properties\<close>

text \<open>A packet of one empty share before and after it was taken, with an encoding for the two.\<close>

definition ref_packet :: sendhongbao_msg where
  "ref_packet = new_sendhongbao\<lparr>sh_sender := ''ann'', sh_count := 1, sh_leftcount := 1\<rparr>"

definition ref_packet_taken :: sendhongbao_msg where
  "ref_packet_taken =
     ref_packet\<lparr>sh_leftcount := 0, sh_robitem := [\<lparr>rl_name = ''bob'', rl_money = Fin 0, rl_time = 1000\<rparr>]\<rparr>"

definition ref_env :: "(string \<rightharpoonup> string + string list, unit, mysqlRow list \<times> nat) businessEnv" where
  "ref_env =
     \<lparr>redis_api = ref_redis, mysql_api = ref_mysql [], config_fopen = (\<lambda>_. None), now = 1000, rand_after = (\<lambda>n. n),
      serialize_session = (\<lambda>_. ''S''), parse_session = (\<lambda>_. None), parse_userinfo = (\<lambda>_. None),
      serialize_hongbao = (\<lambda>h. if sh_robitem h = [] then ''A'' else ''B''),
      parse_hongbao = (\<lambda>bs. Some (if bs = ''A'' then ref_packet else ref_packet_taken)),
      serialize_chat = (\<lambda>_. Some ''C''), parse_chat = (\<lambda>_. Some new_singlechat)\<rparr>"

definition ref_world :: "(string \<rightharpoonup> string + string list) \<Rightarrow>
    (string \<rightharpoonup> string + string list, unit, mysqlRow list \<times> nat) businessWorld" where
  "ref_world w =
     \<lparr>caches = \<lparr>cache_manager = Some Map.empty, objs = ref_state w\<rparr>,
      links = (\<lparr>curSize = 1, maxSize = 20, connList = [], Host = [], User = [], Pass = [], DB = [], Port = 3306\<rparr>,
               \<lparr>mysql = (), mysql_heap = [3 \<mapsto> empty_prop], next_mysql = 4\<rparr>),
      outbox = [], timers = []\<rparr>"

lemma ref_take_share:
  "take_share ref_env ''bob'' ref_packet = Inr (0, 0, ref_packet_taken)"
proof -
  have zero: "round_double 0 = Fin 0"
    by (simp add: round_double_def)
  have one: "to_int32 1 = 1"
    by (simp add: to_int32_id)
  show ?thesis
    by (simp add: take_share_def ref_packet_def ref_packet_taken_def new_sendhongbao_def getRandomMoney_def c_div_def
        check_int_def d_of_int_def ref_env_def Let_def zero one)
qed



text \<open>
  C16. A red packet of up to 100000 and up to a million shares under any sequence of requests, each
  with its own clock and random number: no request faults, nobody gets two shares, the shares
  taken and the shares left add up to the count, every share is a number of cents that is not
  negative, and what was paid out and what is left add up to the money put in, within a
  thousandth for the rounding of \<^verbatim>\<open>double\<close>.
\<close>

theorem red_packet_conservation:
  assumes "hr_money req = Fin q" and "0 \<le> q" and "q \<le> 100000" and "0 \<le> hr_count req" and "hr_count req \<le> 1000000"
  shows "\<exists>h paid left. rob_all rs (new_hongbao req) = Inr h \<and>
    distinct (map rl_name (sh_robitem h)) \<and> 0 \<le> sh_leftcount h \<and>
    int (length (sh_robitem h)) + sh_leftcount h = hr_count req \<and>
    map rl_money (sh_robitem h) = map cents paid \<and> (\<forall>m \<in> set paid. 0 \<le> m) \<and>
    sh_leftmoney h = Fin left \<and> - 1 / 1000 \<le> left \<and> \<bar>q - of_int (sum_list paid) / 100 - left\<bar> \<le> 1 / 1000"
proof -
  have "shares_ok req (new_hongbao req)" "money_ok q [] (new_hongbao req)"
    using assms(1,2,4) by (simp_all add: shares_ok_def money_ok_def new_hongbao_def)
  from rob_all_steps [OF this assms(5,2,3), of rs] obtain h paid where
    h: "rob_all rs (new_hongbao req) = Inr h" "shares_ok req h" "money_ok q paid h" by blast
  have "length paid = length (sh_robitem h)"
    using h(3) by (auto simp: money_ok_def dest: map_eq_imp_length_eq)
  with h(2) assms(5) have len: "length paid \<le> 1000000"
    by (simp add: shares_ok_def)
  then have "(of_nat (length paid) :: rat) \<le> of_nat 1000000"
    by (simp only: of_nat_le_iff)
  then have "of_nat (length paid) / 1000000000 \<le> (1 / 1000 :: rat)"
    by simp
  moreover obtain left where "sh_leftmoney h = Fin left" "- 1 / 1000 \<le> left"
      "\<bar>q - of_int (sum_list paid) / 100 - left\<bar> \<le> of_nat (length paid) / 1000000000"
    using money_ok_bounds [OF h(3) len assms(2,3)] h(3) by (auto simp: money_ok_def)
  ultimately show ?thesis
    using h by (intro exI [of _ h] exI [of _ paid] exI [of _ left]) (auto simp: shares_ok_def money_ok_def)
qed

theorem red_packet_conservation_witness:
  "\<exists>h. rob_all [(ref_env, ''bob''), (ref_env, ''cat''), (ref_env, ''bob'')]
     (new_hongbao (new_hongbaoreq\<lparr>hr_money := Fin 100, hr_count := 2\<rparr>)) = Inr h \<and>
     int (length (sh_robitem h)) + sh_leftcount h = 2"
  using red_packet_conservation [of "new_hongbaoreq\<lparr>hr_money := Fin 100, hr_count := 2\<rparr>" 100
      "[(ref_env, ''bob''), (ref_env, ''cat''), (ref_env, ''bob'')]"]
  by fastforce

text \<open>
  C18. The split itself, in cents: for amounts whose product with 199 is an \<^verbatim>\<open>int\<close>, the shares
  \<^verbatim>\<open>getRandomMoney\<close> gives for all the places of a packet, one after the other and for any random
  numbers between 1 and 199, are not negative and add up to the whole amount.
\<close>

theorem getRandomMoney_exact_split:
  assumes "\<forall>r \<in> set rnds. 1 \<le> r \<and> r \<le> 199" and "0 \<le> remain" and "199 * remain < 2 ^ 31" and "rnds \<noteq> []"
  shows "\<exists>ms. all_shares rnds remain (int (length rnds)) = Inr ms \<and> length ms = length rnds \<and>
    (\<forall>m \<in> set ms. 0 \<le> m) \<and> sum_list ms = remain"
  by (rule all_shares_sum [OF assms]) (rule refl)

theorem getRandomMoney_exact_split_witness:
  "\<exists>ms. all_shares [150, 20, 199] 1000 3 = Inr ms \<and> sum_list ms = 1000"
  using getRandomMoney_exact_split [of "[150, 20, 199]" 1000] by auto

text \<open>
  A cent is lost when the amount is not a \<^verbatim>\<open>double\<close>: the last share of a packet with 0.29 left is
  28 cents, and the packet then has no share left, so that \<^verbatim>\<open>StopRobHongbao\<close> does not refund the
  remaining cent.
\<close>

theorem last_share_loses_cent:
  "\<exists>h'. take_share env name (new_sendhongbao\<lparr>sh_leftmoney := atof ''0.29'', sh_leftcount := 1\<rparr>) = Inr (28, 0, h') \<and>
     sh_leftcount h' = 0"
proof -
  have "atof ''0.29'' = round_double (29 / 100)"
    by (simp add: atof_def is_space_def is_digit_def digits_value_def char_digit_def pow10_def exponent_of_def Let_def)
  also have "\<dots> = Fin (5224175567749775 / 18014398509481984)"
    by (subst round_double_eqI [of "-54"], simp_all add: pow2_def) (subst round_even_eqI [of _ 5224175567749775], simp_all)
  finally have left: "atof ''0.29'' = Fin (5224175567749775 / 18014398509481984)" .
  have "round_double (5224175567749775 / 18014398509481984 * 100) = Fin (8162774324609023 / 281474976710656)"
    by (subst round_double_eqI [of "-48"], simp_all add: pow2_def) (subst round_even_eqI [of _ 8162774324609023], simp_all)
  then have "d_to_int (d_scale (atof ''0.29'') 100) = Inr 28"
    by (simp add: left floor_eq_iff)
  moreover have "to_int32 1 = 1"
    by (simp add: to_int32_id)
  ultimately show ?thesis
    by (simp add: take_share_def new_sendhongbao_def getRandomMoney_def c_div_def check_int_def Let_def)
qed

end
