(* ===== verification/Server.thy ===== *)
theory Server
  imports Codec Hongbao
begin

text \<open>
  The server object (\<^verbatim>\<open>Server.h\<close>, \<^verbatim>\<open>Server.cc\<close>) and \<^verbatim>\<open>main\<close>: the map from user names to connections,
  the handlers of the request types, their registration with the dispatcher, and the receive
  path from the bytes of a connection to the handlers. A connection is its address; what
  \<^verbatim>\<open>codec_.send\<close> hands to \<^verbatim>\<open>TcpConnection::send\<close> is recorded in \<open>wire\<close>, the business functions run on
  \<open>world\<close>. What they give to \<^verbatim>\<open>GServer->send\<close> is sent when they return, in the same order. A handler runs
  to its end; the map is not protected against a second I/O thread, and this model has one.
\<close>

section \<open>Messages and state\<close>

text \<open>The messages of the requests and answers; the contents of the others do not matter here.\<close>

datatype other_type =
    AddFriend | GetFriendInfo | FriendInfo | FriendList | Session | UserInfo | SendHongbaoRecord | RobLog

datatype im_message =
    MLogin login_msg
  | MRegister register_msg
  | MSingleChat singlechat_msg
  | MGroupChat groupchat_msg
  | MHongbaoreq hongbaoreq_msg
  | MReqRobHongbao reqrob_msg
  | MResponse response_msg
  | MHongbaoResp hongbaoresp_msg
  | MRespRobHongbao resprob_msg
  | MOther other_type

fun type_name :: "im_message \<Rightarrow> string" where
  "type_name (MLogin _) = ''IM.Login''"
| "type_name (MRegister _) = ''IM.Register''"
| "type_name (MSingleChat _) = ''IM.SingleChat''"
| "type_name (MGroupChat _) = ''IM.GroupChat''"
| "type_name (MHongbaoreq _) = ''IM.Hongbaoreq''"
| "type_name (MReqRobHongbao _) = ''IM.ReqRobHongbao''"
| "type_name (MResponse _) = ''IM.Response''"
| "type_name (MHongbaoResp _) = ''IM.HongbaoResp''"
| "type_name (MRespRobHongbao _) = ''IM.RespRobHongbao''"
| "type_name (MOther t) =
     (case t of
        AddFriend \<Rightarrow> ''IM.AddFriend'' | GetFriendInfo \<Rightarrow> ''IM.GetFriendInfo'' | FriendInfo \<Rightarrow> ''IM.FriendInfo''
      | FriendList \<Rightarrow> ''IM.FriendList'' | Session \<Rightarrow> ''IM.Session'' | UserInfo \<Rightarrow> ''IM.UserInfo''
      | SendHongbaoRecord \<Rightarrow> ''IM.SendHongbao'' | RobLog \<Rightarrow> ''IM.RobLog'')"

text \<open>An entry of \<^verbatim>\<open>connMap_\<close> may hold a null pointer.\<close>

record ('w, 'q, 'r) serverState =
  connMap :: "string \<rightharpoonup> nat option"
  wire :: "(nat \<times> string) list"
  closing :: "nat set"
  world :: "('w, 'q, 'r) businessWorld"

type_synonym ('w, 'q, 'r, 'a) sprog = "(('w, 'q, 'r) serverState, 'a) prog"

type_synonym 'd im_pb = "(im_message, 'd) protobuf"


section \<open>Operations\<close>

definition codec_send :: "'d im_pb \<Rightarrow> nat \<Rightarrow> im_message \<Rightarrow> ('w, 'q, 'r, unit) sprog" where
  "codec_send pb conn m s =
     andThen (ProtobufCodec_send pb (\<lambda>b s. Inr (s\<lparr>wire := wire s @ [(conn, bytes b)]\<rparr>)) m s) (\<lambda>s. Inr ((), s))"

text \<open>\<^verbatim>\<open>connMap_[username]\<close> inserts a null pointer for a name that is not there.\<close>

definition getConnByUsername :: "string \<Rightarrow> ('w, 'q, 'r, nat option) sprog" where
  "getConnByUsername username s =
     (case connMap s username of
        Some p \<Rightarrow> Inr (p, s)
      | None \<Rightarrow> Inr (None, s\<lparr>connMap := (connMap s)(username \<mapsto> None)\<rparr>))"

definition saveUsernameConn :: "string \<Rightarrow> nat \<Rightarrow> ('w, 'q, 'r, unit) sprog" where
  "saveUsernameConn username conn = modify (\<lambda>s. s\<lparr>connMap := (connMap s)(username \<mapsto> Some conn)\<rparr>)"

text \<open>Erasing an element invalidates the iterator that the loop then increments.\<close>

definition delUsernameConn :: "nat \<Rightarrow> ('w, 'q, 'r, unit) sprog" where
  "delUsernameConn conn s =
     (if \<exists>name. connMap s name = Some (Some conn) then Inl (UndefinedBehaviour ''invalid iterator'') else Inr ((), s))"

definition Server_send :: "'d im_pb \<Rightarrow> string \<Rightarrow> im_message \<Rightarrow> ('w, 'q, 'r, unit) sprog" where
  "Server_send pb username message =
     chain (getConnByUsername username) (\<lambda>conn.
     case conn of Some conn \<Rightarrow> codec_send pb conn message | None \<Rightarrow> ret ())"

fun send_each :: "'d im_pb \<Rightarrow> (string \<times> singlechat_msg) list \<Rightarrow> ('w, 'q, 'r, unit) sprog" where
  "send_each pb [] = ret ()"
| "send_each pb ((username, sg) # ms) = chain (Server_send pb username (MSingleChat sg)) (\<lambda>_. send_each pb ms)"

text \<open>A call of a business function with what it sends through the server.\<close>

definition on_world :: "('w, 'q, 'r, 'a) bprog \<Rightarrow> ('w, 'q, 'r, 'a) sprog" where
  "on_world m s = andThen (m (world s)) (\<lambda>(x, w). Inr (x, s\<lparr>world := w\<rparr>))"

definition business :: "'d im_pb \<Rightarrow> ('w, 'q, 'r, 'a) bprog \<Rightarrow> ('w, 'q, 'r, 'a) sprog" where
  "business pb m =
     chain (on_world m) (\<lambda>x.
     chain state (\<lambda>s.
     chain (modify (\<lambda>s. s\<lparr>world := (world s)\<lparr>outbox := []\<rparr>\<rparr>)) (\<lambda>_.
     chain (send_each pb (outbox (world s))) (\<lambda>_. ret x))))"

definition onUnknownMessage :: "im_message \<Rightarrow> ('w, 'q, 'r, unit) sprog" where
  "onUnknownMessage m = ret ()"

definition onConnection :: "nat \<Rightarrow> ('w, 'q, 'r, unit) sprog" where
  "onConnection conn = ret ()"

definition Server_Login :: "('w, 'q, 'r) businessEnv \<Rightarrow> 'd im_pb \<Rightarrow> nat \<Rightarrow> login_msg \<Rightarrow> ('w, 'q, 'r, unit) sprog" where
  "Server_Login env pb conn message =
     chain (saveUsernameConn (lg_username message) conn) (\<lambda>_.
     chain (business pb (Business_Login env message)) (\<lambda>(isOK, answer).
     chain (codec_send pb conn (MResponse answer)) (\<lambda>_.
     if isOK = 0 then chain (business pb (sendCacheMessage env (lg_username message))) (\<lambda>_. ret ()) else ret ())))"

definition Server_Register :: "('w, 'q, 'r) businessEnv \<Rightarrow> 'd im_pb \<Rightarrow> nat \<Rightarrow> register_msg \<Rightarrow> ('w, 'q, 'r, unit) sprog" where
  "Server_Register env pb conn message =
     chain (business pb (Register env message)) (\<lambda>(_, answer). codec_send pb conn (MResponse answer))"

definition Server_SingleChat ::
    "('w, 'q, 'r) businessEnv \<Rightarrow> 'd im_pb \<Rightarrow> nat \<Rightarrow> singlechat_msg \<Rightarrow> ('w, 'q, 'r, unit) sprog" where
  "Server_SingleChat env pb conn message =
     chain (getConnByUsername (sc_receiver message)) (\<lambda>connPtr.
     case connPtr of
       Some connPtr \<Rightarrow>
         if sc_type message = 0 then codec_send pb connPtr (MSingleChat message)
         else if sc_type message = 1 then
           chain (business pb (Business_SendHongbao env (sc_hbreq message) new_hongbaoresp)) (\<lambda>(_, hbrsp).
           codec_send pb connPtr (MSingleChat (new_singlechat\<lparr>sc_hbrsp := hbrsp, sc_type := 2\<rparr>)))
         else if sc_type message = 3 then
           chain (business pb (Business_RobHongbao env (sc_robhbreq message) new_resprob)) (\<lambda>(_, robhbrsp).
           codec_send pb connPtr (MSingleChat (new_singlechat\<lparr>sc_robhbrsp := robhbrsp, sc_type := 4\<rparr>)))
         else ret ()
     | None \<Rightarrow>
         chain (business pb (cacheMessage env (sc_receiver message) message)) (\<lambda>_. ret ()))"

definition Server_GroupChat :: "nat \<Rightarrow> groupchat_msg \<Rightarrow> ('w, 'q, 'r, unit) sprog" where
  "Server_GroupChat conn message = ret ()"

definition Server_SendHongbao ::
    "('w, 'q, 'r) businessEnv \<Rightarrow> 'd im_pb \<Rightarrow> nat \<Rightarrow> hongbaoreq_msg \<Rightarrow> ('w, 'q, 'r, unit) sprog" where
  "Server_SendHongbao env pb conn message =
     chain (business pb (Business_SendHongbao env message new_hongbaoresp)) (\<lambda>(_, answer).
     codec_send pb conn (MHongbaoResp answer))"

definition Server_RobHongbao ::
    "('w, 'q, 'r) businessEnv \<Rightarrow> 'd im_pb \<Rightarrow> nat \<Rightarrow> reqrob_msg \<Rightarrow> ('w, 'q, 'r, unit) sprog" where
  "Server_RobHongbao env pb conn message =
     chain (business pb (Business_RobHongbao env message new_resprob)) (\<lambda>(_, answer).
     codec_send pb conn (MRespRobHongbao answer))"


section \<open>Construction\<close>

record serverSetup =
  log_rollSize :: int
  log_flushInterval :: int
  listen_host :: string
  listen_port :: int
  server_name :: string
  io_threads :: int

definition config_value :: "(string \<times> string) list \<Rightarrow> string \<Rightarrow> string" where
  "config_value config key = (case map_of config key of Some v \<Rightarrow> v | None \<Rightarrow> [])"

text \<open>The numbers of the configuration; \<^verbatim>\<open>stoi\<close> throws on a missing or malformed one.\<close>

definition Server_ctor :: "(string \<times> string) list \<Rightarrow> serverSetup res" where
  "Server_ctor config =
     andThen (toByte (config_value config ''logRollSie'')) (\<lambda>rollSize.
     andThen (stoi (config_value config ''logFlushInterval'')) (\<lambda>flush.
     andThen (stoi (config_value config ''port'')) (\<lambda>port.
     andThen (stoi (config_value config ''ioThreadNumber'')) (\<lambda>ioThreads.
     Inr \<lparr>log_rollSize = rollSize, log_flushInterval = flush, listen_host = config_value config ''host'',
          listen_port = port, server_name = config_value config ''serverName'', io_threads = ioThreads\<rparr>))))"

definition Server_start :: "(string \<times> string) list \<Rightarrow> int res" where
  "Server_start config = stoi (config_value config ''tpNum'')"

text \<open>
  \<^verbatim>\<open>main\<close> up to the event loop: the daemon flag, the setup and the number of pool threads. Exceptions
  are caught and logged; \<open>None\<close> is that return.
\<close>

definition server_main :: "string option \<Rightarrow> (bool \<times> serverSetup \<times> int) option res" where
  "server_main conf =
     (case andThen (readConfig conf) (\<lambda>config.
           andThen (Server_ctor config) (\<lambda>setup.
           andThen (Server_start config) (\<lambda>threads.
           Inr (config_value config ''daemon'' = ''yes'', setup, threads)))) of
        Inr x \<Rightarrow> Inr (Some x)
      | Inl (Exception _) \<Rightarrow> Inr None
      | Inl e \<Rightarrow> Inl e)"

text \<open>The callbacks bound to the connection a message came from; a handler of another type ignores it.\<close>

definition handler :: "('w, 'q, 'r, unit) sprog \<Rightarrow> ('w, 'q, 'r) serverState \<Rightarrow> ('w, 'q, 'r) serverState res" where
  "handler m s = andThen (m s) (\<lambda>(_, s). Inr s)"

definition server_callbacks ::
    "('w, 'q, 'r) businessEnv \<Rightarrow> 'd im_pb \<Rightarrow> nat \<Rightarrow>
     (string \<times> (im_message \<Rightarrow> ('w, 'q, 'r) serverState \<Rightarrow> ('w, 'q, 'r) serverState res)) list" where
  "server_callbacks env pb conn =
     [(''IM.Login'', \<lambda>m. handler (case m of MLogin x \<Rightarrow> Server_Login env pb conn x | _ \<Rightarrow> fail AssertFailed)),
      (''IM.Register'', \<lambda>m. handler (case m of MRegister x \<Rightarrow> Server_Register env pb conn x | _ \<Rightarrow> fail AssertFailed)),
      (''IM.SingleChat'', \<lambda>m. handler (case m of MSingleChat x \<Rightarrow> Server_SingleChat env pb conn x | _ \<Rightarrow> fail AssertFailed)),
      (''IM.ReqRobHongbao'', \<lambda>m. handler (case m of MReqRobHongbao x \<Rightarrow> Server_RobHongbao env pb conn x | _ \<Rightarrow> fail AssertFailed)),
      (''IM.GroupChat'', \<lambda>m. handler (case m of MGroupChat x \<Rightarrow> Server_GroupChat conn x | _ \<Rightarrow> fail AssertFailed)),
      (''IM.Hongbaoreq'', \<lambda>m. handler (case m of MHongbaoreq x \<Rightarrow> Server_SendHongbao env pb conn x | _ \<Rightarrow> fail AssertFailed))]"

definition server_dispatcher ::
    "('w, 'q, 'r) businessEnv \<Rightarrow> 'd im_pb \<Rightarrow> (string \<Rightarrow> 'd) \<Rightarrow> nat \<Rightarrow> (im_message, 'd, ('w, 'q, 'r) serverState) dispatcher" where
  "server_dispatcher env pb descriptor conn =
     registerAll (map (\<lambda>(n, cb). (descriptor n, cb)) (server_callbacks env pb conn))
       (ProtobufDispatcher (\<lambda>m. handler (onUnknownMessage m)))"

text \<open>The message callback of a connection: decode what is in its buffer and dispatch it.\<close>

definition server_shutdown :: "nat \<Rightarrow> ('w, 'q, 'r) serverState \<Rightarrow> ('w, 'q, 'r) serverState res" where
  "server_shutdown conn s = Inr (s\<lparr>closing := insert conn (closing s)\<rparr>)"

definition server_receive ::
    "('w, 'q, 'r) businessEnv \<Rightarrow> 'd im_pb \<Rightarrow> (string \<Rightarrow> 'd) \<Rightarrow> nat \<Rightarrow> string list \<Rightarrow> buffer \<Rightarrow> ('w, 'q, 'r) serverState \<Rightarrow>
     (buffer \<times> ('w, 'q, 'r) serverState) res" where
  "server_receive env pb descriptor conn segments =
     feed pb (onProtobufMessage pb (server_dispatcher env pb descriptor conn))
       (defaultErrorCallback (\<lambda>s. conn \<notin> closing s) (server_shutdown conn)) segments"


section \<open>Dispatch of the requests\<close>

fun handle :: "('w, 'q, 'r) businessEnv \<Rightarrow> 'd im_pb \<Rightarrow> nat \<Rightarrow> im_message \<Rightarrow> ('w, 'q, 'r, unit) sprog" where
  "handle env pb conn (MLogin x) = Server_Login env pb conn x"
| "handle env pb conn (MRegister x) = Server_Register env pb conn x"
| "handle env pb conn (MSingleChat x) = Server_SingleChat env pb conn x"
| "handle env pb conn (MGroupChat x) = Server_GroupChat conn x"
| "handle env pb conn (MHongbaoreq x) = Server_SendHongbao env pb conn x"
| "handle env pb conn (MReqRobHongbao x) = Server_RobHongbao env pb conn x"
| "handle env pb conn m = onUnknownMessage m"

lemma map_of_descriptors:
  "inj descriptor \<Longrightarrow>
   map_of (map (\<lambda>(n, cb). (descriptor n, cb)) cbs) (descriptor k) = map_of cbs k"
  by (induction cbs) (auto dest: injD)

lemma dispatch_handle:
  assumes "inj descriptor" and "GetDescriptor pb m = descriptor (type_name m)"
  shows "onProtobufMessage pb (server_dispatcher env pb descriptor conn) m s = handler (handle env pb conn m) s"
proof -
  have "onProtobufMessage pb (server_dispatcher env pb descriptor conn) m s =
      (case map_of (rev (server_callbacks env pb conn)) (type_name m) of
         Some cb \<Rightarrow> cb m s | None \<Rightarrow> handler (onUnknownMessage m) s)"
    unfolding server_dispatcher_def onProtobufMessage_def registerAll_callbacks assms(2)
    by (simp add: ProtobufDispatcher_def CallbackT_onMessage_def rev_map map_of_descriptors [OF assms(1)] assms(2)
        split: option.splits)
  then show ?thesis
    by (cases m) (auto simp: server_callbacks_def split: other_type.splits)
qed

lemma deliver_cong: "(\<And>m s. m \<in> set ms \<Longrightarrow> f m s = g m s) \<Longrightarrow> deliver f ms s = deliver g ms s"
  by (induction ms arbitrary: s) (auto intro!: andThen_cong)

lemma codec_send_frame:
  assumes "transmissible pb m"
  shows "codec_send pb conn m s = Inr ((), s\<lparr>wire := wire s @ [(conn, frame pb m)]\<rparr>)"
  using send_frame [OF assms, of "\<lambda>b s. Inr (s\<lparr>wire := wire s @ [(conn, bytes b)]\<rparr>)" s]
  by (auto simp: codec_send_def)


section \<open>Properties\<close>

text \<open>A concrete runtime for one kind of message: chat messages to \<^verbatim>\<open>bob\<close>, serialized as their text.\<close>

definition ref_chat :: "string \<Rightarrow> singlechat_msg" where
  "ref_chat text = new_singlechat\<lparr>sc_receiver := ''bob'', sc_message := text\<rparr>"

definition ref_im_pb :: "string im_pb" where
  "ref_im_pb =
     \<lparr>GetTypeName = type_name, IsInitialized = (\<lambda>_. True),
      ByteSize = (\<lambda>m. case m of MSingleChat c \<Rightarrow> length (sc_message c) | _ \<Rightarrow> 0),
      SerializeWithCachedSizesToArray = (\<lambda>m. case m of MSingleChat c \<Rightarrow> sc_message c | _ \<Rightarrow> []),
      FindMessageTypeByName = Some,
      GetPrototype = (\<lambda>d. if d = ''IM.SingleChat'' then Some (MSingleChat new_singlechat) else None), New = (\<lambda>m. m),
      ParseFromArray = (\<lambda>m bs. (MSingleChat (ref_chat bs), True)), GetDescriptor = type_name, adler32 = adler32_ref\<rparr>"

lemma ref_chat_transmissible:
  "length t \<le> 1000 \<Longrightarrow> transmissible ref_im_pb (MSingleChat (ref_chat t))"
  by (simp add: transmissible_def ref_im_pb_def createMessage_def c_str_def length_frame_body kMaxMessageLen_def ref_chat_def)

text \<open>
  C19. From bytes to handlers. Take any list of requests, the bytes a client sends for them, and any
  way TCP cuts these bytes into segments. Receiving the segments on a connection runs the
  handler of each request on that connection, in the order they were sent and once each, up to
  the first one that does not return; a message the server does not serve is skipped, nothing
  is reported as an error, and no byte is left over.
\<close>

theorem server_requests_in_order:
  assumes "inj descriptor" and "\<forall>m \<in> set ms. transmissible pb m \<and> GetDescriptor pb m = descriptor (type_name m)"
    and "concat segments = concat (map (sent_bytes pb) ms)" and "buffer_ok b" and "bytes b = []"
  shows "\<exists>b'. bytes b' = [] \<and>
    server_receive env pb descriptor conn segments b s =
      andThen (deliver (\<lambda>m. handler (handle env pb conn m)) ms s) (\<lambda>s'. Inr (b', s'))"
proof -
  have "\<forall>m \<in> set ms. transmissible pb m"
    using assms(2) by blast
  moreover have "deliver (onProtobufMessage pb (server_dispatcher env pb descriptor conn)) ms s =
      deliver (\<lambda>m. handler (handle env pb conn m)) ms s"
    using assms(1,2) by (intro deliver_cong) (auto simp: dispatch_handle)
  ultimately show ?thesis
    unfolding server_receive_def
    using feed_sent [of ms pb segments b "onProtobufMessage pb (server_dispatcher env pb descriptor conn)"
        "defaultErrorCallback (\<lambda>s. conn \<notin> closing s) (server_shutdown conn)" s] assms(3-5)
    by simp
qed

definition ref_server :: "(string \<rightharpoonup> nat option) \<Rightarrow>
    (string \<rightharpoonup> string + string list, unit, mysqlRow list \<times> nat) serverState" where
  "ref_server conns = \<lparr>connMap = conns, wire = [], closing = {}, world = ref_world Map.empty\<rparr>"

lemma SingleChat_online:
  assumes "connMap s (sc_receiver m) = Some (Some c)" and "sc_type m = 0" and "transmissible pb (MSingleChat m)"
  shows "Server_SingleChat env pb conn m s = Inr ((), s\<lparr>wire := wire s @ [(c, frame pb (MSingleChat m))]\<rparr>)"
  using assms by (simp add: Server_SingleChat_def chain_def getConnByUsername_def codec_send_frame)

theorem server_requests_in_order_witness:
  "\<exists>b b' s'. bytes b' = [] \<and>
     server_receive ref_env ref_im_pb id 1
       [take 5 (sent_bytes ref_im_pb (MSingleChat (ref_chat ''hi''))), drop 5 (sent_bytes ref_im_pb (MSingleChat (ref_chat ''hi'')))]
       b (ref_server [''bob'' \<mapsto> Some 2]) = Inr (b', s') \<and>
     wire s' = [(2, frame ref_im_pb (MSingleChat (ref_chat ''hi'')))]"
proof -
  let ?m = "MSingleChat (ref_chat ''hi'')" and ?s = "ref_server [''bob'' \<mapsto> Some 2]"
  let ?cs = "[take 5 (sent_bytes ref_im_pb ?m), drop 5 (sent_bytes ref_im_pb ?m)]"
  obtain b where b: "buffer_ok b" "bytes b = []"
    using Buffer_ctor_ok by blast
  have t: "transmissible ref_im_pb ?m"
    by (simp add: ref_chat_transmissible)
  then have "\<forall>m \<in> set [?m]. transmissible ref_im_pb m \<and> GetDescriptor ref_im_pb m = id (type_name m)"
    by (simp add: ref_im_pb_def)
  moreover have "concat ?cs = concat (map (sent_bytes ref_im_pb) [?m])"
    by simp
  ultimately obtain b' where "bytes b' = []" "server_receive ref_env ref_im_pb id 1 ?cs b ?s =
      andThen (deliver (\<lambda>m. handler (handle ref_env ref_im_pb 1 m)) [?m] ?s) (\<lambda>s'. Inr (b', s'))"
    using server_requests_in_order [OF inj_on_id _ _ b] by blast
  moreover have "Server_SingleChat ref_env ref_im_pb 1 (ref_chat ''hi'') ?s =
      Inr ((), ?s\<lparr>wire := wire ?s @ [(2, frame ref_im_pb ?m)]\<rparr>)"
    by (rule SingleChat_online) (simp_all add: t, simp_all add: ref_server_def ref_chat_def new_singlechat_def)
  ultimately show ?thesis
    by (intro exI [of _ b] exI [of _ b']) (simp add: handler_def ref_server_def)
qed

end
