(* ===== verification/Offline.thy ===== *)
theory Offline
  imports Server
begin

text \<open>
  Chat messages to a user who is not connected: they are pushed on a Redis list and sent when the
  user logs in. The lemmas follow a connection through its pool (taken, used, given back) and
  the list through the commands.
\<close>

section \<open>Redis lists\<close>

text \<open>
  The documented behaviour of the list commands the server uses, for a view \<open>lst\<close> of the lists:
  \<open>None\<close> is a key of another type, and a key that does not exist is the empty list.
\<close>

definition redis_lists :: "'w redisApi \<Rightarrow> ('w \<Rightarrow> string \<rightharpoonup> string list) \<Rightarrow> bool" where
  "redis_lists api lst \<longleftrightarrow>
     (\<forall>w. fst (redisClusterContextInit api w) \<and> lst (snd (redisClusterContextInit api w)) = lst w) \<and>
     (\<forall>a w. lst (redisClusterConnect2 api a w) = lst w) \<and>
     (\<forall>a k v w xs. lst w k = Some xs \<longrightarrow>
        (\<exists>n. fst (redisClusterCommand api a [''LPUSH'', k, v] w) = Some (ReplyInteger n)) \<and>
        lst (snd (redisClusterCommand api a [''LPUSH'', k, v] w)) = (lst w)(k \<mapsto> v # xs)) \<and>
     (\<forall>a k w xs. lst w k = Some xs \<longrightarrow>
        fst (redisClusterCommand api a [''LRANGE'', k, ''0'', ''-1''] w) = Some (ReplyArray (map ReplyString xs)) \<and>
        lst (snd (redisClusterCommand api a [''LRANGE'', k, ''0'', ''-1''] w)) = lst w)"

lemma redis_lists_connected: "redis_lists api lst \<Longrightarrow> lst (connected_world api c w) = lst w"
  by (simp add: redis_lists_def connected_world_def)

lemma redis_lists_init: "redis_lists api lst \<Longrightarrow> fst (redisClusterContextInit api w)"
  by (simp add: redis_lists_def)

lemma redis_lists_lpush:
  "redis_lists api lst \<Longrightarrow> lst w k = Some xs \<Longrightarrow>
   \<exists>n. redisClusterCommand api a [''LPUSH'', k, v] w =
     (Some (ReplyInteger n), snd (redisClusterCommand api a [''LPUSH'', k, v] w)) \<and>
     lst (snd (redisClusterCommand api a [''LPUSH'', k, v] w)) = (lst w)(k \<mapsto> v # xs)"
  by (auto simp: redis_lists_def prod_eq_iff)

lemma redis_lists_lrange:
  "redis_lists api lst \<Longrightarrow> lst w k = Some xs \<Longrightarrow>
   redisClusterCommand api a [''LRANGE'', k, ''0'', ''-1''] w =
     (Some (ReplyArray (map ReplyString xs)), snd (redisClusterCommand api a [''LRANGE'', k, ''0'', ''-1''] w)) \<and>
   lst (snd (redisClusterCommand api a [''LRANGE'', k, ''0'', ''-1''] w)) = lst w"
  by (auto simp: redis_lists_def prod_eq_iff)

lemma lpush_result:
  assumes "redis_lists api lst" and "conn_heap s this = Some c" and "lst (redis s) (c_str key) = Some xs"
  shows "\<exists>w n. lst w = (lst (redis s))(c_str key \<mapsto> c_str v # xs) \<and>
    CacheConn_lpush api this key v s = Inr (n, after_reply this c w s)"
proof -
  let ?w0 = "connected_world api c (redis s)"
  have "lst ?w0 (c_str key) = Some xs"
    using assms(3) by (simp add: redis_lists_connected [OF assms(1)])
  from redis_lists_lpush [OF assms(1) this, of "cluster_of (m_pCachePool c)" "c_str v"] obtain n w where
    w: "command_result api c [''LPUSH'', c_str key, c_str v] (redis s) = (Some (ReplyInteger n), w)"
       "lst w = (lst (redis s))(c_str key \<mapsto> c_str v # xs)"
    by (auto simp: command_result_def redis_lists_connected [OF assms(1)])
  show ?thesis
    using w(2) by (auto simp: CacheConn_lpush_def with_reply_some [OF assms(2) redis_lists_init [OF assms(1)] w(1)])
qed

lemma lrange_args: "to_string (to_int32 0) = ''0''" "to_string (to_int32 (- 1)) = ''-1''"
  by code_simp+

lemma lrange_result:
  assumes "redis_lists api lst" and "conn_heap s this = Some c" and "lst (redis s) (c_str key) = Some xs"
  shows "\<exists>w. lst w = lst (redis s) \<and>
    CacheConn_lrange api this key 0 (- 1) [] s = Inr ((True, xs), after_reply this c w s)"
proof -
  let ?w0 = "connected_world api c (redis s)"
  have "lst ?w0 (c_str key) = Some xs"
    using assms(3) by (simp add: redis_lists_connected [OF assms(1)])
  from redis_lists_lrange [OF assms(1) this, of "cluster_of (m_pCachePool c)"] obtain w where
    w: "command_result api c [''LRANGE'', c_str key, ''0'', ''-1''] (redis s) = (Some (ReplyArray (map ReplyString xs)), w)"
       "lst w = lst (redis s)"
    by (auto simp: command_result_def redis_lists_connected [OF assms(1)])
  show ?thesis
    using w(2)
    by (auto simp: CacheConn_lrange_def lrange_args with_reply_some [OF assms(2) redis_lists_init [OF assms(1)] w(1)]
        comp_def)
qed


section \<open>A connection through its pool\<close>

text \<open>The pool of a name has an idle connection, and its idle connections are its own.\<close>

definition pool_ready :: "string \<Rightarrow> 'w cacheWorld \<Rightarrow> bool" where
  "pool_ready name cw \<longleftrightarrow>
     (\<exists>pools p. cache_manager cw = Some pools \<and> pools name = Some p \<and> m_free_list p \<noteq> [] \<and> distinct (m_free_list p) \<and>
        (\<forall>c \<in> set (m_free_list p). \<exists>conn. conn_heap (objs cw) c = Some conn \<and> m_pool_name (m_pCachePool conn) = name))"

definition same_pool :: "nat \<Rightarrow> 'w cacheState \<Rightarrow> 'w cacheState \<Rightarrow> bool" where
  "same_pool c os os' \<longleftrightarrow>
     (\<exists>conn conn'. conn_heap os c = Some conn \<and> conn_heap os' = (conn_heap os)(c \<mapsto> conn') \<and>
        m_pCachePool conn' = m_pCachePool conn)"

lemma same_pool_after_reply: "conn_heap os c = Some conn \<Longrightarrow> same_pool c os (after_reply c conn w os)"
  unfolding same_pool_def
  by (intro exI [of _ conn] exI [of _ "conn\<lparr>m_pContext := Some (next_context os)\<rparr>"]) simp

text \<open>
  Take a connection, do something with it that keeps its pool, give it back: the pool is ready
  again.
\<close>

lemma borrow:
  assumes "pool_ready name (caches s)" and "NUL \<notin> set name"
  obtains c s1 where "get_cache env name s = Inr (Some c, s1)"
    and "objs (caches s1) = objs (caches s)" and "\<exists>conn. conn_heap (objs (caches s)) c = Some conn"
    and "s1 = s\<lparr>caches := caches s1\<rparr>"
    and "\<And>os. same_pool c (objs (caches s)) os \<Longrightarrow> \<exists>cw. rel_cache (Some c) (with_objs os s1) = Inr ((), s1\<lparr>caches := cw\<rparr>) \<and>
           objs cw = os \<and> pool_ready name cw"
proof -
  obtain pools p where p: "cache_manager (caches s) = Some pools" "pools name = Some p" "m_free_list p \<noteq> []"
      "distinct (m_free_list p)"
      "\<forall>c \<in> set (m_free_list p). \<exists>conn. conn_heap (objs (caches s)) c = Some conn \<and> m_pool_name (m_pCachePool conn) = name"
    using assms(1) by (auto simp: pool_ready_def)
  obtain c cs where c: "m_free_list p = c # cs"
    using p(3) by (cases "m_free_list p") auto
  define p1 where "p1 = p\<lparr>m_free_list := cs\<rparr>"
  define s1 where "s1 = s\<lparr>caches := (caches s)\<lparr>cache_manager := Some (pools(name \<mapsto> p1)), objs := objs (caches s)\<rparr>\<rparr>"
  have get: "get_cache env name s = Inr (Some c, s1)"
    using p(1,2) GetCacheConn_pop [OF c, of "redis_api env" "objs (caches s)"] assms(2)
    by (simp add: cacheW_def CacheManager_GetCacheConn_def on_pool_def s1_def p1_def c_str_no_nul)
  show thesis
  proof (rule that [OF get])
    fix os
    assume os: "same_pool c (objs (caches s)) os"
    then obtain conn conn' where heap: "conn_heap (objs (caches s)) c = Some conn"
        "conn_heap os = (conn_heap (objs (caches s)))(c \<mapsto> conn')" "m_pCachePool conn' = m_pCachePool conn"
      unfolding same_pool_def by blast
    then have conn': "conn_heap os c = Some conn'" "m_pool_name (m_pCachePool conn') = name"
      using p(5) c by auto
    let ?p2 = "p1\<lparr>m_free_list := cs @ [c]\<rparr>"
    let ?cw = "(caches s)\<lparr>cache_manager := Some (pools(name \<mapsto> ?p2)), objs := os\<rparr>"
    have "c \<notin> set cs" using p(4) c by simp
    then have "rel_cache (Some c) (with_objs os s1) = Inr ((), s1\<lparr>caches := ?cw\<rparr>)"
      using conn' assms(2)
      by (simp add: cacheW_def CacheManager_RelCacheConn_def CacheConn_GetPoolName_def the_conn_def on_pool_def
          CachePool_RelCacheConn_def set_pool_def with_objs_def s1_def p1_def c_str_no_nul chain_def ret_def)
    moreover have "pool_ready name ?cw"
      using p(4,5) c conn' heap(2) by (auto simp: pool_ready_def p1_def)
    ultimately show "\<exists>cw. rel_cache (Some c) (with_objs os s1) = Inr ((), s1\<lparr>caches := cw\<rparr>) \<and> objs cw = os \<and> pool_ready name cw"
      by (intro exI [of _ ?cw]) simp
  qed (use p(5) c in \<open>auto simp: s1_def\<close>)
qed

lemma redis_name_nul_free: "NUL \<notin> set (redis_name u)"
  by (simp add: redis_name_def to_string_nul_free)

lemma get_manager_ready: "pool_ready name (caches s) \<Longrightarrow> get_manager env s = Inr (True, s)"
  by (auto simp: pool_ready_def cacheW_def CacheManager_getInstance_def)


section \<open>Caching and sending\<close>

text \<open>What the protocol buffer runtime promises for a message that can be cached.\<close>

definition cachable :: "('w, 'q, 'r) businessEnv \<Rightarrow> singlechat_msg \<Rightarrow> bool" where
  "cachable env m \<longleftrightarrow>
     (case serialize_chat env m of None \<Rightarrow> False | Some v \<Rightarrow> tilde \<notin> set v \<and> parse_chat env v = Some m)"

definition cached_form :: "('w, 'q, 'r) businessEnv \<Rightarrow> singlechat_msg \<Rightarrow> string" where
  "cached_form env m = map zeroToTilde (the (serialize_chat env m))"

abbreviation message_list :: "('w \<Rightarrow> string \<rightharpoonup> string list) \<Rightarrow> string \<Rightarrow> 'w cacheWorld \<Rightarrow> string list option" where
  "message_list lst u cw \<equiv> lst (redis (objs cw)) (u @ ''_message'')"

lemma cacheMessage_pushes:
  assumes "redis_lists (redis_api env) lst" and "pool_ready (redis_name u) (caches s)" and "NUL \<notin> set u"
    and "message_list lst u (caches s) = Some xs" and "cachable env m"
  shows "\<exists>cw. cacheMessage env u m s = Inr (0, s\<lparr>caches := cw\<rparr>) \<and> pool_ready (redis_name u) cw \<and>
    message_list lst u cw = Some (cached_form env m # xs)"
proof -
  obtain v where v: "serialize_chat env m = Some v"
    using assms(5) by (auto simp: cachable_def split: option.splits)
  obtain c s1 where c: "get_cache env (redis_name u) s = Inr (Some c, s1)" "objs (caches s1) = objs (caches s)"
      "\<exists>conn. conn_heap (objs (caches s)) c = Some conn" "s1 = s\<lparr>caches := caches s1\<rparr>"
    and rel: "\<And>os. same_pool c (objs (caches s)) os \<Longrightarrow> \<exists>cw. rel_cache (Some c) (with_objs os s1) = Inr ((), s1\<lparr>caches := cw\<rparr>) \<and>
           objs cw = os \<and> pool_ready (redis_name u) cw"
    using borrow [OF assms(2) redis_name_nul_free, of env] by blast
  obtain conn where conn: "conn_heap (objs (caches s)) c = Some conn"
    using c(3) by blast
  have key: "c_str (u @ ''_message'') = u @ ''_message''"
    using assms(3) by (simp add: c_str_no_nul)
  obtain w n where w: "lst w = (lst (redis (objs (caches s))))(u @ ''_message'' \<mapsto> map zeroToTilde v # xs)"
      "CacheConn_lpush (redis_api env) c (u @ ''_message'') (map zeroToTilde v) (objs (caches s)) =
         Inr (n, after_reply c conn w (objs (caches s)))"
    using lpush_result [OF assms(1) conn, of "u @ ''_message''" xs "map zeroToTilde v"] assms(4) unfolding key by auto
  let ?os = "after_reply c conn w (objs (caches s))"
  have push: "on_redis (Some c) (\<lambda>c. CacheConn_lpush (redis_api env) c (u @ ''_message'') (map zeroToTilde v)) s1 = Inr (n, with_objs ?os s1)"
    using w(2) c(2) by (simp add: deref_def on_conn_Inr)
  obtain cw where cw: "rel_cache (Some c) (with_objs ?os s1) = Inr ((), s1\<lparr>caches := cw\<rparr>)" "objs cw = ?os"
      "pool_ready (redis_name u) cw"
    using rel [OF same_pool_after_reply [OF conn]] by blast
  have "s1\<lparr>caches := cw\<rparr> = s\<lparr>caches := cw\<rparr>"
    by (subst c(4)) simp
  moreover have "cacheMessage env u m s = Inr (0, s1\<lparr>caches := cw\<rparr>)"
    by (simp add: cacheMessage_def chain_Inr get_manager_ready [OF assms(2)] c(1) v replaceFromZero_def lift_Inr push cw(1) ret_apply)
  ultimately show ?thesis
    using cw w(1) by (intro exI [of _ cw]) (simp add: cached_form_def v)
qed

lemma send_cached_all:
  assumes "\<forall>m \<in> set ms. cachable env m"
  shows "send_cached env u (map (cached_form env) ms) r s = Inr (r, s\<lparr>outbox := outbox s @ map (Pair u) ms\<rparr>)"
  using assms
proof (induction ms arbitrary: s)
  case (Cons m ms)
  then obtain v where v: "serialize_chat env m = Some v" "tilde \<notin> set v" "parse_chat env v = Some m"
    by (auto simp: cachable_def split: option.splits)
  then have "replaceToZero (cached_form env m) = v"
    by (simp add: cached_form_def replace_roundtrip_iff)
  with v Cons show ?case by (simp add: chain_def modify_apply)
qed (simp add: ret_apply)

lemma sendCacheMessage_sends:
  assumes "redis_lists (redis_api env) lst" and "pool_ready (redis_name u) (caches s)" and "NUL \<notin> set u"
    and "message_list lst u (caches s) = Some (map (cached_form env) ms)" and "\<forall>m \<in> set ms. cachable env m"
  shows "\<exists>cw. sendCacheMessage env u s = Inr (0, s\<lparr>caches := cw, outbox := outbox s @ map (Pair u) ms\<rparr>) \<and>
    pool_ready (redis_name u) cw \<and> lst (redis (objs cw)) = lst (redis (objs (caches s)))"
proof -
  obtain c s1 where c: "get_cache env (redis_name u) s = Inr (Some c, s1)" "objs (caches s1) = objs (caches s)"
      "\<exists>conn. conn_heap (objs (caches s)) c = Some conn" "s1 = s\<lparr>caches := caches s1\<rparr>"
    and rel: "\<And>os. same_pool c (objs (caches s)) os \<Longrightarrow> \<exists>cw. rel_cache (Some c) (with_objs os s1) = Inr ((), s1\<lparr>caches := cw\<rparr>) \<and>
           objs cw = os \<and> pool_ready (redis_name u) cw"
    using borrow [OF assms(2) redis_name_nul_free, of env] by blast
  obtain conn where conn: "conn_heap (objs (caches s)) c = Some conn"
    using c(3) by blast
  have key: "c_str (u @ ''_message'') = u @ ''_message''"
    using assms(3) by (simp add: c_str_no_nul)
  obtain w where w: "lst w = lst (redis (objs (caches s)))"
      "CacheConn_lrange (redis_api env) c (u @ ''_message'') 0 (- 1) [] (objs (caches s)) =
         Inr ((True, map (cached_form env) ms), after_reply c conn w (objs (caches s)))"
    using lrange_result [OF assms(1) conn, of "u @ ''_message''"] assms(4) unfolding key by blast
  let ?os = "after_reply c conn w (objs (caches s))"
  have range: "on_redis (Some c) (\<lambda>c. CacheConn_lrange (redis_api env) c (u @ ''_message'') 0 (- 1) []) s1 =
      Inr ((True, map (cached_form env) ms), with_objs ?os s1)"
    using w(2) c(2) by (simp add: deref_def on_conn_Inr)
  obtain cw where cw: "rel_cache (Some c) (with_objs ?os s1) = Inr ((), s1\<lparr>caches := cw\<rparr>)" "objs cw = ?os"
      "pool_ready (redis_name u) cw"
    using rel [OF same_pool_after_reply [OF conn]] by blast
  let ?out = "outbox s @ map (Pair u) ms"
  have "outbox (with_objs ?os s1) = outbox s"
    by (subst c(4)) (simp add: with_objs_def)
  moreover have "rel_cache (Some c) ((with_objs ?os s1)\<lparr>outbox := ?out\<rparr>) = Inr ((), s1\<lparr>caches := cw, outbox := ?out\<rparr>)"
  proof -
    obtain b where b: "CacheManager_RelCacheConn (Some c) ((caches s1)\<lparr>objs := ?os\<rparr>) = Inr ((), b)"
        "s1\<lparr>caches := b\<rparr> = s1\<lparr>caches := cw\<rparr>"
      using cw(1) by (auto simp: cacheW_def with_objs_def andThen_eq_Inr)
    from arg_cong [OF b(2), of caches] have "b = cw" by simp
    with b(1) show ?thesis by (simp add: cacheW_def with_objs_def)
  qed
  ultimately have "sendCacheMessage env u s = Inr (0, s1\<lparr>caches := cw, outbox := ?out\<rparr>)"
    by (simp add: sendCacheMessage_def chain_Inr get_manager_ready [OF assms(2)] c(1) range
        send_cached_all [OF assms(5)] ret_apply)
  moreover have "s1\<lparr>caches := cw, outbox := ?out\<rparr> = s\<lparr>caches := cw, outbox := ?out\<rparr>"
    by (subst c(4)) simp
  ultimately show ?thesis
    using cw w(1) by (intro exI [of _ cw]) simp
qed


section \<open>Through the server\<close>

fun chat_all :: "('w, 'q, 'r) businessEnv \<Rightarrow> 'd im_pb \<Rightarrow> nat \<Rightarrow> singlechat_msg list \<Rightarrow> ('w, 'q, 'r, unit) sprog" where
  "chat_all env pb conn [] = ret ()"
| "chat_all env pb conn (m # ms) = chain (Server_SingleChat env pb conn m) (\<lambda>_. chat_all env pb conn ms)"

definition offline :: "string \<Rightarrow> ('w, 'q, 'r) serverState \<Rightarrow> bool" where
  "offline u s \<longleftrightarrow> connMap s u = None \<or> connMap s u = Some None"

lemma business_quiet:
  assumes "m (world s) = Inr (x, w)" and "outbox w = []"
  shows "business pb m s = Inr (x, s\<lparr>world := w\<rparr>)"
  using assms
  by (simp add: business_def on_world_def chain_def state_apply modify_apply ret_apply) 

lemma getConn_offline:
  "offline u s \<Longrightarrow> getConnByUsername u s = Inr (None, s\<lparr>connMap := (connMap s)(u \<mapsto> None)\<rparr>)"
  by (auto simp: offline_def getConnByUsername_def fun_upd_idem)

lemma SingleChat_offline:
  assumes "redis_lists (redis_api env) lst" and "pool_ready (redis_name u) (caches (world s))" and "NUL \<notin> set u"
    and "message_list lst u (caches (world s)) = Some xs" and "cachable env m" and "sc_receiver m = u"
    and "offline u s" and "outbox (world s) = []"
  shows "\<exists>s'. Server_SingleChat env pb conn m s = Inr ((), s') \<and> pool_ready (redis_name u) (caches (world s')) \<and>
    message_list lst u (caches (world s')) = Some (cached_form env m # xs) \<and> offline u s' \<and>
    outbox (world s') = [] \<and> wire s' = wire s"
proof -
  obtain cw where cw: "cacheMessage env u m (world s) = Inr (0, (world s)\<lparr>caches := cw\<rparr>)"
      "pool_ready (redis_name u) cw" "message_list lst u cw = Some (cached_form env m # xs)"
    using cacheMessage_pushes [OF assms(1-5)] by blast
  let ?s1 = "s\<lparr>connMap := (connMap s)(u \<mapsto> None)\<rparr>"
  have "business pb (cacheMessage env u m) ?s1 = Inr (0, ?s1\<lparr>world := (world s)\<lparr>caches := cw\<rparr>\<rparr>)"
    using cw(1) assms(8) by (intro business_quiet) simp_all
  then have "Server_SingleChat env pb conn m s = Inr ((), ?s1\<lparr>world := (world s)\<lparr>caches := cw\<rparr>\<rparr>)"
    by (simp add: Server_SingleChat_def assms(6) chain_Inr getConn_offline [OF assms(7)] ret_apply)
  then show ?thesis
    using cw(2,3) assms(8) by (simp add: offline_def)
qed

lemma chat_all_offline:
  assumes "redis_lists (redis_api env) lst" and "NUL \<notin> set u"
    and "\<forall>m \<in> set ms. cachable env m \<and> sc_receiver m = u"
    and "pool_ready (redis_name u) (caches (world s))" and "message_list lst u (caches (world s)) = Some xs"
    and "offline u s" and "outbox (world s) = []"
  shows "\<exists>s'. chat_all env pb conn ms s = Inr ((), s') \<and> pool_ready (redis_name u) (caches (world s')) \<and>
    message_list lst u (caches (world s')) = Some (map (cached_form env) (rev ms) @ xs) \<and>
    outbox (world s') = [] \<and> wire s' = wire s"
  using assms(3-)
proof (induction ms arbitrary: s xs)
  case (Cons m ms)
  obtain s1 where s1: "Server_SingleChat env pb conn m s = Inr ((), s1)" "pool_ready (redis_name u) (caches (world s1))"
      "message_list lst u (caches (world s1)) = Some (cached_form env m # xs)" "offline u s1"
      "outbox (world s1) = []" "wire s1 = wire s"
    using SingleChat_offline [OF assms(1) Cons.prems(2) assms(2) Cons.prems(3), of m pb conn] Cons.prems by auto
  from Cons.IH [OF _ s1(2,3,4,5)] Cons.prems(1) obtain s2 where s2: "chat_all env pb conn ms s1 = Inr ((), s2)"
      "pool_ready (redis_name u) (caches (world s2))"
      "message_list lst u (caches (world s2)) = Some (map (cached_form env) (rev ms) @ cached_form env m # xs)"
      "outbox (world s2) = []" "wire s2 = wire s1"
    by auto
  with s1(1,6) show ?case by (simp add: chain_Inr)
qed (simp add: ret_apply)

lemma send_each_online:
  assumes "connMap s u = Some (Some c)" and "\<forall>m \<in> set ms. transmissible pb (MSingleChat m)"
  shows "send_each pb (map (Pair u) ms) s =
    Inr ((), s\<lparr>wire := wire s @ map (\<lambda>m. (c, frame pb (MSingleChat m))) ms\<rparr>)"
  using assms
proof (induction ms arbitrary: s)
  case (Cons m ms)
  then have "Server_send pb u (MSingleChat m) s = Inr ((), s\<lparr>wire := wire s @ [(c, frame pb (MSingleChat m))]\<rparr>)"
    by (simp add: Server_send_def chain_def getConnByUsername_def codec_send_frame)
  with Cons show ?case by (simp add: chain_Inr)
qed (simp add: ret_apply)

lemma business_send_online:
  assumes "m (world s) = Inr (x, w)" and "outbox w = map (Pair u) ms" and "connMap s u = Some (Some c)"
    and "\<forall>m \<in> set ms. transmissible pb (MSingleChat m)"
  shows "business pb m s =
    Inr (x, s\<lparr>world := w\<lparr>outbox := []\<rparr>, wire := wire s @ map (\<lambda>m. (c, frame pb (MSingleChat m))) ms\<rparr>)"
  using assms(1-3) send_each_online [OF _ assms(4), of "s\<lparr>world := w\<lparr>outbox := []\<rparr>\<rparr>" u c]
  by (simp add: business_def on_world_def chain_def state_apply modify_apply ret_apply)


section \<open>Properties\<close>

definition ref_lists :: "(string \<rightharpoonup> string + string list) \<Rightarrow> string \<rightharpoonup> string list" where
  "ref_lists w k = (case w k of None \<Rightarrow> Some [] | Some (Inr xs) \<Rightarrow> Some xs | Some (Inl _) \<Rightarrow> None)"

lemma ref_redis_lists: "redis_lists ref_redis ref_lists"
  by (auto simp: redis_lists_def ref_redis_def ref_lists_def fun_eq_iff split: option.splits sum.splits)


definition ref_chat_env :: "(string \<rightharpoonup> string + string list, unit, mysqlRow list \<times> nat) businessEnv" where
  "ref_chat_env = ref_env\<lparr>serialize_chat := (\<lambda>m. Some (sc_message m)), parse_chat := (\<lambda>bs. Some (ref_chat bs))\<rparr>"

definition ref_chat_server :: "(string \<rightharpoonup> string + string list, unit, mysqlRow list \<times> nat) serverState" where
  "ref_chat_server =
     (ref_server Map.empty)\<lparr>world := (ref_world Map.empty)\<lparr>caches :=
        \<lparr>cache_manager = Some [redis_name ''bob'' \<mapsto>
           \<lparr>m_conf = ref_conf (redis_name ''bob''), m_cur_conn_cnt = 1, m_free_list = [7]\<rparr>],
         objs = (ref_state Map.empty)\<lparr>conn_heap :=
           [7 \<mapsto> \<lparr>m_pCachePool = ref_conf (redis_name ''bob''), m_pContext = Some 0, m_last_connect_time = 0\<rparr>]\<rparr>\<rparr>\<rparr>\<rparr>"


end
