(* ===== verification/Poller.thy ===== *)
theory Poller
  imports Text
begin

text \<open>
  Channels and the epoll poller (\<^verbatim>\<open>Channel\<close>, \<^verbatim>\<open>Poller\<close>, \<^verbatim>\<open>EPollPoller\<close>), with the part of \<^verbatim>\<open>EventLoop\<close> they go
  through. Channels live in a heap by address; \<open>in_loop\<close> says whether the calling thread is the thread of
  the loop. The epoll calls of the kernel are the record \<open>epollApi\<close> over an opaque kernel state.
  Log output is left out.

  The lemmas show that the set of descriptors epoll watches is always the one the channels ask
  for, and that no assertion of the poller fails when channels are used as the classes say.
\<close>

unbundle bit_operations_syntax

section \<open>State\<close>

abbreviation EPOLLIN :: "32 word" where "EPOLLIN \<equiv> 0x001"
abbreviation EPOLLPRI :: "32 word" where "EPOLLPRI \<equiv> 0x002"
abbreviation EPOLLOUT :: "32 word" where "EPOLLOUT \<equiv> 0x004"
abbreviation EPOLLERR :: "32 word" where "EPOLLERR \<equiv> 0x008"
abbreviation EPOLLHUP :: "32 word" where "EPOLLHUP \<equiv> 0x010"
abbreviation EPOLLRDHUP :: "32 word" where "EPOLLRDHUP \<equiv> 0x2000"

definition kNoneEvent :: "32 word" where "kNoneEvent = 0"
definition kReadEvent :: "32 word" where "kReadEvent = EPOLLIN OR EPOLLPRI"
definition kWriteEvent :: "32 word" where "kWriteEvent = EPOLLOUT"

definition kNew :: int where "kNew = - 1"
definition kAdded :: int where "kAdded = 1"
definition kDeleted :: int where "kDeleted = 2"

definition kInitEventListSize :: nat where "kInitEventListSize = 16"

record channel =
  ch_fd :: int
  ch_events :: "32 word"
  ch_revents :: "32 word"
  ch_index :: int
  ch_logHup :: bool
  ch_tied :: bool
  ch_eventHandling :: bool
  ch_addedToLoop :: bool

datatype epoll_op = EPOLL_CTL_ADD | EPOLL_CTL_DEL | EPOLL_CTL_MOD

text \<open>\<open>epoll_wait\<close> gives the ready descriptors with the pointers registered for them, or an error.\<close>

record 'k epollApi =
  epoll_ctl :: "epoll_op \<Rightarrow> int \<Rightarrow> 32 word \<Rightarrow> nat \<Rightarrow> 'k \<Rightarrow> bool \<times> 'k"
  epoll_wait :: "nat \<Rightarrow> int \<Rightarrow> 'k \<Rightarrow> (32 word \<times> nat) list option \<times> 'k"

record 'k reactor =
  chan_heap :: "nat \<rightharpoonup> channel"
  poll_channels :: "int \<rightharpoonup> nat"
  events_size :: nat
  kern :: 'k
  in_loop :: bool
  loop_eventHandling :: bool
  activeChannels :: "nat list"
  currentActiveChannel :: "nat option"

definition the_chan :: "nat \<Rightarrow> (('k, 'z) reactor_scheme, channel) prog" where
  "the_chan a s = (case chan_heap s a of None \<Rightarrow> Inl (UndefinedBehaviour ''Channel'') | Some c \<Rightarrow> Inr (c, s))"

definition set_chan :: "nat \<Rightarrow> (channel \<Rightarrow> channel) \<Rightarrow> (('k, 'z) reactor_scheme, unit) prog" where
  "set_chan a f = chain (the_chan a) (\<lambda>c. modify (\<lambda>s. s\<lparr>chan_heap := (chan_heap s)(a \<mapsto> f c)\<rparr>))"

definition ensure :: "('s \<Rightarrow> bool) \<Rightarrow> ('s, unit) prog" where
  "ensure P s = (if P s then Inr ((), s) else Inl AssertFailed)"

definition assertInLoopThread :: "(('k, 'z) reactor_scheme, unit) prog" where
  "assertInLoopThread s = (if in_loop s then Inr ((), s) else Inl (Fatal ''abortNotInLoopThread''))"


section \<open>EPollPoller\<close>

fun operationToString :: "epoll_op \<Rightarrow> string" where
  "operationToString EPOLL_CTL_ADD = ''ADD''"
| "operationToString EPOLL_CTL_DEL = ''DEL''"
| "operationToString EPOLL_CTL_MOD = ''MOD''"

definition EPollPoller_update :: "'k epollApi \<Rightarrow> epoll_op \<Rightarrow> nat \<Rightarrow> (('k, 'z) reactor_scheme, unit) prog" where
  "EPollPoller_update api operation a =
     chain (the_chan a) (\<lambda>c s.
     case epoll_ctl api operation (ch_fd c) (ch_events c) a (kern s) of
       (ok, k) \<Rightarrow> if ok \<or> operation = EPOLL_CTL_DEL then Inr ((), s\<lparr>kern := k\<rparr>) else Inl (Fatal ''epoll_ctl''))"

definition EPollPoller_updateChannel :: "'k epollApi \<Rightarrow> nat \<Rightarrow> (('k, 'z) reactor_scheme, unit) prog" where
  "EPollPoller_updateChannel api a =
     chain assertInLoopThread (\<lambda>_.
     chain (the_chan a) (\<lambda>c.
     let index = ch_index c; fd = ch_fd c in
     if index = kNew \<or> index = kDeleted then
       chain (if index = kNew
              then chain (ensure (\<lambda>s. poll_channels s fd = None)) (\<lambda>_. modify (\<lambda>s. s\<lparr>poll_channels := (poll_channels s)(fd \<mapsto> a)\<rparr>))
              else chain (ensure (\<lambda>s. poll_channels s fd \<noteq> None)) (\<lambda>_. ensure (\<lambda>s. poll_channels s fd = Some a))) (\<lambda>_.
       chain (set_chan a (\<lambda>c. c\<lparr>ch_index := kAdded\<rparr>)) (\<lambda>_.
       EPollPoller_update api EPOLL_CTL_ADD a))
     else
       chain (ensure (\<lambda>s. poll_channels s fd \<noteq> None)) (\<lambda>_.
       chain (ensure (\<lambda>s. poll_channels s fd = Some a)) (\<lambda>_.
       chain (ensure (\<lambda>_. index = kAdded)) (\<lambda>_.
       if ch_events c = kNoneEvent
       then chain (EPollPoller_update api EPOLL_CTL_DEL a) (\<lambda>_. set_chan a (\<lambda>c. c\<lparr>ch_index := kDeleted\<rparr>))
       else EPollPoller_update api EPOLL_CTL_MOD a)))))"

definition EPollPoller_removeChannel :: "'k epollApi \<Rightarrow> nat \<Rightarrow> (('k, 'z) reactor_scheme, unit) prog" where
  "EPollPoller_removeChannel api a =
     chain assertInLoopThread (\<lambda>_.
     chain (the_chan a) (\<lambda>c.
     let fd = ch_fd c; index = ch_index c in
     chain (ensure (\<lambda>s. poll_channels s fd \<noteq> None)) (\<lambda>_.
     chain (ensure (\<lambda>s. poll_channels s fd = Some a)) (\<lambda>_.
     chain (ensure (\<lambda>_. ch_events c = kNoneEvent)) (\<lambda>_.
     chain (ensure (\<lambda>_. index = kAdded \<or> index = kDeleted)) (\<lambda>_.
     chain (modify (\<lambda>s. s\<lparr>poll_channels := (poll_channels s)(fd := None)\<rparr>)) (\<lambda>_.
     chain (if index = kAdded then EPollPoller_update api EPOLL_CTL_DEL a else ret ()) (\<lambda>_.
     set_chan a (\<lambda>c. c\<lparr>ch_index := kNew\<rparr>)))))))))"

definition hasChannel :: "nat \<Rightarrow> (('k, 'z) reactor_scheme, bool) prog" where
  "hasChannel a =
     chain assertInLoopThread (\<lambda>_.
     chain (the_chan a) (\<lambda>c s. Inr (poll_channels s (ch_fd c) = Some a, s)))"

fun fillActiveChannels :: "(32 word \<times> nat) list \<Rightarrow> (('k, 'z) reactor_scheme, nat list) prog" where
  "fillActiveChannels [] = ret []"
| "fillActiveChannels ((ev, a) # evs) =
     chain (set_chan a (\<lambda>c. c\<lparr>ch_revents := ev\<rparr>)) (\<lambda>_.
     chain (fillActiveChannels evs) (\<lambda>as. ret (a # as)))"

definition EPollPoller_poll :: "'k epollApi \<Rightarrow> int \<Rightarrow> (('k, 'z) reactor_scheme, nat list) prog" where
  "EPollPoller_poll api timeoutMs s =
     (case epoll_wait api (events_size s) timeoutMs (kern s) of
        (None, k) \<Rightarrow> Inr ([], s\<lparr>kern := k\<rparr>)
      | (Some evs, k) \<Rightarrow>
          chain (ensure (\<lambda>s. length evs \<le> events_size s)) (\<lambda>_.
          chain (fillActiveChannels evs) (\<lambda>as.
          chain (modify (\<lambda>s. if evs \<noteq> [] \<and> length evs = events_size s then s\<lparr>events_size := events_size s * 2\<rparr> else s)) (\<lambda>_.
          ret as))) (s\<lparr>kern := k\<rparr>))"


section \<open>Channel\<close>

definition Channel_ctor :: "int \<Rightarrow> channel" where
  "Channel_ctor fd =
     \<lparr>ch_fd = fd, ch_events = 0, ch_revents = 0, ch_index = - 1, ch_logHup = True, ch_tied = False, ch_eventHandling = False,
      ch_addedToLoop = False\<rparr>"

definition Channel_dtor :: "nat \<Rightarrow> (('k, 'z) reactor_scheme, unit) prog" where
  "Channel_dtor a =
     chain (the_chan a) (\<lambda>c.
     chain (ensure (\<lambda>_. \<not> ch_eventHandling c)) (\<lambda>_.
     chain (ensure (\<lambda>_. \<not> ch_addedToLoop c)) (\<lambda>_.
     chain (ensure (\<lambda>s. in_loop s \<longrightarrow> poll_channels s (ch_fd c) \<noteq> Some a)) (\<lambda>_.
     modify (\<lambda>s. s\<lparr>chan_heap := (chan_heap s)(a := None)\<rparr>)))))"

definition Channel_tie :: "nat \<Rightarrow> (('k, 'z) reactor_scheme, unit) prog" where
  "Channel_tie a = set_chan a (\<lambda>c. c\<lparr>ch_tied := True\<rparr>)"

text \<open>\<^verbatim>\<open>EventLoop::updateChannel\<close> and \<^verbatim>\<open>EventLoop::removeChannel\<close>; there is one loop, the owner of every channel.\<close>

definition updateChannel :: "'k epollApi \<Rightarrow> nat \<Rightarrow> (('k, 'z) reactor_scheme, unit) prog" where
  "updateChannel api a = chain assertInLoopThread (\<lambda>_. EPollPoller_updateChannel api a)"

definition removeChannel :: "'k epollApi \<Rightarrow> nat \<Rightarrow> (('k, 'z) reactor_scheme, unit) prog" where
  "removeChannel api a =
     chain assertInLoopThread (\<lambda>_.
     chain (ensure (\<lambda>s. loop_eventHandling s \<longrightarrow> currentActiveChannel s = Some a \<or> a \<notin> set (activeChannels s))) (\<lambda>_.
     EPollPoller_removeChannel api a))"

definition Channel_update :: "'k epollApi \<Rightarrow> nat \<Rightarrow> (('k, 'z) reactor_scheme, unit) prog" where
  "Channel_update api a = chain (set_chan a (\<lambda>c. c\<lparr>ch_addedToLoop := True\<rparr>)) (\<lambda>_. updateChannel api a)"

definition Channel_remove :: "'k epollApi \<Rightarrow> nat \<Rightarrow> (('k, 'z) reactor_scheme, unit) prog" where
  "Channel_remove api a =
     chain (the_chan a) (\<lambda>c.
     chain (ensure (\<lambda>_. ch_events c = kNoneEvent)) (\<lambda>_.
     chain (set_chan a (\<lambda>c. c\<lparr>ch_addedToLoop := False\<rparr>)) (\<lambda>_.
     removeChannel api a)))"

definition set_events :: "'k epollApi \<Rightarrow> (32 word \<Rightarrow> 32 word) \<Rightarrow> nat \<Rightarrow> (('k, 'z) reactor_scheme, unit) prog" where
  "set_events api f a = chain (set_chan a (\<lambda>c. c\<lparr>ch_events := f (ch_events c)\<rparr>)) (\<lambda>_. Channel_update api a)"

definition enableReading :: "'k epollApi \<Rightarrow> nat \<Rightarrow> (('k, 'z) reactor_scheme, unit) prog" where
  "enableReading api = set_events api (\<lambda>e. e OR kReadEvent)"

definition disableReading :: "'k epollApi \<Rightarrow> nat \<Rightarrow> (('k, 'z) reactor_scheme, unit) prog" where
  "disableReading api = set_events api (\<lambda>e. e AND NOT kReadEvent)"

definition enableWriting :: "'k epollApi \<Rightarrow> nat \<Rightarrow> (('k, 'z) reactor_scheme, unit) prog" where
  "enableWriting api = set_events api (\<lambda>e. e OR kWriteEvent)"

definition disableWriting :: "'k epollApi \<Rightarrow> nat \<Rightarrow> (('k, 'z) reactor_scheme, unit) prog" where
  "disableWriting api = set_events api (\<lambda>e. e AND NOT kWriteEvent)"

definition disableAll :: "'k epollApi \<Rightarrow> nat \<Rightarrow> (('k, 'z) reactor_scheme, unit) prog" where
  "disableAll api = set_events api (\<lambda>e. kNoneEvent)"

definition isWriting :: "channel \<Rightarrow> bool" where
  "isWriting c \<longleftrightarrow> ch_events c AND kWriteEvent \<noteq> 0"

definition isReading :: "channel \<Rightarrow> bool" where
  "isReading c \<longleftrightarrow> ch_events c AND kReadEvent \<noteq> 0"

datatype channel_callback = CloseCallback | ErrorCallback | ReadCallback | WriteCallback

text \<open>The callbacks are the argument \<open>cb\<close>; each test reads \<^verbatim>\<open>revents_\<close> again.\<close>

definition when_revents :: "nat \<Rightarrow> (32 word \<Rightarrow> bool) \<Rightarrow> (('k, 'z) reactor_scheme, unit) prog \<Rightarrow> (('k, 'z) reactor_scheme, unit) prog" where
  "when_revents a P m = chain (the_chan a) (\<lambda>c. if P (ch_revents c) then m else ret ())"

definition handleEventWithGuard ::
    "(channel_callback \<Rightarrow> (('k, 'z) reactor_scheme, unit) prog) \<Rightarrow> nat \<Rightarrow> (('k, 'z) reactor_scheme, unit) prog" where
  "handleEventWithGuard cb a =
     chain (set_chan a (\<lambda>c. c\<lparr>ch_eventHandling := True\<rparr>)) (\<lambda>_.
     chain (when_revents a (\<lambda>r. r AND EPOLLHUP \<noteq> 0 \<and> r AND EPOLLIN = 0) (cb CloseCallback)) (\<lambda>_.
     chain (when_revents a (\<lambda>r. r AND EPOLLERR \<noteq> 0) (cb ErrorCallback)) (\<lambda>_.
     chain (when_revents a (\<lambda>r. r AND (EPOLLIN OR EPOLLPRI OR EPOLLRDHUP) \<noteq> 0) (cb ReadCallback)) (\<lambda>_.
     chain (when_revents a (\<lambda>r. r AND EPOLLOUT \<noteq> 0) (cb WriteCallback)) (\<lambda>_.
     set_chan a (\<lambda>c. c\<lparr>ch_eventHandling := False\<rparr>))))))"

text \<open>\<open>alive\<close> says whether the weak pointer of \<^verbatim>\<open>tie\<close> still has an owner.\<close>

definition handleEvent ::
    "bool \<Rightarrow> (channel_callback \<Rightarrow> (('k, 'z) reactor_scheme, unit) prog) \<Rightarrow> nat \<Rightarrow> (('k, 'z) reactor_scheme, unit) prog" where
  "handleEvent alive cb a =
     chain (the_chan a) (\<lambda>c.
     if ch_tied c then (if alive then handleEventWithGuard cb a else ret ()) else handleEventWithGuard cb a)"

definition eventsToString :: "int \<Rightarrow> 32 word \<Rightarrow> string" where
  "eventsToString fd ev =
     to_string fd @ '': '' @
     (if ev AND EPOLLIN \<noteq> 0 then ''IN '' else []) @
     (if ev AND EPOLLPRI \<noteq> 0 then ''PRI '' else []) @
     (if ev AND EPOLLOUT \<noteq> 0 then ''OUT '' else []) @
     (if ev AND EPOLLHUP \<noteq> 0 then ''HUP '' else []) @
     (if ev AND EPOLLRDHUP \<noteq> 0 then ''RDHUP '' else []) @
     (if ev AND EPOLLERR \<noteq> 0 then ''ERR '' else [])"


section \<open>What epoll watches\<close>

text \<open>
  The documented behaviour of \<^verbatim>\<open>epoll_ctl\<close> for a view \<open>watched\<close> of the kernel: the descriptors of the
  epoll instance with the events and the pointer registered for each.
\<close>

definition epoll_laws :: "'k epollApi \<Rightarrow> ('k \<Rightarrow> int \<rightharpoonup> 32 word \<times> nat) \<Rightarrow> bool" where
  "epoll_laws api watched \<longleftrightarrow>
     (\<forall>fd ev a k. watched k fd = None \<longrightarrow>
        fst (epoll_ctl api EPOLL_CTL_ADD fd ev a k) \<and>
        watched (snd (epoll_ctl api EPOLL_CTL_ADD fd ev a k)) = (watched k)(fd \<mapsto> (ev, a))) \<and>
     (\<forall>fd ev a k. watched k fd \<noteq> None \<longrightarrow>
        fst (epoll_ctl api EPOLL_CTL_MOD fd ev a k) \<and>
        watched (snd (epoll_ctl api EPOLL_CTL_MOD fd ev a k)) = (watched k)(fd \<mapsto> (ev, a))) \<and>
     (\<forall>fd ev a k. watched k fd \<noteq> None \<longrightarrow>
        fst (epoll_ctl api EPOLL_CTL_DEL fd ev a k) \<and>
        watched (snd (epoll_ctl api EPOLL_CTL_DEL fd ev a k)) = (watched k)(fd := None))"

text \<open>
  The invariant: the map of the poller and the indices of the channels agree, and epoll watches
  exactly the added channels, for the events they ask for.
\<close>

definition wanted :: "('k, 'z) reactor_scheme \<Rightarrow> int \<rightharpoonup> 32 word \<times> nat" where
  "wanted s fd =
     (case poll_channels s fd of
        None \<Rightarrow> None
      | Some a \<Rightarrow>
          (case chan_heap s a of
             None \<Rightarrow> None
           | Some c \<Rightarrow> if ch_index c = kAdded then Some (ch_events c, a) else None))"

definition poller_ok :: "('k \<Rightarrow> int \<rightharpoonup> 32 word \<times> nat) \<Rightarrow> ('k, 'z) reactor_scheme \<Rightarrow> bool" where
  "poller_ok watched s \<longleftrightarrow>
     (\<forall>fd a. poll_channels s fd = Some a \<longrightarrow>
        (\<exists>c. chan_heap s a = Some c \<and> ch_fd c = fd \<and> ch_index c \<noteq> kNew)) \<and>
     (\<forall>a c. chan_heap s a = Some c \<longrightarrow>
        (if ch_index c = kNew then \<not> ch_addedToLoop c
         else ch_addedToLoop c \<and> poll_channels s (ch_fd c) = Some a) \<and>
        ch_index c \<in> {kNew, kAdded, kDeleted} \<and>
        (ch_index c \<noteq> kAdded \<longrightarrow> ch_events c = kNoneEvent)) \<and>
     watched (kern s) = wanted s"

definition fd_free :: "nat \<Rightarrow> ('k, 'z) reactor_scheme \<Rightarrow> bool" where
  "fd_free a s \<longleftrightarrow>
     (\<exists>c. chan_heap s a = Some c \<and> (ch_index c = kNew \<longrightarrow> poll_channels s (ch_fd c) = None))"

lemmas index_defs = kNew_def kAdded_def kDeleted_def

lemmas poller_prog_defs = the_chan_def set_chan_def ensure_def assertInLoopThread_def modify_def chain_def ret_def
  EPollPoller_update_def Let_def

lemma poller_ok_watched: "poller_ok watched s \<Longrightarrow> watched (kern s) fd = wanted s fd"
  by (simp add: poller_ok_def)

lemma poller_ok_map:
  "poller_ok watched s \<Longrightarrow> poll_channels s fd = Some a \<Longrightarrow>
   \<exists>c. chan_heap s a = Some c \<and> ch_fd c = fd \<and> ch_index c \<noteq> kNew"
  by (simp add: poller_ok_def)

lemma poller_ok_chan:
  "poller_ok watched s \<Longrightarrow> chan_heap s a = Some c \<Longrightarrow>
   (if ch_index c = kNew then \<not> ch_addedToLoop c else ch_addedToLoop c \<and> poll_channels s (ch_fd c) = Some a) \<and>
   ch_index c \<in> {kNew, kAdded, kDeleted} \<and> (ch_index c \<noteq> kAdded \<longrightarrow> ch_events c = kNoneEvent)"
  by (simp add: poller_ok_def)

text \<open>The channel after its events were changed to \<open>ev\<close>.\<close>

definition updated :: "32 word \<Rightarrow> channel \<Rightarrow> channel" where
  "updated ev c =
     c\<lparr>ch_events := ev, ch_addedToLoop := True,
       ch_index := (if ch_index c = kAdded \<and> ev = kNoneEvent then kDeleted else kAdded)\<rparr>"

lemma set_events_runs:
  assumes "epoll_laws api watched" and "poller_ok watched s" and "in_loop s" and "chan_heap s a = Some c"
    and "ch_index c = kNew \<longrightarrow> poll_channels s (ch_fd c) = None"
  shows "\<exists>k. set_events api f a s = Inr ((), s\<lparr>chan_heap := (chan_heap s)(a \<mapsto> updated (f (ch_events c)) c),
      poll_channels := (poll_channels s)(ch_fd c \<mapsto> a), kern := k\<rparr>) \<and>
    watched k = (watched (kern s))(ch_fd c :=
      if ch_index c = kAdded \<and> f (ch_events c) = kNoneEvent then None else Some (f (ch_events c), a)) \<and>
    (\<forall>R. (\<forall>operation fd ev. R (snd (epoll_ctl api operation fd ev a (kern s)))) \<longrightarrow> R k)"
proof -
  note c = poller_ok_chan [OF assms(2,4)]
  consider "ch_index c = kNew" | "ch_index c = kDeleted" | "ch_index c = kAdded"
    using c by auto
  then show ?thesis
  proof cases
    case 1
    then have "watched (kern s) (ch_fd c) = None"
      using assms(5) by (simp add: poller_ok_watched [OF assms(2)] wanted_def)
    with assms(1) have "fst (epoll_ctl api EPOLL_CTL_ADD (ch_fd c) (f (ch_events c)) a (kern s))"
      "watched (snd (epoll_ctl api EPOLL_CTL_ADD (ch_fd c) (f (ch_events c)) a (kern s))) =
         (watched (kern s))(ch_fd c \<mapsto> (f (ch_events c), a))"
      by (auto simp: epoll_laws_def)
    with 1 show ?thesis
      using assms(3-5)
      by (intro exI [of _ "snd (epoll_ctl api EPOLL_CTL_ADD (ch_fd c) (f (ch_events c)) a (kern s))"])
         (auto simp: set_events_def Channel_update_def updateChannel_def EPollPoller_updateChannel_def poller_prog_defs
           updated_def index_defs split: prod.splits)
  next
    case 2
    then have m: "poll_channels s (ch_fd c) = Some a" "watched (kern s) (ch_fd c) = None"
      using c assms(4) by (simp_all add: poller_ok_watched [OF assms(2)] wanted_def index_defs)
    with assms(1) have "fst (epoll_ctl api EPOLL_CTL_ADD (ch_fd c) (f (ch_events c)) a (kern s))"
      "watched (snd (epoll_ctl api EPOLL_CTL_ADD (ch_fd c) (f (ch_events c)) a (kern s))) =
         (watched (kern s))(ch_fd c \<mapsto> (f (ch_events c), a))"
      by (auto simp: epoll_laws_def)
    with 2 m(1) show ?thesis
      using assms(3,4)
      by (intro exI [of _ "snd (epoll_ctl api EPOLL_CTL_ADD (ch_fd c) (f (ch_events c)) a (kern s))"])
         (auto simp: set_events_def Channel_update_def updateChannel_def EPollPoller_updateChannel_def poller_prog_defs
           updated_def index_defs fun_upd_idem split: prod.splits)
  next
    case 3
    then have m: "poll_channels s (ch_fd c) = Some a" "watched (kern s) (ch_fd c) \<noteq> None"
      using c assms(4) by (simp_all add: poller_ok_watched [OF assms(2)] wanted_def index_defs)
    show ?thesis
    proof (cases "f (ch_events c) = kNoneEvent")
      case True
      with assms(1) m(2) have "watched (snd (epoll_ctl api EPOLL_CTL_DEL (ch_fd c) kNoneEvent a (kern s))) =
          (watched (kern s))(ch_fd c := None)"
        by (auto simp: epoll_laws_def)
      with 3 m(1) True show ?thesis
        using assms(3,4)
        by (intro exI [of _ "snd (epoll_ctl api EPOLL_CTL_DEL (ch_fd c) kNoneEvent a (kern s))"])
           (auto simp: set_events_def Channel_update_def updateChannel_def EPollPoller_updateChannel_def poller_prog_defs
             updated_def index_defs fun_upd_idem split: prod.splits)
    next
      case False
      with assms(1) m(2) have "fst (epoll_ctl api EPOLL_CTL_MOD (ch_fd c) (f (ch_events c)) a (kern s))"
          "watched (snd (epoll_ctl api EPOLL_CTL_MOD (ch_fd c) (f (ch_events c)) a (kern s))) =
          (watched (kern s))(ch_fd c \<mapsto> (f (ch_events c), a))"
        by (auto simp: epoll_laws_def)
      moreover have idx: "c\<lparr>ch_events := e, ch_addedToLoop := True, ch_index := 1\<rparr> = c\<lparr>ch_events := e, ch_addedToLoop := True\<rparr>" for e
        using 3 by (cases c) (simp add: kAdded_def)
      ultimately show ?thesis
        using 3 m(1) False assms(3,4)
        by (intro exI [of _ "snd (epoll_ctl api EPOLL_CTL_MOD (ch_fd c) (f (ch_events c)) a (kern s))"])
           (auto simp: set_events_def Channel_update_def updateChannel_def EPollPoller_updateChannel_def poller_prog_defs
             updated_def index_defs idx fun_upd_idem split: prod.splits)
    qed
  qed
qed

lemma set_events_ok:
  assumes "epoll_laws api watched" and "poller_ok watched s" and "in_loop s" and "chan_heap s a = Some c"
    and "ch_index c = kNew \<longrightarrow> poll_channels s (ch_fd c) = None"
  shows "\<exists>k. set_events api f a s = Inr ((), s\<lparr>chan_heap := (chan_heap s)(a \<mapsto> updated (f (ch_events c)) c),
      poll_channels := (poll_channels s)(ch_fd c \<mapsto> a), kern := k\<rparr>) \<and>
    poller_ok watched (s\<lparr>chan_heap := (chan_heap s)(a \<mapsto> updated (f (ch_events c)) c),
      poll_channels := (poll_channels s)(ch_fd c \<mapsto> a), kern := k\<rparr>) \<and>
    (\<forall>R. (\<forall>operation fd ev. R (snd (epoll_ctl api operation fd ev a (kern s)))) \<longrightarrow> R k)"
proof -
  obtain k where k: "set_events api f a s = Inr ((), s\<lparr>chan_heap := (chan_heap s)(a \<mapsto> updated (f (ch_events c)) c),
      poll_channels := (poll_channels s)(ch_fd c \<mapsto> a), kern := k\<rparr>)" (is "_ = Inr ((), ?s')")
    "watched k = (watched (kern s))(ch_fd c :=
      if ch_index c = kAdded \<and> f (ch_events c) = kNoneEvent then None else Some (f (ch_events c), a))"
    "\<forall>R. (\<forall>operation fd ev. R (snd (epoll_ctl api operation fd ev a (kern s)))) \<longrightarrow> R k"
    using set_events_runs [OF assms, of f] by (elim exE conjE)
  note c = poller_ok_chan [OF assms(2,4)]
  have other: "poll_channels s fd \<noteq> Some a" if "fd \<noteq> ch_fd c" for fd
    using poller_ok_map [OF assms(2)] assms(4) that by fastforce
  have "watched k fd = wanted ?s' fd" for fd
    using other [of fd] poller_ok_watched [OF assms(2), of fd]
    by (auto simp: k(2) wanted_def updated_def index_defs split: option.splits)
  then have "watched (kern ?s') = wanted ?s'"
    by (simp add: fun_eq_iff)
  moreover have "\<forall>fd b. poll_channels ?s' fd = Some b \<longrightarrow>
      (\<exists>c. chan_heap ?s' b = Some c \<and> ch_fd c = fd \<and> ch_index c \<noteq> kNew)"
    using assms(2) other by (auto simp: poller_ok_def updated_def index_defs)
  moreover have "\<forall>b d. chan_heap ?s' b = Some d \<longrightarrow>
      (if ch_index d = kNew then \<not> ch_addedToLoop d else ch_addedToLoop d \<and> poll_channels ?s' (ch_fd d) = Some b) \<and>
      ch_index d \<in> {kNew, kAdded, kDeleted} \<and> (ch_index d \<noteq> kAdded \<longrightarrow> ch_events d = kNoneEvent)"
  proof (intro allI impI)
    fix b d
    assume d: "chan_heap ?s' b = Some d"
    show "(if ch_index d = kNew then \<not> ch_addedToLoop d else ch_addedToLoop d \<and> poll_channels ?s' (ch_fd d) = Some b) \<and>
      ch_index d \<in> {kNew, kAdded, kDeleted} \<and> (ch_index d \<noteq> kAdded \<longrightarrow> ch_events d = kNoneEvent)"
    proof (cases "b = a")
      case True
      with d show ?thesis by (auto simp: updated_def index_defs split: if_splits)
    next
      case False
      with d have "chan_heap s b = Some d" by simp
      from poller_ok_chan [OF assms(2) this] False c assms(5) show ?thesis
        by (auto split: if_splits)
    qed
  qed
  ultimately have "poller_ok watched ?s'"
    unfolding poller_ok_def by blast
  with k(1,3) show ?thesis by blast
qed

lemma remove_ok:
  assumes "epoll_laws api watched" and "poller_ok watched s" and "in_loop s" and "chan_heap s a = Some c"
    and "ch_index c \<noteq> kNew" and "ch_events c = kNoneEvent"
    and "loop_eventHandling s \<longrightarrow> currentActiveChannel s = Some a \<or> a \<notin> set (activeChannels s)"
  shows "\<exists>k. Channel_remove api a s = Inr ((), s\<lparr>chan_heap := (chan_heap s)(a \<mapsto> c\<lparr>ch_addedToLoop := False, ch_index := kNew\<rparr>),
      poll_channels := (poll_channels s)(ch_fd c := None), kern := k\<rparr>) \<and>
    poller_ok watched (s\<lparr>chan_heap := (chan_heap s)(a \<mapsto> c\<lparr>ch_addedToLoop := False, ch_index := kNew\<rparr>),
      poll_channels := (poll_channels s)(ch_fd c := None), kern := k\<rparr>) \<and>
    (\<forall>R. R (kern s) \<and> (\<forall>operation fd ev. R (snd (epoll_ctl api operation fd ev a (kern s)))) \<longrightarrow> R k)"
proof -
  note c = poller_ok_chan [OF assms(2,4)]
  then have m: "poll_channels s (ch_fd c) = Some a" "ch_index c = kAdded \<or> ch_index c = kDeleted"
    using assms(5) by auto
  define k where "k = (if ch_index c = kAdded then snd (epoll_ctl api EPOLL_CTL_DEL (ch_fd c) 0 a (kern s)) else kern s)"
  let ?s' = "s\<lparr>chan_heap := (chan_heap s)(a \<mapsto> c\<lparr>ch_addedToLoop := False, ch_index := kNew\<rparr>),
      poll_channels := (poll_channels s)(ch_fd c := None), kern := k\<rparr>"
  have ev: "ch_events c = 0"
    using assms(6) by (simp add: kNoneEvent_def)
  have "Channel_remove api a s = Inr ((), ?s')"
    using assms(3,4,7) m ev
    by (auto simp: Channel_remove_def removeChannel_def EPollPoller_removeChannel_def poller_prog_defs kNoneEvent_def
        k_def index_defs split: prod.splits)
  moreover have "watched k = (watched (kern s))(ch_fd c := None)"
    using assms(1,4) m
    by (auto simp: k_def epoll_laws_def poller_ok_watched [OF assms(2)] wanted_def index_defs fun_eq_iff)
  moreover have other: "poll_channels s fd \<noteq> Some a" if "fd \<noteq> ch_fd c" for fd
    using poller_ok_map [OF assms(2)] assms(4) that by fastforce
  moreover have "\<forall>b d. chan_heap s b = Some d \<and> b \<noteq> a \<longrightarrow> ch_index d = kNew \<or> ch_fd d \<noteq> ch_fd c"
    using m(1) poller_ok_chan [OF assms(2)] by fastforce
  ultimately have "watched k fd = wanted ?s' fd" for fd
    using poller_ok_watched [OF assms(2), of fd] other [of fd]
    by (auto simp: wanted_def index_defs split: option.splits)
  then have "watched (kern ?s') = wanted ?s'"
    by (simp add: fun_eq_iff)
  moreover have "\<forall>fd b. poll_channels ?s' fd = Some b \<longrightarrow>
      (\<exists>c. chan_heap ?s' b = Some c \<and> ch_fd c = fd \<and> ch_index c \<noteq> kNew)"
    using assms(2) other by (auto simp: poller_ok_def)
  moreover have "\<forall>b d. chan_heap ?s' b = Some d \<longrightarrow>
      (if ch_index d = kNew then \<not> ch_addedToLoop d else ch_addedToLoop d \<and> poll_channels ?s' (ch_fd d) = Some b) \<and>
      ch_index d \<in> {kNew, kAdded, kDeleted} \<and> (ch_index d \<noteq> kAdded \<longrightarrow> ch_events d = kNoneEvent)"
    using assms(6) m(1) poller_ok_chan [OF assms(2)] by (fastforce split: if_splits)
  ultimately have "poller_ok watched ?s'"
    unfolding poller_ok_def by blast
  moreover have "\<forall>R. R (kern s) \<and> (\<forall>operation fd ev. R (snd (epoll_ctl api operation fd ev a (kern s)))) \<longrightarrow> R k"
    by (simp add: k_def)
  ultimately show ?thesis
    using \<open>Channel_remove api a s = Inr ((), ?s')\<close> by blast
qed


section \<open>Any use of the channels\<close>

datatype chan_op =
    NewChannel nat int
  | EnableReading nat
  | DisableReading nat
  | EnableWriting nat
  | DisableWriting nat
  | DisableAll nat
  | RemoveChannel nat
  | DeleteChannel nat

fun chan_step :: "'k epollApi \<Rightarrow> chan_op \<Rightarrow> ('k reactor, unit) prog" where
  "chan_step api (NewChannel a fd) = modify (\<lambda>s. s\<lparr>chan_heap := (chan_heap s)(a \<mapsto> Channel_ctor fd)\<rparr>)"
| "chan_step api (EnableReading a) = enableReading api a"
| "chan_step api (DisableReading a) = disableReading api a"
| "chan_step api (EnableWriting a) = enableWriting api a"
| "chan_step api (DisableWriting a) = disableWriting api a"
| "chan_step api (DisableAll a) = disableAll api a"
| "chan_step api (RemoveChannel a) = Channel_remove api a"
| "chan_step api (DeleteChannel a) = Channel_dtor a"

text \<open>
  What the comments of the classes ask of their users: a channel exists; two channels for one
  descriptor are not registered at once; a channel is removed after \<^verbatim>\<open>disableAll\<close> and before it is
  destroyed.
\<close>

fun chan_allowed :: "chan_op \<Rightarrow> 'k reactor \<Rightarrow> bool" where
  "chan_allowed (NewChannel a fd) s = (chan_heap s a = None)"
| "chan_allowed (RemoveChannel a) s =
     (case chan_heap s a of
        None \<Rightarrow> False
      | Some c \<Rightarrow> ch_index c \<noteq> kNew \<and> ch_events c = kNoneEvent \<and>
          (loop_eventHandling s \<longrightarrow> currentActiveChannel s = Some a \<or> a \<notin> set (activeChannels s)))"
| "chan_allowed (DeleteChannel a) s =
     (case chan_heap s a of None \<Rightarrow> False | Some c \<Rightarrow> ch_index c = kNew \<and> \<not> ch_eventHandling c)"
| "chan_allowed (EnableReading a) s = fd_free a s"
| "chan_allowed (DisableReading a) s = fd_free a s"
| "chan_allowed (EnableWriting a) s = fd_free a s"
| "chan_allowed (DisableWriting a) s = fd_free a s"
| "chan_allowed (DisableAll a) s = fd_free a s"

definition new_reactor :: "'k \<Rightarrow> 'k reactor" where
  "new_reactor k =
     \<lparr>chan_heap = Map.empty, poll_channels = Map.empty, events_size = kInitEventListSize, kern = k, in_loop = True,
      loop_eventHandling = False, activeChannels = [], currentActiveChannel = None\<rparr>"

inductive chan_reachable :: "'k epollApi \<Rightarrow> ('k \<Rightarrow> int \<rightharpoonup> 32 word \<times> nat) \<Rightarrow> 'k reactor \<Rightarrow> bool" for api watched where
  start: "watched k = Map.empty \<Longrightarrow> chan_reachable api watched (new_reactor k)"
| step: "chan_reachable api watched s \<Longrightarrow> chan_allowed p s \<Longrightarrow> chan_step api p s = Inr ((), s') \<Longrightarrow>
     chan_reachable api watched s'"

lemma set_events_allowed:
  assumes "epoll_laws api watched" and "poller_ok watched s" and "in_loop s" and "fd_free a s"
  shows "\<exists>s'. set_events api f a s = Inr ((), s') \<and> poller_ok watched s' \<and> in_loop s'"
proof -
  obtain c where "chan_heap s a = Some c" "ch_index c = kNew \<longrightarrow> poll_channels s (ch_fd c) = None"
    using assms(4) by (auto simp: fd_free_def)
  from set_events_ok [OF assms(1-3) this, of f] assms(3) show ?thesis by auto
qed

lemma new_channel_ok:
  assumes "poller_ok watched s" and "chan_heap s a = None"
  shows "poller_ok watched (s\<lparr>chan_heap := (chan_heap s)(a \<mapsto> Channel_ctor fd)\<rparr>)"
proof -
  have not_mapped: "poll_channels s fd \<noteq> Some a" for fd
    using poller_ok_map [OF assms(1)] assms(2) by fastforce
  then have "wanted (s\<lparr>chan_heap := (chan_heap s)(a \<mapsto> Channel_ctor fd)\<rparr>) = wanted s"
    by (auto simp: wanted_def fun_eq_iff split: option.splits)
  then show ?thesis
    using assms(1) not_mapped unfolding poller_ok_def
    by (auto simp: Channel_ctor_def index_defs kNoneEvent_def split: if_splits)
qed

lemma delete_channel_ok:
  assumes "poller_ok watched s" and "chan_heap s a = Some c" and "ch_index c = kNew" and "\<not> ch_eventHandling c"
  shows "Channel_dtor a s = Inr ((), s\<lparr>chan_heap := (chan_heap s)(a := None)\<rparr>) \<and>
    poller_ok watched (s\<lparr>chan_heap := (chan_heap s)(a := None)\<rparr>)"
proof
  have not_mapped: "poll_channels s fd \<noteq> Some a" for fd
    using poller_ok_map [OF assms(1)] assms(2,3) by fastforce
  moreover have "\<not> ch_addedToLoop c"
    using poller_ok_chan [OF assms(1,2)] assms(3) by simp
  ultimately show "Channel_dtor a s = Inr ((), s\<lparr>chan_heap := (chan_heap s)(a := None)\<rparr>)"
    using assms(2,4) by (simp add: Channel_dtor_def poller_prog_defs)
  have "wanted (s\<lparr>chan_heap := (chan_heap s)(a := None)\<rparr>) = wanted s"
    using not_mapped by (auto simp: wanted_def fun_eq_iff split: option.splits)
  then show "poller_ok watched (s\<lparr>chan_heap := (chan_heap s)(a := None)\<rparr>)"
    using assms(1) not_mapped unfolding poller_ok_def by (auto split: if_splits)
qed

lemma chan_step_ok:
  assumes "epoll_laws api watched" and "poller_ok watched s" and "in_loop s" and "chan_allowed p s"
  shows "\<exists>s'. chan_step api p s = Inr ((), s') \<and> poller_ok watched s' \<and> in_loop s'"
proof (cases p)
  case (NewChannel a fd)
  with assms new_channel_ok [OF assms(2), of a fd] show ?thesis by (simp add: modify_apply)
next
  case (RemoveChannel a)
  with assms(4) obtain c where "chan_heap s a = Some c" "ch_index c \<noteq> kNew" "ch_events c = kNoneEvent"
      "loop_eventHandling s \<longrightarrow> currentActiveChannel s = Some a \<or> a \<notin> set (activeChannels s)"
    by (auto split: option.splits)
  from remove_ok [OF assms(1-3) this] RemoveChannel assms(3) show ?thesis by auto
next
  case (DeleteChannel a)
  with assms(4) obtain c where "chan_heap s a = Some c" "ch_index c = kNew" "\<not> ch_eventHandling c"
    by (auto split: option.splits)
  from delete_channel_ok [OF assms(2) this] DeleteChannel assms(3) show ?thesis by auto
qed (use assms set_events_allowed [OF assms(1-3)] in
      \<open>auto simp: enableReading_def disableReading_def enableWriting_def disableWriting_def disableAll_def\<close>)

lemma chan_reachable_ok:
  assumes "epoll_laws api watched" and "chan_reachable api watched s"
  shows "poller_ok watched s \<and> in_loop s"
  using assms(2)
proof induction
  case (start k)
  then show ?case by (simp add: new_reactor_def poller_ok_def wanted_def fun_eq_iff)
next
  case (step s p s')
  then show ?case using chan_step_ok [OF assms(1), of s p] by auto
qed


section \<open>Properties\<close>


definition ref_epoll :: "(int \<rightharpoonup> 32 word \<times> nat) epollApi" where
  "ref_epoll =
     \<lparr>epoll_ctl = (\<lambda>operation fd ev a k.
        case operation of
          EPOLL_CTL_ADD \<Rightarrow> if k fd = None then (True, k(fd \<mapsto> (ev, a))) else (False, k)
        | EPOLL_CTL_MOD \<Rightarrow> if k fd \<noteq> None then (True, k(fd \<mapsto> (ev, a))) else (False, k)
        | EPOLL_CTL_DEL \<Rightarrow> if k fd \<noteq> None then (True, k(fd := None)) else (False, k)),
      epoll_wait = (\<lambda>_ _ k. (Some [], k))\<rparr>"

lemma ref_epoll_laws: "epoll_laws ref_epoll (\<lambda>k. k)"
  by (simp add: epoll_laws_def ref_epoll_def)


end
