(* ===== verification/TcpConnection.thy ===== *)
theory TcpConnection
  imports Buffer Poller "HOL-Library.Sublist"
begin

text \<open>
  \<^verbatim>\<open>TcpConnection\<close>: the connection object with its channel, its two buffers and its state. The state
  extends the reactor of the loop it belongs to. The socket calls of the kernel are \<open>sockApi\<close>. The
  functors a connection queues in its loop are kept in \<open>functors\<close> in order and run by \<open>run_functor\<close>; the message and
  connection callbacks of the user are arguments. Addresses and log output are left out.

  The lemmas follow the bytes of the messages: what was written to the socket, followed by what
  waits in the output buffer, is the concatenation of the messages that were accepted.
\<close>

section \<open>State\<close>

datatype StateE = kDisconnected | kConnecting | kConnected | kDisconnecting

datatype conn_functor =
    SendInLoop string
  | ShutdownInLoop
  | ForceCloseInLoop
  | StartReadInLoop
  | StopReadInLoop
  | WriteComplete
  | HighWaterMark nat

record 'k sockApi =
  epoll :: "'k epollApi"
  sys_write :: "int \<Rightarrow> string \<Rightarrow> 'k \<Rightarrow> (nat + nat) \<times> 'k"
  sys_readv :: "int \<Rightarrow> nat \<Rightarrow> 'k \<Rightarrow> (nat + string) \<times> 'k"
  sys_shutdownWrite :: "int \<Rightarrow> 'k \<Rightarrow> 'k"
  sys_setKeepAlive :: "int \<Rightarrow> bool \<Rightarrow> 'k \<Rightarrow> 'k"
  sys_setTcpNoDelay :: "int \<Rightarrow> bool \<Rightarrow> 'k \<Rightarrow> 'k"

abbreviation EWOULDBLOCK :: nat where "EWOULDBLOCK \<equiv> 11"
abbreviation EPIPE :: nat where "EPIPE \<equiv> 32"
abbreviation ECONNRESET :: nat where "ECONNRESET \<equiv> 104"

record 'k tcpState = "'k reactor" +
  conn_state :: StateE
  conn_reading :: bool
  conn_channel :: nat
  highWaterMark :: nat
  writeCompleteCallback :: bool
  highWaterMarkCallback :: bool
  inputBuffer :: buffer
  outputBuffer :: buffer
  functors :: "conn_functor list"
  delayed_forceClose :: nat

type_synonym ('k, 'a) tcp_prog = "('k tcpState, 'a) prog"

definition setState :: "StateE \<Rightarrow> ('k, unit) tcp_prog" where
  "setState st = modify (\<lambda>s. s\<lparr>conn_state := st\<rparr>)"

definition own_channel :: "('k, channel) tcp_prog" where
  "own_channel = chain state (\<lambda>s. the_chan (conn_channel s))"

definition on_channel :: "(nat \<Rightarrow> ('k, unit) tcp_prog) \<Rightarrow> ('k, unit) tcp_prog" where
  "on_channel m = chain state (\<lambda>s. m (conn_channel s))"

definition on_kernel :: "('k \<Rightarrow> 'a \<times> 'k) \<Rightarrow> ('k, 'a) tcp_prog" where
  "on_kernel f s = (case f (kern s) of (x, k) \<Rightarrow> Inr (x, s\<lparr>kern := k\<rparr>))"

definition on_output :: "(buffer \<Rightarrow> buffer res) \<Rightarrow> ('k, unit) tcp_prog" where
  "on_output f s = andThen (f (outputBuffer s)) (\<lambda>b. Inr ((), s\<lparr>outputBuffer := b\<rparr>))"

definition queueInLoop :: "conn_functor \<Rightarrow> ('k, unit) tcp_prog" where
  "queueInLoop f = modify (\<lambda>s. s\<lparr>functors := functors s @ [f]\<rparr>)"

definition runInLoop :: "('k, unit) tcp_prog \<Rightarrow> conn_functor \<Rightarrow> ('k, unit) tcp_prog" where
  "runInLoop m f = chain state (\<lambda>s. if in_loop s then m else queueInLoop f)"


section \<open>Sending\<close>

text \<open>
  The result of the direct write: the bytes written and whether the connection is broken. More
  bytes than were given would make \<^verbatim>\<open>remaining\<close> wrap around and fail the assertion.
\<close>

definition write_directly :: "'k sockApi \<Rightarrow> string \<Rightarrow> ('k, nat \<times> bool) tcp_prog" where
  "write_directly api data =
     chain own_channel (\<lambda>c.
     chain (on_kernel (sys_write api (ch_fd c) data)) (\<lambda>r.
     case r of
       Inr nwrote \<Rightarrow>
         chain (ensure (\<lambda>_. nwrote \<le> length data)) (\<lambda>_.
         chain state (\<lambda>s.
         chain (if nwrote = length data \<and> writeCompleteCallback s then queueInLoop WriteComplete else ret ()) (\<lambda>_.
         ret (nwrote, False))))
     | Inl e \<Rightarrow> ret (0, e \<noteq> EWOULDBLOCK \<and> (e = EPIPE \<or> e = ECONNRESET))))"

text \<open>What remains of a message goes behind the output, and the channel asks to write.\<close>

definition keep_rest :: "'k sockApi \<Rightarrow> string \<Rightarrow> ('k, unit) tcp_prog" where
  "keep_rest api rest =
     chain state (\<lambda>s.
     let oldLen = readableBytes (outputBuffer s) in
     chain (if oldLen + length rest \<ge> highWaterMark s \<and> oldLen < highWaterMark s \<and> highWaterMarkCallback s
            then queueInLoop (HighWaterMark (oldLen + length rest)) else ret ()) (\<lambda>_.
     chain (on_output (Buffer_append rest)) (\<lambda>_.
     chain own_channel (\<lambda>c.
     if \<not> isWriting c then on_channel (enableWriting (epoll api)) else ret ()))))"

definition sendInLoop :: "'k sockApi \<Rightarrow> string \<Rightarrow> ('k, unit) tcp_prog" where
  "sendInLoop api data =
     chain assertInLoopThread (\<lambda>_.
     chain state (\<lambda>s.
     if conn_state s = kDisconnected then ret ()
     else
     chain own_channel (\<lambda>c.
     chain (if \<not> isWriting c \<and> readableBytes (outputBuffer s) = 0 then write_directly api data else ret (0, False)) (\<lambda>(nwrote, faultError).
     let remaining = length data - nwrote in
     if \<not> faultError \<and> remaining > 0 then keep_rest api (drop nwrote data) else ret ()))))"

definition TcpConnection_send :: "'k sockApi \<Rightarrow> string \<Rightarrow> ('k, unit) tcp_prog" where
  "TcpConnection_send api message =
     chain state (\<lambda>s.
     if conn_state s = kConnected then runInLoop (sendInLoop api message) (SendInLoop message) else ret ())"

text \<open>The overload on a \<^verbatim>\<open>Buffer*\<close> empties the buffer in both branches.\<close>

definition TcpConnection_send_buffer :: "'k sockApi \<Rightarrow> buffer \<Rightarrow> ('k, buffer) tcp_prog" where
  "TcpConnection_send_buffer api b =
     chain state (\<lambda>s.
     if conn_state s = kConnected then
       (if in_loop s then chain (sendInLoop api (bytes b)) (\<lambda>_. ret (retrieveAll b))
        else chain (lift (retrieveAllAsString b)) (\<lambda>(message, b').
             chain (queueInLoop (SendInLoop message)) (\<lambda>_. ret b')))
     else ret b)"


section \<open>Closing\<close>

definition shutdownInLoop :: "'k sockApi \<Rightarrow> ('k, unit) tcp_prog" where
  "shutdownInLoop api =
     chain assertInLoopThread (\<lambda>_.
     chain own_channel (\<lambda>c.
     if \<not> isWriting c then on_kernel (\<lambda>k. ((), sys_shutdownWrite api (ch_fd c) k)) else ret ()))"

definition TcpConnection_shutdown :: "'k sockApi \<Rightarrow> ('k, unit) tcp_prog" where
  "TcpConnection_shutdown api =
     chain state (\<lambda>s.
     if conn_state s = kConnected
     then chain (setState kDisconnecting) (\<lambda>_. runInLoop (shutdownInLoop api) ShutdownInLoop)
     else ret ())"

definition open_state :: "StateE \<Rightarrow> bool" where
  "open_state st \<longleftrightarrow> st = kConnected \<or> st = kDisconnecting"

definition forceClose :: "('k, unit) tcp_prog" where
  "forceClose =
     chain state (\<lambda>s.
     if open_state (conn_state s)
     then chain (setState kDisconnecting) (\<lambda>_. queueInLoop ForceCloseInLoop)
     else ret ())"

definition forceCloseWithDelay :: "('k, unit) tcp_prog" where
  "forceCloseWithDelay =
     chain state (\<lambda>s.
     if open_state (conn_state s)
     then chain (setState kDisconnecting) (\<lambda>_. modify (\<lambda>s. s\<lparr>delayed_forceClose := Suc (delayed_forceClose s)\<rparr>))
     else ret ())"

text \<open>
  \<^verbatim>\<open>handleClose\<close> calls the connection callback \<open>ccb\<close>; its last line only names the pointer, so the
  close callback is not called.
\<close>

definition handleClose :: "'k sockApi \<Rightarrow> ('k, unit) tcp_prog \<Rightarrow> ('k, unit) tcp_prog" where
  "handleClose api ccb =
     chain assertInLoopThread (\<lambda>_.
     chain (ensure (\<lambda>s. open_state (conn_state s))) (\<lambda>_.
     chain (setState kDisconnected) (\<lambda>_.
     chain (on_channel (disableAll (epoll api))) (\<lambda>_.
     ccb))))"

definition forceCloseInLoop :: "'k sockApi \<Rightarrow> ('k, unit) tcp_prog \<Rightarrow> ('k, unit) tcp_prog" where
  "forceCloseInLoop api ccb =
     chain assertInLoopThread (\<lambda>_.
     chain state (\<lambda>s. if open_state (conn_state s) then handleClose api ccb else ret ()))"

fun stateToString :: "StateE \<Rightarrow> string" where
  "stateToString kDisconnected = ''kDisconnected''"
| "stateToString kConnecting = ''kConnecting''"
| "stateToString kConnected = ''kConnected''"
| "stateToString kDisconnecting = ''kDisconnecting''"


section \<open>Reading and writing\<close>

definition startReadInLoop :: "'k sockApi \<Rightarrow> ('k, unit) tcp_prog" where
  "startReadInLoop api =
     chain assertInLoopThread (\<lambda>_.
     chain state (\<lambda>s.
     chain own_channel (\<lambda>c.
     if \<not> conn_reading s \<or> \<not> isReading c
     then chain (on_channel (enableReading (epoll api))) (\<lambda>_. modify (\<lambda>s. s\<lparr>conn_reading := True\<rparr>))
     else ret ())))"

definition startRead :: "'k sockApi \<Rightarrow> ('k, unit) tcp_prog" where
  "startRead api = runInLoop (startReadInLoop api) StartReadInLoop"

definition stopReadInLoop :: "'k sockApi \<Rightarrow> ('k, unit) tcp_prog" where
  "stopReadInLoop api =
     chain assertInLoopThread (\<lambda>_.
     chain state (\<lambda>s.
     chain own_channel (\<lambda>c.
     if conn_reading s \<or> isReading c
     then chain (on_channel (disableReading (epoll api))) (\<lambda>_. modify (\<lambda>s. s\<lparr>conn_reading := False\<rparr>))
     else ret ())))"

definition stopRead :: "'k sockApi \<Rightarrow> ('k, unit) tcp_prog" where
  "stopRead api = runInLoop (stopReadInLoop api) StopReadInLoop"

definition setTcpNoDelay :: "'k sockApi \<Rightarrow> bool \<Rightarrow> ('k, unit) tcp_prog" where
  "setTcpNoDelay api on = chain own_channel (\<lambda>c. on_kernel (\<lambda>k. ((), sys_setTcpNoDelay api (ch_fd c) on k)))"

text \<open>The constructor on a channel for \<open>fd\<close> at address \<open>a\<close> of the reactor.\<close>

definition TcpConnection_ctor :: "'k sockApi \<Rightarrow> nat \<Rightarrow> int \<Rightarrow> 'k reactor \<Rightarrow> 'k tcpState res" where
  "TcpConnection_ctor api a fd r =
     andThen (Buffer_ctor kInitialSize) (\<lambda>b.
     Inr \<lparr>chan_heap = (chan_heap r)(a \<mapsto> Channel_ctor fd), poll_channels = poll_channels r, events_size = events_size r,
          kern = sys_setKeepAlive api fd True (kern r), in_loop = in_loop r, loop_eventHandling = loop_eventHandling r,
          activeChannels = activeChannels r, currentActiveChannel = currentActiveChannel r,
          conn_state = kConnecting, conn_reading = True, conn_channel = a, highWaterMark = 64 * 1024 * 1024,
          writeCompleteCallback = False, highWaterMarkCallback = False, inputBuffer = b, outputBuffer = b,
          functors = [], delayed_forceClose = 0\<rparr>)"

definition connectEstablished :: "'k sockApi \<Rightarrow> ('k, unit) tcp_prog \<Rightarrow> ('k, unit) tcp_prog" where
  "connectEstablished api ccb =
     chain assertInLoopThread (\<lambda>_.
     chain (ensure (\<lambda>s. conn_state s = kConnecting)) (\<lambda>_.
     chain (setState kConnected) (\<lambda>_.
     chain (on_channel Channel_tie) (\<lambda>_.
     chain (on_channel (enableReading (epoll api))) (\<lambda>_.
     ccb)))))"

definition connectDestroyed :: "'k sockApi \<Rightarrow> ('k, unit) tcp_prog \<Rightarrow> ('k, unit) tcp_prog" where
  "connectDestroyed api ccb =
     chain assertInLoopThread (\<lambda>_.
     chain state (\<lambda>s.
     chain (if conn_state s = kConnected
            then chain (setState kDisconnected) (\<lambda>_. chain (on_channel (disableAll (epoll api))) (\<lambda>_. ccb))
            else ret ()) (\<lambda>_.
     on_channel (Channel_remove (epoll api)))))"

definition read_input :: "'k sockApi \<Rightarrow> ('k, int) tcp_prog" where
  "read_input api =
     chain own_channel (\<lambda>c s.
     case sys_readv api (ch_fd c) (readFd_room (inputBuffer s)) (kern s) of
       (r, k) \<Rightarrow>
         andThen (readFd (\<lambda>_. r) (inputBuffer s)) (\<lambda>((n, _), b). Inr (n, s\<lparr>kern := k, inputBuffer := b\<rparr>)))"

definition handleRead :: "'k sockApi \<Rightarrow> ('k, unit) tcp_prog \<Rightarrow> ('k, unit) tcp_prog \<Rightarrow> ('k, unit) tcp_prog" where
  "handleRead api ccb mcb =
     chain assertInLoopThread (\<lambda>_.
     chain (read_input api) (\<lambda>n.
     if n > 0 then mcb else if n = 0 then handleClose api ccb else ret ()))"

definition handleWrite :: "'k sockApi \<Rightarrow> ('k, unit) tcp_prog" where
  "handleWrite api =
     chain assertInLoopThread (\<lambda>_.
     chain own_channel (\<lambda>c.
     if isWriting c then
       chain state (\<lambda>s.
       chain (on_kernel (sys_write api (ch_fd c) (bytes (outputBuffer s)))) (\<lambda>r.
       case r of
         Inr n \<Rightarrow>
           if n > 0 then
             chain (on_output (retrieve n)) (\<lambda>_.
             chain state (\<lambda>s.
             if readableBytes (outputBuffer s) = 0 then
               chain (on_channel (disableWriting (epoll api))) (\<lambda>_.
               chain (if writeCompleteCallback s then queueInLoop WriteComplete else ret ()) (\<lambda>_.
               if conn_state s = kDisconnecting then shutdownInLoop api else ret ()))
             else ret ()))
           else ret ()
       | Inl e \<Rightarrow> ret ()))
     else ret ()))"

definition handleError :: "('k, unit) tcp_prog" where
  "handleError = ret ()"

definition TcpConnection_dtor :: "('k, unit) tcp_prog" where
  "TcpConnection_dtor = ensure (\<lambda>s. conn_state s = kDisconnected)"

text \<open>The callbacks of the channel, and the functors as the loop runs them.\<close>

fun conn_callback :: "'k sockApi \<Rightarrow> ('k, unit) tcp_prog \<Rightarrow> ('k, unit) tcp_prog \<Rightarrow> channel_callback \<Rightarrow> ('k, unit) tcp_prog" where
  "conn_callback api ccb mcb ReadCallback = handleRead api ccb mcb"
| "conn_callback api ccb mcb WriteCallback = handleWrite api"
| "conn_callback api ccb mcb CloseCallback = handleClose api ccb"
| "conn_callback api ccb mcb ErrorCallback = handleError"

fun run_functor :: "'k sockApi \<Rightarrow> ('k, unit) tcp_prog \<Rightarrow> conn_functor \<Rightarrow> ('k, unit) tcp_prog" where
  "run_functor api ccb (SendInLoop message) = sendInLoop api message"
| "run_functor api ccb ShutdownInLoop = shutdownInLoop api"
| "run_functor api ccb ForceCloseInLoop = forceCloseInLoop api ccb"
| "run_functor api ccb StartReadInLoop = startReadInLoop api"
| "run_functor api ccb StopReadInLoop = stopReadInLoop api"
| "run_functor api ccb WriteComplete = ret ()"
| "run_functor api ccb (HighWaterMark n) = ret ()"

definition defaultConnectionCallback :: "('k, unit) tcp_prog" where
  "defaultConnectionCallback = ret ()"

definition defaultMessageCallback :: "('k, unit) tcp_prog" where
  "defaultMessageCallback = modify (\<lambda>s. s\<lparr>inputBuffer := retrieveAll (inputBuffer s)\<rparr>)"


section \<open>The socket\<close>

text \<open>
  What the kernel documents, for three views of it: what epoll watches, the bytes a socket took
  from the program, and whether its write side was shut down. A write takes a prefix of the
  bytes or fails; after the shutdown it fails with \<^verbatim>\<open>EPIPE\<close>.
\<close>

record 'k sockView =
  v_watched :: "'k \<Rightarrow> int \<rightharpoonup> 32 word \<times> nat"
  v_sent :: "'k \<Rightarrow> int \<Rightarrow> string"
  v_fin :: "'k \<Rightarrow> int \<Rightarrow> bool"

definition keeps_socket :: "'k sockView \<Rightarrow> 'k \<Rightarrow> 'k \<Rightarrow> bool" where
  "keeps_socket V k k' \<longleftrightarrow> v_sent V k' = v_sent V k \<and> v_fin V k' = v_fin V k"

definition write_law :: "'k sockApi \<Rightarrow> 'k sockView \<Rightarrow> bool" where
  "write_law api V \<longleftrightarrow>
     (\<forall>fd d k r k'. sys_write api fd d k = (r, k') \<longrightarrow>
        v_watched V k' = v_watched V k \<and> v_fin V k' = v_fin V k \<and> (v_fin V k fd \<longrightarrow> r = Inl EPIPE) \<and>
        (case r of
           Inr n \<Rightarrow> n \<le> length d \<and> v_sent V k' = (v_sent V k)(fd := v_sent V k fd @ take n d)
         | Inl e \<Rightarrow> v_sent V k' = v_sent V k))"

definition readv_law :: "'k sockApi \<Rightarrow> 'k sockView \<Rightarrow> bool" where
  "readv_law api V \<longleftrightarrow>
     (\<forall>fd n k r k'. sys_readv api fd n k = (r, k') \<longrightarrow>
        v_watched V k' = v_watched V k \<and> keeps_socket V k k' \<and> (\<forall>d. r = Inr d \<longrightarrow> length d \<le> n))"

definition shutdown_law :: "'k sockApi \<Rightarrow> 'k sockView \<Rightarrow> bool" where
  "shutdown_law api V \<longleftrightarrow>
     (\<forall>fd k. v_watched V (sys_shutdownWrite api fd k) = v_watched V k \<and>
        v_sent V (sys_shutdownWrite api fd k) = v_sent V k \<and>
        v_fin V (sys_shutdownWrite api fd k) = (v_fin V k)(fd := True))"

definition sock_laws :: "'k sockApi \<Rightarrow> 'k sockView \<Rightarrow> bool" where
  "sock_laws api V \<longleftrightarrow>
     epoll_laws (epoll api) (v_watched V) \<and> write_law api V \<and> readv_law api V \<and> shutdown_law api V \<and>
     (\<forall>operation fd ev a k. keeps_socket V k (snd (epoll_ctl (epoll api) operation fd ev a k))) \<and>
     (\<forall>fd b k. v_watched V (sys_setKeepAlive api fd b k) = v_watched V k \<and> keeps_socket V k (sys_setKeepAlive api fd b k))"

lemma sock_laws_epoll: "sock_laws api V \<Longrightarrow> epoll_laws (epoll api) (v_watched V)"
  by (simp add: sock_laws_def)

lemma sock_laws_ctl: "sock_laws api V \<Longrightarrow> keeps_socket V k (snd (epoll_ctl (epoll api) operation fd ev a k))"
  by (simp add: sock_laws_def)

lemma sock_laws_write:
  assumes "sock_laws api V" and "sys_write api fd d k = (r, k')"
  shows "v_watched V k' = v_watched V k" and "v_fin V k' = v_fin V k" and "v_fin V k fd \<Longrightarrow> r = Inl EPIPE"
    and "r = Inr n \<Longrightarrow> n \<le> length d"
    and "r = Inr n \<Longrightarrow> v_sent V k' = (v_sent V k)(fd := v_sent V k fd @ take n d)"
    and "r = Inl e \<Longrightarrow> v_sent V k' = v_sent V k"
proof -
  have "write_law api V"
    using assms(1) by (simp add: sock_laws_def)
  note law = this [unfolded write_law_def, rule_format, OF assms(2)]
  show "v_watched V k' = v_watched V k" "v_fin V k' = v_fin V k" "v_fin V k fd \<Longrightarrow> r = Inl EPIPE"
    "r = Inr n \<Longrightarrow> n \<le> length d" "r = Inr n \<Longrightarrow> v_sent V k' = (v_sent V k)(fd := v_sent V k fd @ take n d)"
    "r = Inl e \<Longrightarrow> v_sent V k' = v_sent V k"
    using law by simp_all
qed


section \<open>The invariant\<close>

definition conn_fd :: "'k tcpState \<Rightarrow> int" where
  "conn_fd s = (case chan_heap s (conn_channel s) of Some c \<Rightarrow> ch_fd c | None \<Rightarrow> - 1)"

text \<open>The bytes that went to the socket, and those that wait behind them.\<close>

definition stream :: "'k sockView \<Rightarrow> 'k tcpState \<Rightarrow> string" where
  "stream V s = v_sent V (kern s) (conn_fd s) @ bytes (outputBuffer s)"

text \<open>Before the shutdown no \<^verbatim>\<open>shutdownInLoop\<close> is queued, and before the start nothing to send.\<close>

definition early :: "StateE \<Rightarrow> bool" where
  "early st \<longleftrightarrow> st = kConnecting \<or> st = kConnected"

definition functors_fit :: "StateE \<Rightarrow> conn_functor list \<Rightarrow> bool" where
  "functors_fit st fs \<longleftrightarrow> (st = kConnecting \<longrightarrow> (\<forall>m. SendInLoop m \<notin> set fs)) \<and> (early st \<longrightarrow> ShutdownInLoop \<notin> set fs)"

definition own_ok :: "'k sockView \<Rightarrow> 'k tcpState \<Rightarrow> channel \<Rightarrow> bool" where
  "own_ok V s c \<longleftrightarrow>
     chan_heap s (conn_channel s) = Some c \<and> (ch_index c = kNew \<longrightarrow> poll_channels s (ch_fd c) = None) \<and>
     (conn_state s = kConnecting \<longrightarrow> \<not> isWriting c \<and> bytes (outputBuffer s) = []) \<and> functors_fit (conn_state s) (functors s) \<and>
     (early (conn_state s) \<longrightarrow> \<not> v_fin V (kern s) (ch_fd c)) \<and>
     (conn_state s = kDisconnected \<longrightarrow> \<not> isWriting c) \<and>
     (open_state (conn_state s) \<longrightarrow> ch_index c \<noteq> kNew \<and> (isWriting c \<longleftrightarrow> bytes (outputBuffer s) \<noteq> []) \<and>
        (v_fin V (kern s) (ch_fd c) \<longrightarrow> bytes (outputBuffer s) = []))"

definition tcp_ok :: "'k sockView \<Rightarrow> 'k tcpState \<Rightarrow> bool" where
  "tcp_ok V s \<longleftrightarrow>
     poller_ok (v_watched V) s \<and> in_loop s \<and> buffer_ok (inputBuffer s) \<and> buffer_ok (outputBuffer s) \<and> (\<exists>c. own_ok V s c)"

lemma tcp_okD:
  assumes "tcp_ok V s"
  obtains c where "poller_ok (v_watched V) s" "in_loop s" "buffer_ok (inputBuffer s)" "buffer_ok (outputBuffer s)"
    "own_ok V s c" "chan_heap s (conn_channel s) = Some c" "conn_fd s = ch_fd c"
  using assms by (auto simp: tcp_ok_def own_ok_def conn_fd_def)

lemma write_event_simps [simp]:
  "(e OR kWriteEvent) AND kWriteEvent = kWriteEvent" "(e AND NOT kWriteEvent) AND kWriteEvent = 0"
  "(e OR kReadEvent) AND kWriteEvent = e AND kWriteEvent"
  "(e AND NOT kReadEvent) AND kWriteEvent = e AND kWriteEvent" "kWriteEvent \<noteq> 0"
proof -
  have rw: "kReadEvent AND kWriteEvent = 0" "NOT kReadEvent AND kWriteEvent = kWriteEvent"
    by (simp_all add: kReadEvent_def kWriteEvent_def)
  show "(e OR kWriteEvent) AND kWriteEvent = kWriteEvent" "(e AND NOT kWriteEvent) AND kWriteEvent = 0"
    by (simp_all add: bit.conj_disj_distrib2 and.assoc)
  show "(e OR kReadEvent) AND kWriteEvent = e AND kWriteEvent"
    using rw by (simp add: bit.conj_disj_distrib2)
  show "(e AND NOT kReadEvent) AND kWriteEvent = e AND kWriteEvent"
    using rw by (simp add: and.assoc)
  show "kWriteEvent \<noteq> 0"
    by (simp add: kWriteEvent_def)
qed

lemma set_events_socket:
  assumes "sock_laws api V" and "poller_ok (v_watched V) s" and "in_loop s" and "chan_heap s a = Some c"
    and "ch_index c = kNew \<longrightarrow> poll_channels s (ch_fd c) = None"
  obtains k where "set_events (epoll api) f a s = Inr ((), s\<lparr>chan_heap := (chan_heap s)(a \<mapsto> updated (f (ch_events c)) c),
      poll_channels := (poll_channels s)(ch_fd c \<mapsto> a), kern := k\<rparr>)" "keeps_socket V (kern s) k"
    "poller_ok (v_watched V) (s\<lparr>chan_heap := (chan_heap s)(a \<mapsto> updated (f (ch_events c)) c),
      poll_channels := (poll_channels s)(ch_fd c \<mapsto> a), kern := k\<rparr>)"
proof -
  from set_events_ok [OF sock_laws_epoll [OF assms(1)] assms(2-5), of f] obtain k where
    k: "set_events (epoll api) f a s = Inr ((), s\<lparr>chan_heap := (chan_heap s)(a \<mapsto> updated (f (ch_events c)) c),
      poll_channels := (poll_channels s)(ch_fd c \<mapsto> a), kern := k\<rparr>)"
    "poller_ok (v_watched V) (s\<lparr>chan_heap := (chan_heap s)(a \<mapsto> updated (f (ch_events c)) c),
      poll_channels := (poll_channels s)(ch_fd c \<mapsto> a), kern := k\<rparr>)"
    "\<forall>R. (\<forall>operation fd ev. R (snd (epoll_ctl (epoll api) operation fd ev a (kern s)))) \<longrightarrow> R k"
    by (elim exE conjE)
  from k(3) [THEN spec, of "keeps_socket V (kern s)"] have "keeps_socket V (kern s) k"
    using sock_laws_ctl [OF assms(1)] by simp
  from k(1) this k(2) show ?thesis by (rule that)
qed

lemma remove_socket:
  assumes "sock_laws api V" and "poller_ok (v_watched V) s" and "in_loop s" and "chan_heap s a = Some c"
    and "ch_index c \<noteq> kNew" and "ch_events c = kNoneEvent"
    and "loop_eventHandling s \<longrightarrow> currentActiveChannel s = Some a \<or> a \<notin> set (activeChannels s)"
  obtains k where "Channel_remove (epoll api) a s = Inr ((), s\<lparr>chan_heap := (chan_heap s)(a \<mapsto> c\<lparr>ch_addedToLoop := False, ch_index := kNew\<rparr>),
      poll_channels := (poll_channels s)(ch_fd c := None), kern := k\<rparr>)" "keeps_socket V (kern s) k"
    "poller_ok (v_watched V) (s\<lparr>chan_heap := (chan_heap s)(a \<mapsto> c\<lparr>ch_addedToLoop := False, ch_index := kNew\<rparr>),
      poll_channels := (poll_channels s)(ch_fd c := None), kern := k\<rparr>)"
proof -
  from remove_ok [OF sock_laws_epoll [OF assms(1)] assms(2-7)] obtain k where
    k: "Channel_remove (epoll api) a s = Inr ((), s\<lparr>chan_heap := (chan_heap s)(a \<mapsto> c\<lparr>ch_addedToLoop := False, ch_index := kNew\<rparr>),
      poll_channels := (poll_channels s)(ch_fd c := None), kern := k\<rparr>)"
    "poller_ok (v_watched V) (s\<lparr>chan_heap := (chan_heap s)(a \<mapsto> c\<lparr>ch_addedToLoop := False, ch_index := kNew\<rparr>),
      poll_channels := (poll_channels s)(ch_fd c := None), kern := k\<rparr>)"
    "\<forall>R. R (kern s) \<and> (\<forall>operation fd ev. R (snd (epoll_ctl (epoll api) operation fd ev a (kern s)))) \<longrightarrow> R k"
    by (elim exE conjE)
  from k(3) [THEN spec, of "keeps_socket V (kern s)"] have "keeps_socket V (kern s) k"
    using sock_laws_ctl [OF assms(1)] by (simp add: keeps_socket_def)
  from k(1) this k(2) show ?thesis by (rule that)
qed

text \<open>The poller sees the kernel only through what is watched, and nothing of the connection.\<close>

lemma poller_ok_cong:
  assumes "poller_ok W s" and "chan_heap s' = chan_heap s" and "poll_channels s' = poll_channels s"
    and "W (kern s') = W (kern s)"
  shows "poller_ok W s'"
proof -
  have "wanted s' = wanted s"
    by (rule ext) (simp add: wanted_def assms(2,3) split: option.split)
  with assms show ?thesis by (simp add: poller_ok_def)
qed

lemma poller_ok_tie:
  assumes "poller_ok W s" and "chan_heap s a = Some c" and "chan_heap s' = (chan_heap s)(a \<mapsto> c\<lparr>ch_tied := True\<rparr>)"
    and "poll_channels s' = poll_channels s" and "kern s' = kern s"
  shows "poller_ok W s'"
proof -
  have "wanted s' = wanted s"
    using assms(2) by (auto simp: wanted_def assms(3,4) fun_eq_iff split: option.split)
  moreover have "ch_fd c = fd \<and> ch_index c \<noteq> kNew" if "poll_channels s fd = Some a" for fd
    using poller_ok_map [OF assms(1) that] assms(2) by auto
  ultimately show ?thesis
    using assms by (auto simp: poller_ok_def)
qed

lemma updated_simps [simp]:
  "ch_fd (updated ev c) = ch_fd c" "ch_events (updated ev c) = ev" "ch_index (updated ev c) \<noteq> kNew"
  by (simp_all add: updated_def index_defs)


section \<open>The operations\<close>

lemmas tcp_prog_defs = own_channel_def on_channel_def on_kernel_def on_output_def queueInLoop_def setState_def
  runInLoop_def the_chan_def ensure_def assertInLoopThread_def prog_simps

definition write_breaks :: "'k sockApi \<Rightarrow> int \<Rightarrow> string \<Rightarrow> 'k \<Rightarrow> bool" where
  "write_breaks api fd d k \<longleftrightarrow> fst (sys_write api fd d k) \<in> {Inl EPIPE, Inl ECONNRESET}"

lemma write_directly_runs:
  assumes "sock_laws api V" and "chan_heap s (conn_channel s) = Some c"
  obtains n broken k fs where "write_directly api d s = Inr ((n, broken), s\<lparr>kern := k, functors := fs\<rparr>)"
    "n \<le> length d" "v_watched V k = v_watched V (kern s)" "v_fin V k = v_fin V (kern s)"
    "v_sent V k = (v_sent V (kern s))(ch_fd c := v_sent V (kern s) (ch_fd c) @ take n d)"
    "v_fin V (kern s) (ch_fd c) \<longrightarrow> broken" "broken \<longrightarrow> n = 0 \<and> write_breaks api (ch_fd c) d (kern s)"
    "functors_fit st (functors s) \<longrightarrow> functors_fit st fs"
proof -
  obtain r k where w: "sys_write api (ch_fd c) d (kern s) = (r, k)"
    by (cases "sys_write api (ch_fd c) d (kern s)")
  note law = sock_laws_write [OF assms(1) w]
  show ?thesis
  proof (cases r)
    case (Inl e)
    with w assms(2) have "write_directly api d s =
        Inr ((0, e \<noteq> EWOULDBLOCK \<and> (e = EPIPE \<or> e = ECONNRESET)), s\<lparr>kern := k, functors := functors s\<rparr>)"
      by (simp add: write_directly_def tcp_prog_defs)
    then show ?thesis
      by (rule that) (use law Inl w in \<open>auto simp: fun_upd_idem write_breaks_def\<close>)
  next
    case (Inr n)
    with w assms(2) law(4) have "write_directly api d s = Inr ((n, False), s\<lparr>kern := k, functors :=
        functors s @ (if n = length d \<and> writeCompleteCallback s then [WriteComplete] else [])\<rparr>)"
      by (simp add: write_directly_def tcp_prog_defs)
    then show ?thesis
      by (rule that) (use law Inr in \<open>auto simp: functors_fit_def\<close>)
  qed
qed

fun st_rank :: "StateE \<Rightarrow> nat" where
  "st_rank kConnecting = 0" | "st_rank kConnected = 1" | "st_rank kDisconnecting = 2" | "st_rank kDisconnected = 3"

lemma st_rank_le [simp]: "st_rank st \<le> 3"
  by (cases st) simp_all

text \<open>
  A step that handed the messages \<open>ms\<close> to the connection: the invariant holds again, the state
  did not go back, and the stream grew by whole messages of \<open>ms\<close>, in their order.
\<close>

definition conn_grows :: "'k sockView \<Rightarrow> string list \<Rightarrow> 'k tcpState \<Rightarrow> 'k tcpState \<Rightarrow> bool" where
  "conn_grows V ms s s' \<longleftrightarrow>
     tcp_ok V s' \<and> conn_fd s' = conn_fd s \<and> st_rank (conn_state s) \<le> st_rank (conn_state s') \<and>
     (\<exists>ms'. subseq ms' ms \<and> stream V s' = stream V s @ concat ms')"

lemma conn_growsI:
  "tcp_ok V s' \<Longrightarrow> conn_fd s' = conn_fd s \<Longrightarrow> st_rank (conn_state s) \<le> st_rank (conn_state s') \<Longrightarrow>
   stream V s' = stream V s \<Longrightarrow> conn_grows V ms s s'"
  unfolding conn_grows_def by (intro conjI exI [of _ "[]"]) simp_all

lemma conn_growsI1:
  "tcp_ok V s' \<Longrightarrow> conn_fd s' = conn_fd s \<Longrightarrow> conn_state s' = conn_state s \<Longrightarrow> stream V s' = stream V s @ m \<Longrightarrow>
   conn_grows V [m] s s'"
  unfolding conn_grows_def by (intro conjI exI [of _ "[m]"]) simp_all

lemma conn_grows_refl: "tcp_ok V s \<Longrightarrow> conn_grows V ms s s"
  by (simp add: conn_growsI)

lemma conn_grows_trans:
  assumes "conn_grows V ms s t" and "conn_grows V ns t u"
  shows "conn_grows V (ms @ ns) s u"
proof -
  obtain ms' ns' where "subseq ms' ms" "stream V t = stream V s @ concat ms'" "subseq ns' ns" "stream V u = stream V t @ concat ns'"
    using assms unfolding conn_grows_def by (elim conjE exE)
  then show ?thesis
    using assms unfolding conn_grows_def by (intro conjI exI [of _ "ms' @ ns'"]) (simp_all add: list_emb_append_mono)
qed

lemma conn_grows_ok: "conn_grows V ms s s' \<Longrightarrow> tcp_ok V s'"
  by (simp add: conn_grows_def)

text \<open>Changing the events of the own channel, with \<open>w\<close> the new interest in writing.\<close>

lemma own_set_events:
  assumes "sock_laws api V" and "poller_ok (v_watched V) s" and "in_loop s" and "chan_heap s (conn_channel s) = Some c"
    and "ch_index c = kNew \<longrightarrow> poll_channels s (ch_fd c) = None"
  obtains k where "on_channel (set_events (epoll api) f) s = Inr ((), s\<lparr>chan_heap := (chan_heap s)(conn_channel s \<mapsto> updated (f (ch_events c)) c),
      poll_channels := (poll_channels s)(ch_fd c \<mapsto> conn_channel s), kern := k\<rparr>)" "keeps_socket V (kern s) k"
    "poller_ok (v_watched V) (s\<lparr>chan_heap := (chan_heap s)(conn_channel s \<mapsto> updated (f (ch_events c)) c),
      poll_channels := (poll_channels s)(ch_fd c \<mapsto> conn_channel s), kern := k\<rparr>)"
proof -
  obtain k where "set_events (epoll api) f (conn_channel s) s = Inr ((), s\<lparr>chan_heap := (chan_heap s)(conn_channel s \<mapsto> updated (f (ch_events c)) c),
      poll_channels := (poll_channels s)(ch_fd c \<mapsto> conn_channel s), kern := k\<rparr>)" "keeps_socket V (kern s) k"
    "poller_ok (v_watched V) (s\<lparr>chan_heap := (chan_heap s)(conn_channel s \<mapsto> updated (f (ch_events c)) c),
      poll_channels := (poll_channels s)(ch_fd c \<mapsto> conn_channel s), kern := k\<rparr>)"
    using set_events_socket [OF assms(1-3) assms(4,5), of f] by blast
  then show ?thesis
    by (intro that [of k]) (simp_all add: on_channel_def prog_simps)
qed

lemma keep_rest_ok:
  assumes "sock_laws api V" and "tcp_ok V s" and "open_state (conn_state s)" and "\<not> v_fin V (kern s) (conn_fd s)" and "rest \<noteq> []"
  obtains s' where "keep_rest api rest s = Inr ((), s')" "tcp_ok V s'" "conn_fd s' = conn_fd s"
    "stream V s' = stream V s @ rest" "conn_state s' = conn_state s"
proof -
  from assms(2) obtain c where c: "poller_ok (v_watched V) s" "in_loop s" "buffer_ok (inputBuffer s)" "buffer_ok (outputBuffer s)"
    "own_ok V s c" "chan_heap s (conn_channel s) = Some c" "conn_fd s = ch_fd c" by (rule tcp_okD)
  from Buffer_append_ok [OF c(4), of rest] obtain b where
    b: "Buffer_append rest (outputBuffer s) = Inr b" "buffer_ok b" "bytes b = bytes (outputBuffer s) @ rest" by blast
  define fs where "fs = functors s @ (if readableBytes (outputBuffer s) + length rest \<ge> highWaterMark s \<and>
      readableBytes (outputBuffer s) < highWaterMark s \<and> highWaterMarkCallback s
    then [HighWaterMark (readableBytes (outputBuffer s) + length rest)] else [])"
  define t where "t = s\<lparr>functors := fs, outputBuffer := b\<rparr>"
  have fit: "functors_fit (conn_state s) fs"
    using c(5) by (auto simp: own_ok_def functors_fit_def fs_def)
  have run: "keep_rest api rest s = (if \<not> isWriting c then on_channel (enableWriting (epoll api)) else ret ()) t"
    using b(1) c(6) by (simp add: keep_rest_def tcp_prog_defs t_def fs_def Let_def)
  have t: "poller_ok (v_watched V) t" "in_loop t" "chan_heap t (conn_channel t) = Some c"
    "ch_index c = kNew \<longrightarrow> poll_channels t (ch_fd c) = None"
    using c by (auto simp: t_def own_ok_def intro: poller_ok_cong)
  show ?thesis
  proof (cases "isWriting c")
    case True
    have "keep_rest api rest s = Inr ((), t)"
      using True run by (simp add: prog_simps)
    then show ?thesis
      by (rule that) (use c t b fit assms(3-5) True in \<open>auto simp: t_def tcp_ok_def own_ok_def conn_fd_def stream_def open_state_def\<close>)
  next
    case False
    from own_set_events [OF assms(1) t, of "\<lambda>e. e OR kWriteEvent"] obtain k where
      k: "on_channel (enableWriting (epoll api)) t = Inr ((), t\<lparr>chan_heap := (chan_heap t)(conn_channel t \<mapsto> updated (ch_events c OR kWriteEvent) c),
        poll_channels := (poll_channels t)(ch_fd c \<mapsto> conn_channel t), kern := k\<rparr>)" "keeps_socket V (kern t) k"
      "poller_ok (v_watched V) (t\<lparr>chan_heap := (chan_heap t)(conn_channel t \<mapsto> updated (ch_events c OR kWriteEvent) c),
        poll_channels := (poll_channels t)(ch_fd c \<mapsto> conn_channel t), kern := k\<rparr>)"
      unfolding enableWriting_def by blast
    from False run k(1) have "keep_rest api rest s = Inr ((), t\<lparr>chan_heap := (chan_heap t)(conn_channel t \<mapsto> updated (ch_events c OR kWriteEvent) c),
        poll_channels := (poll_channels t)(ch_fd c \<mapsto> conn_channel t), kern := k\<rparr>)" by simp
    then show ?thesis
      by (rule that) (use c t b fit k(2,3) assms(3-5) in \<open>auto simp: t_def tcp_ok_def own_ok_def conn_fd_def stream_def open_state_def
        keeps_socket_def isWriting_def\<close>)
  qed
qed

text \<open>With output waiting a message goes behind it.\<close>

lemma sendInLoop_queues:
  assumes "sock_laws api V" and "tcp_ok V s" and "open_state (conn_state s)" and "bytes (outputBuffer s) \<noteq> []"
  obtains s' where "sendInLoop api d s = Inr ((), s')" "tcp_ok V s'" "conn_fd s' = conn_fd s"
    "stream V s' = stream V s @ d" "conn_state s' = conn_state s"
proof -
  from assms(2) obtain c where c: "in_loop s" "buffer_ok (outputBuffer s)" "own_ok V s c"
    "chan_heap s (conn_channel s) = Some c" "conn_fd s = ch_fd c" by (rule tcp_okD)
  with assms(3,4) have run: "sendInLoop api d s = (if d \<noteq> [] then keep_rest api d s else Inr ((), s))"
    and fin: "\<not> v_fin V (kern s) (conn_fd s)"
    by (auto simp: sendInLoop_def tcp_prog_defs open_state_def own_ok_def)
  show ?thesis
  proof (cases "d = []")
    case True
    with run assms(2) show ?thesis
      by (intro that [of s]) simp_all
  next
    case False
    from keep_rest_ok [OF assms(1-3) fin False] obtain s' where
      "keep_rest api d s = Inr ((), s')" "tcp_ok V s'" "conn_fd s' = conn_fd s" "stream V s' = stream V s @ d" "conn_state s' = conn_state s" .
    with False run show ?thesis
      by (intro that [of s']) simp_all
  qed
qed

text \<open>Otherwise it is written at once, and what the socket does not take waits, unless the connection is broken.\<close>

lemma sendInLoop_writes:
  assumes "sock_laws api V" and "tcp_ok V s" and "open_state (conn_state s)" and "bytes (outputBuffer s) = []"
  obtains s' where "sendInLoop api d s = Inr ((), s')" "tcp_ok V s'" "conn_fd s' = conn_fd s"
    "stream V s' = stream V s @ d \<or> stream V s' = stream V s \<and> write_breaks api (conn_fd s) d (kern s)" "conn_state s' = conn_state s"
proof -
  from assms(2) obtain c where c: "poller_ok (v_watched V) s" "in_loop s" "buffer_ok (inputBuffer s)" "buffer_ok (outputBuffer s)"
    "own_ok V s c" "chan_heap s (conn_channel s) = Some c" "conn_fd s = ch_fd c" by (rule tcp_okD)
  from write_directly_runs [OF assms(1) c(6), of d "conn_state s"] obtain n broken k fs where
    w: "write_directly api d s = Inr ((n, broken), s\<lparr>kern := k, functors := fs\<rparr>)"
    "n \<le> length d" "v_watched V k = v_watched V (kern s)" "v_fin V k = v_fin V (kern s)"
    "v_sent V k = (v_sent V (kern s))(ch_fd c := v_sent V (kern s) (ch_fd c) @ take n d)"
    "v_fin V (kern s) (ch_fd c) \<longrightarrow> broken" "broken \<longrightarrow> n = 0 \<and> write_breaks api (ch_fd c) d (kern s)"
    "functors_fit (conn_state s) (functors s) \<longrightarrow> functors_fit (conn_state s) fs" .
  define t where "t = s\<lparr>kern := k, functors := fs\<rparr>"
  have t: "tcp_ok V t" "conn_fd t = conn_fd s" "stream V t = stream V s @ take n d" "conn_state t = conn_state s"
  proof -
    have "poller_ok (v_watched V) t"
      by (rule poller_ok_cong [OF c(1)]) (simp_all add: t_def w(3))
    moreover have "own_ok V t c"
      using c(5) w(4,8) by (simp add: own_ok_def t_def)
    ultimately show "tcp_ok V t"
      using c(2-4) by (auto simp: tcp_ok_def t_def)
    show "conn_fd t = conn_fd s" "stream V t = stream V s @ take n d" "conn_state t = conn_state s"
      using c(6) assms(4) w(5) by (simp_all add: conn_fd_def stream_def t_def)
  qed
  have run: "sendInLoop api d s = (if \<not> broken \<and> n < length d then keep_rest api (drop n d) t else Inr ((), t))"
    using assms(3,4) c(2,5,6) length_bytes [OF c(4)] w(1)
    by (auto simp: sendInLoop_def tcp_prog_defs open_state_def own_ok_def t_def)
  show ?thesis
  proof (cases "\<not> broken \<and> n < length d")
    case True
    with w(4,6) c(7) t(2) have "\<not> v_fin V (kern t) (conn_fd t)"
      by (auto simp: t_def)
    with keep_rest_ok [OF assms(1) t(1), of "drop n d"] True assms(3) t(4) obtain s' where
      "keep_rest api (drop n d) t = Inr ((), s')" "tcp_ok V s'" "conn_fd s' = conn_fd t"
      "stream V s' = stream V t @ drop n d" "conn_state s' = conn_state t" by auto
    with True run t show ?thesis
      by (intro that [of s']) simp_all
  next
    case False
    then have "stream V t = stream V s @ d \<or> stream V t = stream V s \<and> write_breaks api (conn_fd s) d (kern s)"
      using t(3) w(7) c(7) by auto
    with False run t show ?thesis
      by (intro that [of t]) auto
  qed
qed

lemma sendInLoop_accepts:
  assumes "sock_laws api V" and "tcp_ok V s" and "open_state (conn_state s)" and "\<not> write_breaks api (conn_fd s) d (kern s)"
  obtains s' where "sendInLoop api d s = Inr ((), s')" "conn_fd s' = conn_fd s" "stream V s' = stream V s @ d"
proof (cases "bytes (outputBuffer s) = []")
  case True
  show ?thesis
    by (rule sendInLoop_writes [OF assms(1-3) True, of d]) (use assms(4) in \<open>auto intro!: that\<close>)
next
  case False
  show ?thesis
    by (rule sendInLoop_queues [OF assms(1-3) False, of d]) (auto intro!: that)
qed

lemma sendInLoop_ok:
  assumes "sock_laws api V" and "tcp_ok V s" and "conn_state s \<noteq> kConnecting"
  obtains s' where "sendInLoop api d s = Inr ((), s')" "conn_grows V [d] s s'" "conn_state s' = conn_state s"
proof (cases "conn_state s = kDisconnected")
  case True
  with assms(2) have "sendInLoop api d s = Inr ((), s)"
    by (simp add: sendInLoop_def tcp_prog_defs tcp_ok_def)
  then show ?thesis
    by (rule that) (simp_all add: conn_growsI assms(2))
next
  case False
  with assms(3) have st: "open_state (conn_state s)"
    by (cases "conn_state s") (auto simp: open_state_def)
  show ?thesis
  proof (cases "bytes (outputBuffer s) = []")
    case True
    show ?thesis
      by (rule sendInLoop_writes [OF assms(1,2) st True, of d]) (auto intro!: that intro: conn_growsI conn_growsI1)
  next
    case False
    show ?thesis
      by (rule sendInLoop_queues [OF assms(1,2) st False, of d]) (auto intro!: that intro: conn_growsI1)
  qed
qed

lemma shutdownInLoop_ok:
  assumes "sock_laws api V" and "tcp_ok V s" and "\<not> early (conn_state s)"
  obtains s' where "shutdownInLoop api s = Inr ((), s')" "conn_grows V [] s s'" "conn_state s' = conn_state s"
    "bytes (outputBuffer s) = [] \<longrightarrow> v_fin V (kern s') (conn_fd s')" "outputBuffer s' = outputBuffer s"
proof -
  from assms(2) obtain c where c: "poller_ok (v_watched V) s" "in_loop s" "buffer_ok (inputBuffer s)" "buffer_ok (outputBuffer s)"
    "own_ok V s c" "chan_heap s (conn_channel s) = Some c" "conn_fd s = ch_fd c" by (rule tcp_okD)
  have law: "shutdown_law api V"
    using assms(1) by (simp add: sock_laws_def)
  show ?thesis
  proof (cases "isWriting c")
    case True
    with c have "bytes (outputBuffer s) \<noteq> []"
      by (cases "conn_state s") (auto simp: own_ok_def open_state_def)
    moreover from True c have "shutdownInLoop api s = Inr ((), s)"
      by (simp add: shutdownInLoop_def tcp_prog_defs)
    ultimately show ?thesis
      by (intro that [of s]) (simp_all add: conn_growsI assms(2))
  next
    case False
    define t where "t = s\<lparr>kern := sys_shutdownWrite api (ch_fd c) (kern s)\<rparr>"
    have "shutdownInLoop api s = Inr ((), t)"
      using False c by (simp add: shutdownInLoop_def tcp_prog_defs t_def)
    moreover have "conn_fd t = conn_fd s" "stream V t = stream V s" "v_fin V (kern t) (conn_fd t)" "conn_state t = conn_state s"
      "outputBuffer t = outputBuffer s"
      using law c by (simp_all add: t_def conn_fd_def stream_def shutdown_law_def)
    moreover have "tcp_ok V t"
      using law c False assms(3) by (auto simp: t_def tcp_ok_def own_ok_def shutdown_law_def intro: poller_ok_cong)
    ultimately show ?thesis
      by (intro that [of t]) (simp_all add: conn_growsI)
  qed
qed

text \<open>The close paths turn every event off; reading on and off does not touch the output.\<close>

lemma close_channel_ok:
  assumes "sock_laws api V" and "tcp_ok V s" and "open_state (conn_state s)"
  obtains s' where "chain (setState kDisconnected) (\<lambda>_. on_channel (disableAll (epoll api))) s = Inr ((), s')"
    "conn_grows V [] s s'" "conn_state s' = kDisconnected" "\<exists>c. chan_heap s' (conn_channel s') = Some c \<and> ch_events c = kNoneEvent \<and> ch_index c \<noteq> kNew"
    "loop_eventHandling s' = loop_eventHandling s" "currentActiveChannel s' = currentActiveChannel s"
    "activeChannels s' = activeChannels s" "conn_channel s' = conn_channel s"
proof -
  from assms(2) obtain c where c: "poller_ok (v_watched V) s" "in_loop s" "buffer_ok (inputBuffer s)" "buffer_ok (outputBuffer s)"
    "own_ok V s c" "chan_heap s (conn_channel s) = Some c" "conn_fd s = ch_fd c" by (rule tcp_okD)
  define t where "t = s\<lparr>conn_state := kDisconnected\<rparr>"
  have t: "poller_ok (v_watched V) t" "in_loop t" "chan_heap t (conn_channel t) = Some c"
    "ch_index c = kNew \<longrightarrow> poll_channels t (ch_fd c) = None"
    using c by (auto simp: t_def own_ok_def intro: poller_ok_cong)
  from own_set_events [OF assms(1) t, of "\<lambda>e. kNoneEvent"] obtain k where
    k: "on_channel (disableAll (epoll api)) t = Inr ((), t\<lparr>chan_heap := (chan_heap t)(conn_channel t \<mapsto> updated kNoneEvent c),
      poll_channels := (poll_channels t)(ch_fd c \<mapsto> conn_channel t), kern := k\<rparr>)" "keeps_socket V (kern t) k"
    "poller_ok (v_watched V) (t\<lparr>chan_heap := (chan_heap t)(conn_channel t \<mapsto> updated kNoneEvent c),
      poll_channels := (poll_channels t)(ch_fd c \<mapsto> conn_channel t), kern := k\<rparr>)" (is "poller_ok _ ?s'")
    unfolding disableAll_def by blast
  have run: "chain (setState kDisconnected) (\<lambda>_. on_channel (disableAll (epoll api))) s = Inr ((), ?s')"
    using k(1) by (simp add: setState_def prog_simps t_def)
  have "conn_grows V [] s ?s'"
    using c k(2,3) by (intro conn_growsI)
      (auto simp: t_def tcp_ok_def own_ok_def conn_fd_def stream_def keeps_socket_def isWriting_def open_state_def kNoneEvent_def
        early_def functors_fit_def)
  then show ?thesis
    by (rule that [OF run]) (simp_all add: t_def)
qed

lemma set_reading_ok:
  assumes "sock_laws api V" and "tcp_ok V s" and "f = (\<lambda>e. e OR kReadEvent) \<or> f = (\<lambda>e. e AND NOT kReadEvent)"
  obtains s' where "chain (on_channel (set_events (epoll api) f)) (\<lambda>_. modify (\<lambda>s. s\<lparr>conn_reading := b\<rparr>)) s = Inr ((), s')"
    "conn_grows V [] s s'" "conn_state s' = conn_state s"
proof -
  from assms(2) obtain c where c: "poller_ok (v_watched V) s" "in_loop s" "buffer_ok (inputBuffer s)" "buffer_ok (outputBuffer s)"
    "own_ok V s c" "chan_heap s (conn_channel s) = Some c" "conn_fd s = ch_fd c" by (rule tcp_okD)
  have i: "ch_index c = kNew \<longrightarrow> poll_channels s (ch_fd c) = None"
    using c(5) by (simp add: own_ok_def)
  from own_set_events [OF assms(1) c(1,2,6) i, of f] obtain k where
    k: "on_channel (set_events (epoll api) f) s = Inr ((), s\<lparr>chan_heap := (chan_heap s)(conn_channel s \<mapsto> updated (f (ch_events c)) c),
      poll_channels := (poll_channels s)(ch_fd c \<mapsto> conn_channel s), kern := k\<rparr>)" "keeps_socket V (kern s) k"
    "poller_ok (v_watched V) (s\<lparr>chan_heap := (chan_heap s)(conn_channel s \<mapsto> updated (f (ch_events c)) c),
      poll_channels := (poll_channels s)(ch_fd c \<mapsto> conn_channel s), kern := k\<rparr>)" (is "poller_ok _ ?t") .
  have w: "isWriting (updated (f (ch_events c)) c) = isWriting c"
    using assms(3) by (auto simp: isWriting_def)
  have "poller_ok (v_watched V) (?t\<lparr>conn_reading := b\<rparr>)"
    by (rule poller_ok_cong [OF k(3)]) simp_all
  then have "conn_grows V [] s (?t\<lparr>conn_reading := b\<rparr>)"
    using c k(2) w by (intro conn_growsI) (auto simp: tcp_ok_def own_ok_def conn_fd_def stream_def keeps_socket_def)
  with k(1) show ?thesis
    by (intro that [of "?t\<lparr>conn_reading := b\<rparr>"]) (simp_all add: prog_simps)
qed


lemma read_input_ok:
  assumes "sock_laws api V" and "tcp_ok V s"
  obtains n s' where "read_input api s = Inr (n, s')" "conn_grows V [] s s'" "conn_state s' = conn_state s"
proof -
  from assms(2) obtain c where c: "poller_ok (v_watched V) s" "in_loop s" "buffer_ok (inputBuffer s)" "buffer_ok (outputBuffer s)"
    "own_ok V s c" "chan_heap s (conn_channel s) = Some c" "conn_fd s = ch_fd c" by (rule tcp_okD)
  obtain r k where r: "sys_readv api (ch_fd c) (readFd_room (inputBuffer s)) (kern s) = (r, k)"
    by (cases "sys_readv api (ch_fd c) (readFd_room (inputBuffer s)) (kern s)")
  have law: "v_watched V k = v_watched V (kern s)" "keeps_socket V (kern s) k" "\<forall>d. r = Inr d \<longrightarrow> length d \<le> readFd_room (inputBuffer s)"
    using assms(1) r unfolding sock_laws_def readv_law_def by blast+
  obtain n e b where b: "readFd (\<lambda>_. r) (inputBuffer s) = Inr ((n, e), b)" "buffer_ok b"
  proof (cases r)
    case (Inl e)
    with c(3) show ?thesis by (intro that [of "- 1" "Some e" "inputBuffer s"]) (simp_all add: readFd_def)
  next
    case (Inr d)
    with law(3) readFd_ok [OF c(3), of "\<lambda>_. r" d] that show ?thesis by auto
  qed
  have "read_input api s = Inr (n, s\<lparr>kern := k, inputBuffer := b\<rparr>)"
    using c(6) r b(1) by (simp add: read_input_def tcp_prog_defs)
  then show ?thesis
    by (rule that) (use c b(2) law in \<open>auto intro!: conn_growsI poller_ok_cong [OF c(1)]
      simp: tcp_ok_def own_ok_def conn_fd_def stream_def keeps_socket_def\<close>)
qed

lemma establish_ok:
  assumes "sock_laws api V" and "tcp_ok V s" and "conn_state s = kConnecting"
  obtains s' where "chain (setState kConnected) (\<lambda>_. chain (on_channel Channel_tie) (\<lambda>_. on_channel (enableReading (epoll api)))) s = Inr ((), s')"
    "conn_grows V [] s s'" "conn_state s' = kConnected"
proof -
  from assms(2) obtain c where c: "poller_ok (v_watched V) s" "in_loop s" "buffer_ok (inputBuffer s)" "buffer_ok (outputBuffer s)"
    "own_ok V s c" "chan_heap s (conn_channel s) = Some c" "conn_fd s = ch_fd c" by (rule tcp_okD)
  define d where "d = c\<lparr>ch_tied := True\<rparr>"
  define t where "t = s\<lparr>conn_state := kConnected, chan_heap := (chan_heap s)(conn_channel s \<mapsto> d)\<rparr>"
  have tie: "chain (setState kConnected) (\<lambda>_. on_channel Channel_tie) s = Inr ((), t)"
    using c(6) by (simp add: tcp_prog_defs Channel_tie_def set_chan_def t_def d_def)
  have t: "poller_ok (v_watched V) t" "in_loop t" "chan_heap t (conn_channel t) = Some d"
    "ch_index d = kNew \<longrightarrow> poll_channels t (ch_fd d) = None"
    using c by (auto simp: t_def d_def own_ok_def intro: poller_ok_tie)
  from own_set_events [OF assms(1) t, of "\<lambda>e. e OR kReadEvent"] obtain k where
    k: "on_channel (enableReading (epoll api)) t = Inr ((), t\<lparr>chan_heap := (chan_heap t)(conn_channel t \<mapsto> updated (ch_events d OR kReadEvent) d),
      poll_channels := (poll_channels t)(ch_fd d \<mapsto> conn_channel t), kern := k\<rparr>)" "keeps_socket V (kern t) k"
    "poller_ok (v_watched V) (t\<lparr>chan_heap := (chan_heap t)(conn_channel t \<mapsto> updated (ch_events d OR kReadEvent) d),
      poll_channels := (poll_channels t)(ch_fd d \<mapsto> conn_channel t), kern := k\<rparr>)" (is "poller_ok _ ?s'")
    unfolding enableReading_def by blast
  have run: "chain (setState kConnected) (\<lambda>_. chain (on_channel Channel_tie) (\<lambda>_. on_channel (enableReading (epoll api)))) s = Inr ((), ?s')"
  proof -
    have "chain (chain (setState kConnected) (\<lambda>_. on_channel Channel_tie)) (\<lambda>_. on_channel (enableReading (epoll api))) s =
        on_channel (enableReading (epoll api)) t"
      by (rule chain_Inr) (rule tie)
    then show ?thesis by (simp add: chain_assoc k(1))
  qed
  have "conn_grows V [] s ?s'"
    using c k(2,3) assms(3) by (intro conn_growsI)
      (auto simp: t_def d_def tcp_ok_def own_ok_def conn_fd_def stream_def keeps_socket_def isWriting_def open_state_def
        early_def functors_fit_def)
  then show ?thesis
    by (rule that [OF run]) (simp add: t_def)
qed


text \<open>
  The socket is writable. What it takes is taken off the output; with the output empty the
  channel stops asking, and a connection that was shut down closes its write side.
\<close>

lemma write_output_ok:
  assumes "sock_laws api V" and "tcp_ok V s" and "own_ok V s c" and "isWriting c" and "open_state (conn_state s)"
    and "sys_write api (ch_fd c) (bytes (outputBuffer s)) (kern s) = (Inr n, k)"
    and "retrieve n (outputBuffer s) = Inr b" and "buffer_ok b" and "bytes b = drop n (bytes (outputBuffer s))" and "b' = (bytes b \<noteq> [])"
  shows "\<exists>t. (if b' then ret () else on_channel (disableWriting (epoll api))) (s\<lparr>kern := k, outputBuffer := b\<rparr>) = Inr ((), t) \<and>
    conn_grows V [] s t \<and> conn_state t = conn_state s \<and> outputBuffer t = b \<and> writeCompleteCallback t = writeCompleteCallback s"
proof -
  define r where "r = s\<lparr>kern := k, outputBuffer := b\<rparr>"
  note law = sock_laws_write [OF assms(1,6)]
  have c: "poller_ok (v_watched V) s" "in_loop s" "buffer_ok (inputBuffer s)" "chan_heap s (conn_channel s) = Some c"
    using assms(2,3) by (auto simp: tcp_ok_def own_ok_def)
  have fin: "\<not> v_fin V (kern s) (ch_fd c)"
    using law(3) by auto
  have r: "poller_ok (v_watched V) r" "in_loop r" "chan_heap r (conn_channel r) = Some c"
    "ch_index c = kNew \<longrightarrow> poll_channels r (ch_fd c) = None"
    using c assms(3) law(1) by (auto simp: r_def own_ok_def intro: poller_ok_cong)
  have str: "v_sent V k (ch_fd c) @ bytes b = v_sent V (kern s) (ch_fd c) @ bytes (outputBuffer s)"
    using law(5) [of n] by (simp add: assms(9))
  show ?thesis
  proof (cases "bytes b = []")
    case False
    have "conn_grows V [] s r"
      using r c assms(3-5,8) False str law(2) fin
      by (intro conn_growsI) (auto simp: r_def tcp_ok_def own_ok_def conn_fd_def stream_def open_state_def)
    with False assms(10) show ?thesis
      by (intro exI [of _ r]) (simp add: r_def prog_simps)
  next
    case True
    from own_set_events [OF assms(1) r, of "\<lambda>e. e AND NOT kWriteEvent"] obtain k' where
      k: "on_channel (disableWriting (epoll api)) r = Inr ((), r\<lparr>chan_heap := (chan_heap r)(conn_channel r \<mapsto> updated (ch_events c AND NOT kWriteEvent) c),
        poll_channels := (poll_channels r)(ch_fd c \<mapsto> conn_channel r), kern := k'\<rparr>)" "keeps_socket V (kern r) k'"
      "poller_ok (v_watched V) (r\<lparr>chan_heap := (chan_heap r)(conn_channel r \<mapsto> updated (ch_events c AND NOT kWriteEvent) c),
        poll_channels := (poll_channels r)(ch_fd c \<mapsto> conn_channel r), kern := k'\<rparr>)" (is "poller_ok _ ?t")
      unfolding disableWriting_def by blast
    have "conn_grows V [] s ?t"
      using k(2,3) c assms(3-5,8) True str law(2) fin
      by (intro conn_growsI) (auto simp: r_def tcp_ok_def own_ok_def conn_fd_def stream_def open_state_def keeps_socket_def isWriting_def)
    with True assms(10) k(1) show ?thesis
      by (intro exI [of _ ?t]) (simp add: r_def)
  qed
qed

lemma functors_ok:
  assumes "tcp_ok V s" and "functors_fit (conn_state s) fs"
  shows "conn_grows V ms s (s\<lparr>functors := fs\<rparr>)"
proof -
  have "poller_ok (v_watched V) (s\<lparr>functors := fs\<rparr>)"
    by (rule poller_ok_cong [of _ s]) (use assms(1) in \<open>simp_all add: tcp_ok_def\<close>)
  with assms show ?thesis
    by (intro conn_growsI) (auto simp: tcp_ok_def own_ok_def conn_fd_def stream_def)
qed

text \<open>The end of \<^verbatim>\<open>handleWrite\<close> when the output is empty.\<close>

lemma write_finished_ok:
  assumes "sock_laws api V" and "tcp_ok V s" and "bytes (outputBuffer s) = []" and "open_state (conn_state s)"
  shows "\<exists>t. chain (if b then queueInLoop WriteComplete else ret ())
      (\<lambda>_. if conn_state s = kDisconnecting then shutdownInLoop api else ret ()) s = Inr ((), t) \<and>
    conn_grows V [] s t \<and> conn_state t = conn_state s \<and> (conn_state s = kDisconnecting \<longrightarrow> v_fin V (kern t) (conn_fd t)) \<and>
    outputBuffer t = outputBuffer s"
proof -
  define q where "q = (if b then s\<lparr>functors := functors s @ [WriteComplete]\<rparr> else s)"
  have q: "conn_grows V [] s q" "conn_state q = conn_state s" "outputBuffer q = outputBuffer s"
    using functors_ok [OF assms(2), of "functors s @ [WriteComplete]" "[]"] conn_grows_refl [OF assms(2)] assms(2)
    by (auto simp: q_def tcp_ok_def own_ok_def functors_fit_def)
  have run: "chain (if b then queueInLoop WriteComplete else ret ())
      (\<lambda>_. if conn_state s = kDisconnecting then shutdownInLoop api else ret ()) s =
      (if conn_state s = kDisconnecting then shutdownInLoop api else ret ()) q"
    by (simp add: q_def queueInLoop_def prog_simps)
  show ?thesis
  proof (cases "conn_state s = kDisconnecting")
    case True
    obtain t where "shutdownInLoop api q = Inr ((), t)" "conn_grows V [] q t" "conn_state t = conn_state q" "v_fin V (kern t) (conn_fd t)"
        "outputBuffer t = outputBuffer q"
      by (rule shutdownInLoop_ok [OF assms(1) conn_grows_ok [OF q(1)]]) (use q(2,3) True assms(3) in \<open>simp_all add: early_def\<close>)
    with True run q(2,3) conn_grows_trans [OF q(1)] show ?thesis by (intro exI [of _ t]) fastforce
  next
    case False
    with run q show ?thesis by (intro exI [of _ q]) (simp add: prog_simps)
  qed
qed

lemma handleWrite_idle:
  assumes "tcp_ok V s" and "own_ok V s c" and "\<not> isWriting c"
  shows "handleWrite api s = Inr ((), s)"
  using assms by (simp add: handleWrite_def tcp_prog_defs tcp_ok_def own_ok_def)

lemma handleWrite_takes:
  assumes "sock_laws api V" and "tcp_ok V s" and "own_ok V s c" and "isWriting c" and "open_state (conn_state s)"
    and "sys_write api (ch_fd c) (bytes (outputBuffer s)) (kern s) = (Inr n, k)" and "n > 0"
  shows "\<exists>t. handleWrite api s = Inr ((), t) \<and> conn_grows V [] s t \<and> conn_state t = conn_state s \<and>
    bytes (outputBuffer t) = drop n (bytes (outputBuffer s)) \<and>
    (bytes (outputBuffer t) = [] \<and> conn_state s = kDisconnecting \<longrightarrow> v_fin V (kern t) (conn_fd t))"
proof -
  have c: "in_loop s" "buffer_ok (outputBuffer s)" "chan_heap s (conn_channel s) = Some c"
    using assms(2,3) by (auto simp: tcp_ok_def own_ok_def)
  have "n \<le> readableBytes (outputBuffer s)"
    using sock_laws_write(4) [OF assms(1,6)] length_bytes [OF c(2)] by simp
  from retrieve_ok [OF c(2) this] obtain b where
    b: "retrieve n (outputBuffer s) = Inr b" "buffer_ok b" "bytes b = drop n (bytes (outputBuffer s))" by blast
  have empty: "readableBytes b = 0 \<longleftrightarrow> bytes b = []"
    using length_bytes [OF b(2)] by auto
  let ?r = "s\<lparr>kern := k, outputBuffer := b\<rparr>"
  from write_output_ok [OF assms(1-6) b refl] obtain t where
    t: "(if bytes b \<noteq> [] then ret () else on_channel (disableWriting (epoll api))) ?r = Inr ((), t)"
    "conn_grows V [] s t" "conn_state t = conn_state s" "outputBuffer t = b" "writeCompleteCallback t = writeCompleteCallback s"
    by (elim exE conjE)
  show ?thesis
  proof (cases "bytes b = []")
    case False
    with t(1) have "t = ?r"
      by (simp add: ret_def)
    moreover have "handleWrite api s = Inr ((), ?r)"
      using False empty assms(4,6,7) b(1) c by (simp add: handleWrite_def tcp_prog_defs)
    ultimately show ?thesis
      using t(2,3) False b(3) by (intro exI [of _ ?r]) simp
  next
    case True
    from write_finished_ok [OF assms(1) conn_grows_ok [OF t(2)], of "writeCompleteCallback s"] True t(3,4) assms(5) obtain u where
      u: "chain (if writeCompleteCallback s then queueInLoop WriteComplete else ret ())
        (\<lambda>_. if conn_state t = kDisconnecting then shutdownInLoop api else ret ()) t = Inr ((), u)"
      "conn_grows V [] t u" "conn_state u = conn_state t" "conn_state t = kDisconnecting \<longrightarrow> v_fin V (kern u) (conn_fd u)"
      "outputBuffer u = b" by auto
    have "handleWrite api s = chain (on_channel (disableWriting (epoll api))) (\<lambda>_.
        chain (if writeCompleteCallback s then queueInLoop WriteComplete else ret ())
          (\<lambda>_. if conn_state s = kDisconnecting then shutdownInLoop api else ret ())) ?r"
      using True empty assms(4,6,7) b(1) c by (simp add: handleWrite_def own_channel_def on_kernel_def on_output_def
        the_chan_def assertInLoopThread_def prog_simps)
    also have "\<dots> = Inr ((), u)"
      using t(1,3) u(1) True by (simp add: chain_Inr)
    finally show ?thesis
      using u(3-5) t(3) b(3) conn_grows_trans [OF t(2) u(2)] by (intro exI [of _ u]) auto
  qed
qed

lemma handleWrite_ok:
  assumes "sock_laws api V" and "tcp_ok V s"
  obtains s' where "handleWrite api s = Inr ((), s')" "conn_grows V [] s s'"
proof -
  from assms(2) obtain c where c: "poller_ok (v_watched V) s" "in_loop s" "buffer_ok (inputBuffer s)" "buffer_ok (outputBuffer s)"
    "own_ok V s c" "chan_heap s (conn_channel s) = Some c" "conn_fd s = ch_fd c" by (rule tcp_okD)
  show ?thesis
  proof (cases "isWriting c")
    case False
    with handleWrite_idle [OF assms(2) c(5)] show ?thesis
      by (intro that [of s]) (simp_all add: conn_grows_refl [OF assms(2)])
  next
    case True
    with c(5) have st: "open_state (conn_state s)"
      by (cases "conn_state s") (auto simp: own_ok_def open_state_def)
    obtain r k where w: "sys_write api (ch_fd c) (bytes (outputBuffer s)) (kern s) = (r, k)"
      by (cases "sys_write api (ch_fd c) (bytes (outputBuffer s)) (kern s)")
    note law = sock_laws_write [OF assms(1) w]
    show ?thesis
    proof (cases "\<exists>n. r = Inr n \<and> n > 0")
      case True
      with handleWrite_takes [OF assms c(5) \<open>isWriting c\<close> st] w that show ?thesis by blast
    next
      case False
      then have sent: "v_sent V k = v_sent V (kern s)"
        using law(5) [of 0] law(6) by (cases r) auto
      from False \<open>isWriting c\<close> w c have "handleWrite api s = Inr ((), s\<lparr>kern := k\<rparr>)"
        by (cases r) (auto simp: handleWrite_def tcp_prog_defs)
      moreover have "poller_ok (v_watched V) (s\<lparr>kern := k\<rparr>)"
        by (rule poller_ok_cong [OF c(1)]) (simp_all add: law(1))
      then have "conn_grows V [] s (s\<lparr>kern := k\<rparr>)"
        using c law(2) sent by (intro conn_growsI) (auto simp: tcp_ok_def own_ok_def conn_fd_def stream_def)
      ultimately show ?thesis by (rule that)
    qed
  qed
qed


section \<open>The callbacks of the user\<close>

text \<open>
  What the lemmas ask of the connection and the message callback: they return, leave the reactor
  and the output alone, and keep the input buffer well formed. What a callback sends is a call of
  its own, after it.
\<close>

definition quiet :: "'k sockView \<Rightarrow> ('k, unit) tcp_prog \<Rightarrow> bool" where
  "quiet V m \<longleftrightarrow>
     (\<forall>s. tcp_ok V s \<longrightarrow> (\<exists>s'. m s = Inr ((), s') \<and> conn_grows V [] s s' \<and> conn_state s' = conn_state s \<and>
        reactor.truncate s' = reactor.truncate s \<and> conn_channel s' = conn_channel s))"

locale conn_callbacks =
  fixes V :: "'k sockView" and ccb mcb :: "('k, unit) tcp_prog"
  assumes ccb: "quiet V ccb" and mcb: "quiet V mcb"
begin

lemma ccb_ok:
  assumes "tcp_ok V s"
  obtains s' where "ccb s = Inr ((), s')" "conn_grows V [] s s'" "conn_state s' = conn_state s"
    "reactor.truncate s' = reactor.truncate s" "conn_channel s' = conn_channel s"
  using ccb assms unfolding quiet_def by blast

lemma mcb_ok:
  assumes "tcp_ok V s"
  obtains s' where "mcb s = Inr ((), s')" "conn_grows V [] s s'"
  using mcb assms unfolding quiet_def by blast

lemma handleClose_ok:
  assumes "sock_laws api V" and "tcp_ok V s" and "open_state (conn_state s)"
  obtains s' where "handleClose api ccb s = Inr ((), s')" "conn_grows V [] s s'" "conn_state s' = kDisconnected"
proof -
  from close_channel_ok [OF assms] obtain t where
    t: "chain (setState kDisconnected) (\<lambda>_. on_channel (disableAll (epoll api))) s = Inr ((), t)"
    "conn_grows V [] s t" "conn_state t = kDisconnected" .
  from ccb_ok [OF conn_grows_ok [OF t(2)]] obtain u where u: "ccb t = Inr ((), u)" "conn_grows V [] t u" "conn_state u = conn_state t" .
  have "handleClose api ccb s = chain (chain (setState kDisconnected) (\<lambda>_. on_channel (disableAll (epoll api)))) (\<lambda>_. ccb) s"
    using assms(2,3) by (simp add: handleClose_def chain_assoc assertInLoopThread_def ensure_def tcp_ok_def prog_simps)
  with t(1) u(1) have "handleClose api ccb s = Inr ((), u)"
    by (simp add: chain_Inr)
  then show ?thesis
    by (rule that) (use conn_grows_trans [OF t(2) u(2)] u(3) t(3) in simp_all)
qed

lemma forceCloseInLoop_ok:
  assumes "sock_laws api V" and "tcp_ok V s"
  obtains s' where "forceCloseInLoop api ccb s = Inr ((), s')" "conn_grows V [] s s'"
proof (cases "open_state (conn_state s)")
  case True
  with assms(2) have "forceCloseInLoop api ccb s = handleClose api ccb s"
    by (simp add: forceCloseInLoop_def assertInLoopThread_def ensure_def tcp_ok_def prog_simps)
  with handleClose_ok [OF assms True] that show ?thesis by metis
next
  case False
  with assms(2) have "forceCloseInLoop api ccb s = Inr ((), s)"
    by (simp add: forceCloseInLoop_def assertInLoopThread_def ensure_def tcp_ok_def prog_simps)
  then show ?thesis
    by (rule that) (rule conn_grows_refl [OF assms(2)])
qed

lemma handleRead_ok:
  assumes "sock_laws api V" and "tcp_ok V s" and "open_state (conn_state s)"
  obtains s' where "handleRead api ccb mcb s = Inr ((), s')" "conn_grows V [] s s'"
proof -
  from read_input_ok [OF assms(1,2)] obtain n t where
    t: "read_input api s = Inr (n, t)" "conn_grows V [] s t" "conn_state t = conn_state s" .
  note ok = conn_grows_ok [OF t(2)]
  have run: "handleRead api ccb mcb s = (if n > 0 then mcb else if n = 0 then handleClose api ccb else ret ()) t"
    using assms(2) t(1) by (simp add: handleRead_def assertInLoopThread_def ensure_def tcp_ok_def prog_simps)
  consider "n > 0" | "n = 0" | "n < 0" by linarith
  then show ?thesis
  proof cases
    case 1
    obtain u where "mcb t = Inr ((), u)" "conn_grows V [] t u" by (rule mcb_ok [OF ok])
    with 1 run conn_grows_trans [OF t(2)] show ?thesis by (intro that [of u]) fastforce+
  next
    case 2
    obtain u where "handleClose api ccb t = Inr ((), u)" "conn_grows V [] t u"
      by (rule handleClose_ok [OF assms(1) ok]) (use assms(3) t(3) in auto)
    with 2 run conn_grows_trans [OF t(2)] show ?thesis by (intro that [of u]) fastforce+
  next
    case 3
    with run t(2) show ?thesis by (intro that [of t]) (simp_all add: prog_simps)
  qed
qed

lemma connectEstablished_ok:
  assumes "sock_laws api V" and "tcp_ok V s" and "conn_state s = kConnecting"
  obtains s' where "connectEstablished api ccb s = Inr ((), s')" "conn_grows V [] s s'" "conn_state s' = kConnected"
proof -
  from establish_ok [OF assms] obtain t where
    t: "chain (setState kConnected) (\<lambda>_. chain (on_channel Channel_tie) (\<lambda>_. on_channel (enableReading (epoll api)))) s = Inr ((), t)"
    "conn_grows V [] s t" "conn_state t = kConnected" .
  from ccb_ok [OF conn_grows_ok [OF t(2)]] obtain u where u: "ccb t = Inr ((), u)" "conn_grows V [] t u" "conn_state u = conn_state t" .
  have "connectEstablished api ccb s =
      chain (chain (setState kConnected) (\<lambda>_. chain (on_channel Channel_tie) (\<lambda>_. on_channel (enableReading (epoll api))))) (\<lambda>_. ccb) s"
    using assms(2,3) by (simp add: connectEstablished_def chain_assoc assertInLoopThread_def ensure_def tcp_ok_def prog_simps)
  with t(1) u(1) have "connectEstablished api ccb s = Inr ((), u)"
    by (simp add: chain_Inr)
  then show ?thesis
    by (rule that) (use conn_grows_trans [OF t(2) u(2)] u(3) t(3) in simp_all)
qed

end

end
