(* ===== verification/TcpRun.thy ===== *)
theory TcpRun
  imports TcpConnection
begin

text \<open>
  A connection over its whole life: the calls its users make in the loop thread and in other
  threads, the events of its channel and the functors its loop runs, in any order. The lemmas
  show that every such step returns and keeps the invariant of \<open>TcpConnection\<close>; the properties
  follow the bytes of the messages, the shutdown and the emptying of the output buffer.
\<close>


section \<open>The steps\<close>

datatype user_call = CSend string | CShutdown | CForceClose | CForceCloseWithDelay | CStartRead | CStopRead

fun call_prog :: "'k sockApi \<Rightarrow> user_call \<Rightarrow> ('k, unit) tcp_prog" where
  "call_prog api (CSend m) = TcpConnection_send api m"
| "call_prog api CShutdown = TcpConnection_shutdown api"
| "call_prog api CForceClose = forceClose"
| "call_prog api CForceCloseWithDelay = forceCloseWithDelay"
| "call_prog api CStartRead = startRead api"
| "call_prog api CStopRead = stopRead api"

text \<open>A call of another thread finds itself outside the loop thread.\<close>

definition elsewhere :: "('k, unit) tcp_prog \<Rightarrow> ('k, unit) tcp_prog" where
  "elsewhere m s = andThen (m (s\<lparr>in_loop := False\<rparr>)) (\<lambda>(x, s'). Inr (x, s'\<lparr>in_loop := True\<rparr>))"

definition next_functor :: "'k sockApi \<Rightarrow> ('k, unit) tcp_prog \<Rightarrow> ('k, unit) tcp_prog" where
  "next_functor api ccb s =
     (case functors s of [] \<Rightarrow> Inr ((), s) | f # fs \<Rightarrow> run_functor api ccb f (s\<lparr>functors := fs\<rparr>))"

text \<open>The timer of \<^verbatim>\<open>forceCloseWithDelay\<close> calls \<^verbatim>\<open>forceClose\<close>.\<close>

definition delay_expired :: "('k, unit) tcp_prog" where
  "delay_expired s =
     (if delayed_forceClose s = 0 then Inr ((), s)
      else forceClose (s\<lparr>delayed_forceClose := delayed_forceClose s - 1\<rparr>))"

datatype conn_op =
    InLoop user_call | OtherThread user_call | ChannelEvent channel_callback | NextFunctor | DelayExpired | Established | Destroyed

fun conn_step :: "'k sockApi \<Rightarrow> ('k, unit) tcp_prog \<Rightarrow> ('k, unit) tcp_prog \<Rightarrow> conn_op \<Rightarrow> ('k, unit) tcp_prog" where
  "conn_step api ccb mcb (InLoop u) = call_prog api u"
| "conn_step api ccb mcb (OtherThread u) = elsewhere (call_prog api u)"
| "conn_step api ccb mcb (ChannelEvent e) = conn_callback api ccb mcb e"
| "conn_step api ccb mcb NextFunctor = next_functor api ccb"
| "conn_step api ccb mcb DelayExpired = delay_expired"
| "conn_step api ccb mcb Established = connectEstablished api ccb"
| "conn_step api ccb mcb Destroyed = connectDestroyed api ccb"

text \<open>
  What the callers respect: a connection is established once; the channel reports input and
  hang-ups of open connections; the owner destroys a connection that is connected or closed and
  still registered, and not while the channel waits in the list of active channels.
\<close>

definition removable :: "'k tcpState \<Rightarrow> bool" where
  "removable s \<longleftrightarrow>
     (loop_eventHandling s \<longrightarrow> currentActiveChannel s = Some (conn_channel s) \<or> conn_channel s \<notin> set (activeChannels s)) \<and>
     (conn_state s = kConnected \<or> conn_state s = kDisconnected \<and>
        (case chan_heap s (conn_channel s) of None \<Rightarrow> False | Some c \<Rightarrow> ch_events c = kNoneEvent \<and> ch_index c \<noteq> kNew))"

fun conn_allowed :: "conn_op \<Rightarrow> 'k tcpState \<Rightarrow> bool" where
  "conn_allowed (ChannelEvent ReadCallback) s \<longleftrightarrow> open_state (conn_state s)"
| "conn_allowed (ChannelEvent CloseCallback) s \<longleftrightarrow> open_state (conn_state s)"
| "conn_allowed Established s \<longleftrightarrow> conn_state s = kConnecting"
| "conn_allowed Destroyed s \<longleftrightarrow> removable s"
| "conn_allowed _ s \<longleftrightarrow> True"

text \<open>The message a step gives to the loop thread for sending.\<close>

fun handed :: "conn_op \<Rightarrow> 'k tcpState \<Rightarrow> string list" where
  "handed (InLoop (CSend m)) s = [m]"
| "handed NextFunctor s = (case functors s of SendInLoop m # fs \<Rightarrow> [m] | _ \<Rightarrow> [])"
| "handed _ s = []"


section \<open>Every step returns and keeps the invariant\<close>

definition moves :: "'k sockView \<Rightarrow> string list \<Rightarrow> ('k, unit) tcp_prog \<Rightarrow> 'k tcpState \<Rightarrow> bool" where
  "moves V ms m s \<longleftrightarrow> (\<exists>s'. m s = Inr ((), s') \<and> conn_grows V ms s s')"

lemma movesI: "m s = Inr ((), s') \<Longrightarrow> conn_grows V ms s s' \<Longrightarrow> moves V ms m s"
  unfolding moves_def by blast

lemma moves_eqI: "moves V ms m t \<Longrightarrow> m' s = m t \<Longrightarrow> conn_grows V [] s t \<Longrightarrow> moves V ms m' s"
  unfolding moves_def using conn_grows_trans [of V "[]"] by fastforce

lemma tcp_ok_in_loop: "tcp_ok V s \<Longrightarrow> in_loop s"
  by (simp add: tcp_ok_def)

text \<open>Leaving the connected state keeps the invariant.\<close>

lemma disconnecting_ok:
  assumes "tcp_ok V s" and "open_state (conn_state s)"
  shows "conn_grows V ms s (s\<lparr>conn_state := kDisconnecting\<rparr>)"
proof -
  let ?t = "s\<lparr>conn_state := kDisconnecting\<rparr>"
  from assms(1) obtain c where c: "poller_ok (v_watched V) s" "in_loop s" "buffer_ok (inputBuffer s)" "buffer_ok (outputBuffer s)"
    "own_ok V s c" "chan_heap s (conn_channel s) = Some c" "conn_fd s = ch_fd c" by (rule tcp_okD)
  have "poller_ok (v_watched V) ?t"
    by (rule poller_ok_cong [OF c(1)]) simp_all
  moreover have "own_ok V ?t c"
    using c(5) assms(2) by (cases "conn_state s") (simp_all add: own_ok_def open_state_def early_def functors_fit_def)
  ultimately have "tcp_ok V ?t"
    using c(2-4) by (auto simp: tcp_ok_def)
  moreover have "st_rank (conn_state s) \<le> 2"
    using assms(2) by (auto simp: open_state_def)
  ultimately show ?thesis
    by (intro conn_growsI) (simp_all add: conn_fd_def stream_def)
qed

lemma read_switch_ok:
  assumes "sock_laws api V" and "tcp_ok V s"
  shows "moves V [] (startReadInLoop api) s" and "moves V [] (stopReadInLoop api) s"
proof -
  from assms(2) obtain c where c: "in_loop s" "chan_heap s (conn_channel s) = Some c" by (rule tcp_okD)
  obtain t u where
    t: "chain (on_channel (enableReading (epoll api))) (\<lambda>_. modify (\<lambda>s. s\<lparr>conn_reading := True\<rparr>)) s = Inr ((), t)" "conn_grows V [] s t" and
    u: "chain (on_channel (disableReading (epoll api))) (\<lambda>_. modify (\<lambda>s. s\<lparr>conn_reading := False\<rparr>)) s = Inr ((), u)" "conn_grows V [] s u"
    unfolding enableReading_def disableReading_def
    using set_reading_ok [OF assms, of "\<lambda>e. e OR kReadEvent" True] set_reading_ok [OF assms, of "\<lambda>e. e AND NOT kReadEvent" False] by metis
  show "moves V [] (startReadInLoop api) s"
    by (cases "\<not> conn_reading s \<or> \<not> isReading c")
       (use c t conn_grows_refl [OF assms(2)] in \<open>auto simp: startReadInLoop_def own_channel_def the_chan_def assertInLoopThread_def
          prog_simps intro: movesI\<close>)
  show "moves V [] (stopReadInLoop api) s"
    by (cases "conn_reading s \<or> isReading c")
       (use c u conn_grows_refl [OF assms(2)] in \<open>auto simp: stopReadInLoop_def own_channel_def the_chan_def assertInLoopThread_def
          prog_simps intro: movesI\<close>)
qed

text \<open>The calls of the users in the loop thread.\<close>

lemma send_ok:
  assumes "sock_laws api V" and "tcp_ok V s"
  shows "moves V [m] (TcpConnection_send api m) s"
proof (cases "conn_state s = kConnected")
  case True
  then have "TcpConnection_send api m s = sendInLoop api m s"
    using tcp_ok_in_loop [OF assms(2)] by (simp add: TcpConnection_send_def runInLoop_def prog_simps)
  moreover obtain s' where "sendInLoop api m s = Inr ((), s')" "conn_grows V [m] s s'"
    by (rule sendInLoop_ok [OF assms, of m]) (use True in auto)
  ultimately show ?thesis by (auto intro: movesI)
next
  case False
  then show ?thesis
    by (intro movesI [of _ _ s] conn_grows_refl assms(2)) (simp add: TcpConnection_send_def prog_simps)
qed

lemma shutdown_ok:
  assumes "sock_laws api V" and "tcp_ok V s"
  shows "moves V [] (TcpConnection_shutdown api) s"
proof (cases "conn_state s = kConnected")
  case True
  let ?t = "s\<lparr>conn_state := kDisconnecting\<rparr>"
  have g: "conn_grows V [] s ?t"
    by (rule disconnecting_ok [OF assms(2)]) (simp add: True open_state_def)
  obtain u where "shutdownInLoop api ?t = Inr ((), u)" "conn_grows V [] ?t u"
    by (rule shutdownInLoop_ok [OF assms(1) conn_grows_ok [OF g]]) (simp add: early_def)
  then have "moves V [] (shutdownInLoop api) ?t" by (rule movesI)
  then show ?thesis
    by (rule moves_eqI) (use True tcp_ok_in_loop [OF assms(2)] g in
      \<open>simp_all add: TcpConnection_shutdown_def runInLoop_def setState_def prog_simps\<close>)
next
  case False
  then show ?thesis
    by (intro movesI [of _ _ s] conn_grows_refl assms(2)) (simp add: TcpConnection_shutdown_def prog_simps)
qed

lemma delayed_ok:
  assumes "tcp_ok V s"
  shows "conn_grows V [] s (s\<lparr>delayed_forceClose := n\<rparr>)"
proof -
  have "poller_ok (v_watched V) (s\<lparr>delayed_forceClose := n\<rparr>)"
    by (rule poller_ok_cong [of _ s]) (use assms in \<open>simp_all add: tcp_ok_def\<close>)
  with assms show ?thesis
    by (intro conn_growsI) (auto simp: tcp_ok_def own_ok_def conn_fd_def stream_def)
qed

lemma forceClose_ok:
  assumes "tcp_ok V s"
  shows "moves V [] forceClose s" and "moves V [] forceCloseWithDelay s"
proof -
  let ?t = "s\<lparr>conn_state := kDisconnecting\<rparr>"
  have "moves V [] forceClose s \<and> moves V [] forceCloseWithDelay s"
  proof (cases "open_state (conn_state s)")
    case True
    from disconnecting_ok [OF assms True, of "[]"] have g: "conn_grows V [] s ?t" .
    have "conn_grows V [] s (?t\<lparr>functors := functors s @ [ForceCloseInLoop]\<rparr>)"
      using conn_grows_trans [OF g functors_ok [OF conn_grows_ok [OF g], of "functors s @ [ForceCloseInLoop]" "[]"]]
      by (simp add: functors_fit_def early_def)
    moreover have "conn_grows V [] s (?t\<lparr>delayed_forceClose := Suc (delayed_forceClose s)\<rparr>)"
      using conn_grows_trans [OF g delayed_ok [OF conn_grows_ok [OF g], of "Suc (delayed_forceClose s)"]] by simp
    ultimately show ?thesis
      using True by (auto intro!: movesI simp: forceClose_def forceCloseWithDelay_def setState_def queueInLoop_def prog_simps)
  next
    case False
    with conn_grows_refl [OF assms] show ?thesis
      by (auto intro!: movesI simp: forceClose_def forceCloseWithDelay_def prog_simps)
  qed
  then show "moves V [] forceClose s" "moves V [] forceCloseWithDelay s" by simp_all
qed

lemma call_ok:
  assumes "sock_laws api V" and "tcp_ok V s"
  shows "moves V (case u of CSend m \<Rightarrow> [m] | _ \<Rightarrow> []) (call_prog api u) s"
  using send_ok [OF assms] shutdown_ok [OF assms] forceClose_ok [OF assms(2)] read_switch_ok [OF assms] tcp_ok_in_loop [OF assms(2)]
  by (cases u) (simp_all add: moves_def startRead_def stopRead_def runInLoop_def prog_simps)

text \<open>In another thread a call changes at most the state and the queue of the loop.\<close>

lemma elsewhere_call:
  "\<exists>s'. elsewhere (call_prog api u) s = Inr ((), s') \<and>
     s' = s\<lparr>conn_state := conn_state s', functors := functors s', delayed_forceClose := delayed_forceClose s', in_loop := True\<rparr> \<and>
     (conn_state s' = conn_state s \<or> open_state (conn_state s) \<and> conn_state s' = kDisconnecting) \<and>
     (functors_fit (conn_state s) (functors s) \<longrightarrow> functors_fit (conn_state s') (functors s'))"
  by (cases u) (auto simp: elsewhere_def TcpConnection_send_def TcpConnection_shutdown_def forceClose_def forceCloseWithDelay_def
      startRead_def stopRead_def runInLoop_def setState_def queueInLoop_def open_state_def functors_fit_def early_def prog_simps)

lemma elsewhere_ok:
  assumes "tcp_ok V s"
  shows "moves V [] (elsewhere (call_prog api u)) s"
proof -
  obtain s' where s': "elsewhere (call_prog api u) s = Inr ((), s')"
    "s' = s\<lparr>conn_state := conn_state s', functors := functors s', delayed_forceClose := delayed_forceClose s', in_loop := True\<rparr>"
    "conn_state s' = conn_state s \<or> open_state (conn_state s) \<and> conn_state s' = kDisconnecting"
    "functors_fit (conn_state s) (functors s) \<longrightarrow> functors_fit (conn_state s') (functors s')"
    using elsewhere_call [of api u s] by (elim exE conjE)
  define t where "t = s\<lparr>conn_state := conn_state s'\<rparr>"
  have t: "conn_grows V [] s t"
    using s'(3)
  proof
    assume "conn_state s' = conn_state s"
    then show ?thesis using conn_grows_refl [OF assms] by (simp add: t_def)
  next
    assume "open_state (conn_state s) \<and> conn_state s' = kDisconnecting"
    then show ?thesis using disconnecting_ok [OF assms] by (simp add: t_def)
  qed
  have "functors_fit (conn_state t) (functors s')"
    using s'(4) assms by (auto simp: t_def tcp_ok_def own_ok_def)
  note u = functors_ok [OF conn_grows_ok [OF t] this, of "[]"]
  note v = delayed_ok [OF conn_grows_ok [OF u], of "delayed_forceClose s'"]
  have "s\<lparr>conn_state := a, functors := b, delayed_forceClose := c, in_loop := True\<rparr> =
      s\<lparr>conn_state := a, functors := b, delayed_forceClose := c\<rparr>" for a b c
    using tcp_ok_in_loop [OF assms] by (cases s) simp
  then have "s' = t\<lparr>functors := functors s', delayed_forceClose := delayed_forceClose s'\<rparr>"
    using s'(2) by (simp only: t_def)
  with conn_grows_trans [OF conn_grows_trans [OF t u] v] have "conn_grows V [] s s'" by simp
  with s'(1) show ?thesis by (rule movesI)
qed

lemma delay_expired_ok:
  assumes "tcp_ok V s"
  shows "moves V [] delay_expired s"
proof (cases "delayed_forceClose s = 0")
  case True
  with conn_grows_refl [OF assms] show ?thesis by (intro movesI) (simp_all add: delay_expired_def)
next
  case False
  note g = delayed_ok [OF assms, of "delayed_forceClose s - 1"]
  show ?thesis
    by (rule moves_eqI [OF forceClose_ok(1) [OF conn_grows_ok [OF g]] _ g]) (simp add: delay_expired_def False)
qed

lemma remove_own_ok:
  assumes "sock_laws api V" and "tcp_ok V s" and "removable s" and "conn_state s = kDisconnected"
  shows "moves V [] (on_channel (Channel_remove (epoll api))) s"
proof -
  from assms(2) obtain c where c: "poller_ok (v_watched V) s" "in_loop s" "buffer_ok (inputBuffer s)" "buffer_ok (outputBuffer s)"
    "own_ok V s c" "chan_heap s (conn_channel s) = Some c" "conn_fd s = ch_fd c" by (rule tcp_okD)
  have r: "ch_index c \<noteq> kNew" "ch_events c = kNoneEvent"
    "loop_eventHandling s \<longrightarrow> currentActiveChannel s = Some (conn_channel s) \<or> conn_channel s \<notin> set (activeChannels s)"
    using assms(3,4) c(6) by (auto simp: removable_def)
  obtain k where
    k: "Channel_remove (epoll api) (conn_channel s) s = Inr ((), s\<lparr>chan_heap := (chan_heap s)(conn_channel s \<mapsto> c\<lparr>ch_addedToLoop := False, ch_index := kNew\<rparr>),
      poll_channels := (poll_channels s)(ch_fd c := None), kern := k\<rparr>)" "keeps_socket V (kern s) k"
    "poller_ok (v_watched V) (s\<lparr>chan_heap := (chan_heap s)(conn_channel s \<mapsto> c\<lparr>ch_addedToLoop := False, ch_index := kNew\<rparr>),
      poll_channels := (poll_channels s)(ch_fd c := None), kern := k\<rparr>)" (is "poller_ok _ ?t")
    by (rule remove_socket [OF assms(1) c(1,2,6) r])
  have "conn_grows V [] s ?t"
    using c k(2,3) assms(4) by (intro conn_growsI)
      (auto simp: tcp_ok_def own_ok_def conn_fd_def stream_def keeps_socket_def isWriting_def open_state_def early_def functors_fit_def)
  with k(1) show ?thesis
    by (intro movesI [of _ _ ?t]) (simp_all add: on_channel_def prog_simps)
qed


section \<open>Runs\<close>

context conn_callbacks
begin

lemma connectDestroyed_ok:
  assumes "sock_laws api V" and "tcp_ok V s" and "removable s"
  shows "moves V [] (connectDestroyed api ccb) s"
proof -
  obtain t where t: "(if conn_state s = kConnected
      then chain (setState kDisconnected) (\<lambda>_. chain (on_channel (disableAll (epoll api))) (\<lambda>_. ccb)) else ret ()) s = Inr ((), t)"
    "conn_grows V [] s t" "conn_state t = kDisconnected" "removable t"
  proof (cases "conn_state s = kConnected")
    case False
    with assms(3) conn_grows_refl [OF assms(2)] show ?thesis
      by (intro that [of s]) (auto simp: removable_def ret_def)
  next
    case True
    then have "open_state (conn_state s)" by (simp add: open_state_def)
    from close_channel_ok [OF assms(1,2) this] obtain t where
      t: "chain (setState kDisconnected) (\<lambda>_. on_channel (disableAll (epoll api))) s = Inr ((), t)"
      "conn_grows V [] s t" "conn_state t = kDisconnected"
      "\<exists>c. chan_heap t (conn_channel t) = Some c \<and> ch_events c = kNoneEvent \<and> ch_index c \<noteq> kNew"
      "loop_eventHandling t = loop_eventHandling s" "currentActiveChannel t = currentActiveChannel s"
      "activeChannels t = activeChannels s" "conn_channel t = conn_channel s" .
    obtain u where u: "ccb t = Inr ((), u)" "conn_grows V [] t u" "conn_state u = conn_state t"
      "reactor.truncate u = reactor.truncate t" "conn_channel u = conn_channel t"
      by (rule ccb_ok [OF conn_grows_ok [OF t(2)]])
    from u(4) have same: "chan_heap u = chan_heap t" "loop_eventHandling u = loop_eventHandling t"
      "currentActiveChannel u = currentActiveChannel t" "activeChannels u = activeChannels t"
      by (simp_all add: reactor.truncate_def)
    have "chain (chain (setState kDisconnected) (\<lambda>_. on_channel (disableAll (epoll api)))) (\<lambda>_. ccb) s = Inr ((), u)"
      using t(1) u(1) by (simp add: chain_Inr)
    moreover have "removable u"
      using assms(3) t u(3,5) same by (auto simp: removable_def)
    ultimately show ?thesis
      using True u(2,3) t(2,3) conn_grows_trans [OF t(2) u(2)] by (intro that [of u]) (simp_all add: chain_assoc)
  qed
  have run: "connectDestroyed api ccb s = on_channel (Channel_remove (epoll api)) t"
    using t(1) tcp_ok_in_loop [OF assms(2)] by (simp add: connectDestroyed_def assertInLoopThread_def prog_simps)
  have "moves V [] (on_channel (Channel_remove (epoll api))) t"
    by (rule remove_own_ok [OF assms(1) conn_grows_ok [OF t(2)] t(4,3)])
  then show ?thesis
    by (rule moves_eqI) (rule run, rule t(2))
qed

lemma next_functor_ok:
  assumes "sock_laws api V" and "tcp_ok V s"
  shows "moves V (handed NextFunctor s) (next_functor api ccb) s"
proof (cases "functors s")
  case Nil
  with conn_grows_refl [OF assms(2)] show ?thesis by (intro movesI) (simp_all add: next_functor_def)
next
  case (Cons f fs)
  let ?t = "s\<lparr>functors := fs\<rparr>"
  have fit: "functors_fit (conn_state s) (f # fs)"
    using assms(2) Cons by (auto simp: tcp_ok_def own_ok_def)
  have g: "conn_grows V [] s ?t"
    by (rule functors_ok [OF assms(2)]) (use fit in \<open>auto simp: functors_fit_def\<close>)
  note ok = conn_grows_ok [OF g]
  have "moves V (case f of SendInLoop m \<Rightarrow> [m] | _ \<Rightarrow> []) (run_functor api ccb f) ?t"
  proof (cases f)
    case (SendInLoop m)
    obtain u where "sendInLoop api m ?t = Inr ((), u)" "conn_grows V [m] ?t u"
      by (rule sendInLoop_ok [OF assms(1) ok, of m]) (use fit SendInLoop in \<open>auto simp: functors_fit_def\<close>)
    with SendInLoop show ?thesis by (auto intro: movesI)
  next
    case ShutdownInLoop
    obtain u where "shutdownInLoop api ?t = Inr ((), u)" "conn_grows V [] ?t u"
      by (rule shutdownInLoop_ok [OF assms(1) ok]) (use fit ShutdownInLoop in \<open>auto simp: functors_fit_def\<close>)
    with ShutdownInLoop show ?thesis by (auto intro: movesI)
  next
    case ForceCloseInLoop
    obtain u where "forceCloseInLoop api ccb ?t = Inr ((), u)" "conn_grows V [] ?t u" by (rule forceCloseInLoop_ok [OF assms(1) ok])
    with ForceCloseInLoop show ?thesis by (auto intro: movesI)
  qed (use read_switch_ok [OF assms(1) ok] conn_grows_refl [OF ok] in \<open>auto simp: ret_def intro: movesI\<close>)
  then show ?thesis
    by (rule moves_eqI [THEN back_subst [of "\<lambda>ms. moves V ms _ _"]]) (use Cons g in \<open>simp_all add: next_functor_def split: conn_functor.split\<close>)
qed

lemma conn_step_ok:
  assumes "sock_laws api V" and "tcp_ok V s" and "conn_allowed p s"
  shows "moves V (handed p s) (conn_step api ccb mcb p) s"
proof (cases p)
  case (InLoop u)
  with call_ok [OF assms(1,2), of u] show ?thesis by (cases u) simp_all
next
  case (ChannelEvent e)
  obtain w where w: "handleWrite api s = Inr ((), w)" "conn_grows V [] s w" by (rule handleWrite_ok [OF assms(1,2)])
  show ?thesis
  proof (cases "open_state (conn_state s)")
    case True
    obtain r c where "handleRead api ccb mcb s = Inr ((), r)" "conn_grows V [] s r"
        "handleClose api ccb s = Inr ((), c)" "conn_grows V [] s c"
      using handleRead_ok [OF assms(1,2) True] handleClose_ok [OF assms(1,2) True] by metis
    with ChannelEvent w conn_grows_refl [OF assms(2)] show ?thesis
      by (cases e) (auto simp: handleError_def ret_def intro: movesI)
  next
    case False
    with assms(3) ChannelEvent w conn_grows_refl [OF assms(2)] show ?thesis
      by (cases e) (auto simp: handleError_def ret_def intro: movesI)
  qed
next
  case Established
  with assms(3) have st: "conn_state s = kConnecting" by simp
  obtain u where "connectEstablished api ccb s = Inr ((), u)" "conn_grows V [] s u"
    by (rule connectEstablished_ok [OF assms(1,2) st])
  with Established show ?thesis by (auto intro: movesI)
qed (use assms elsewhere_ok next_functor_ok delay_expired_ok connectDestroyed_ok in auto)

end

text \<open>The callbacks the library installs by default keep the contract.\<close>

lemma default_callbacks_quiet: "quiet V defaultConnectionCallback" "quiet V defaultMessageCallback"
proof -
  show "quiet V defaultConnectionCallback"
    by (simp add: quiet_def defaultConnectionCallback_def prog_simps conn_grows_refl)
  have "conn_grows V [] s (s\<lparr>inputBuffer := retrieveAll (inputBuffer s)\<rparr>)" if "tcp_ok V s" for s
  proof -
    have "poller_ok (v_watched V) (s\<lparr>inputBuffer := retrieveAll (inputBuffer s)\<rparr>)"
      by (rule poller_ok_cong [of _ s]) (use that in \<open>simp_all add: tcp_ok_def\<close>)
    with that show ?thesis
      by (intro conn_growsI) (auto simp: tcp_ok_def own_ok_def conn_fd_def stream_def retrieveAll_ok)
  qed
  then show "quiet V defaultMessageCallback"
    by (simp add: quiet_def defaultMessageCallback_def prog_simps reactor.truncate_def)
qed

interpretation default: conn_callbacks V defaultConnectionCallback defaultMessageCallback for V :: "'k sockView"
  by unfold_locales (rule default_callbacks_quiet)+

text \<open>
  The states a connection can reach from \<open>s\<^sub>0\<close>, with the messages given to the loop thread on the way.
\<close>

inductive conn_run :: "'k sockApi \<Rightarrow> ('k, unit) tcp_prog \<Rightarrow> ('k, unit) tcp_prog \<Rightarrow> 'k tcpState \<Rightarrow> string list \<Rightarrow> 'k tcpState \<Rightarrow> bool"
  for api ccb mcb s0 where
  run_start: "conn_run api ccb mcb s0 [] s0"
| run_step: "conn_run api ccb mcb s0 ms s \<Longrightarrow> conn_allowed p s \<Longrightarrow> conn_step api ccb mcb p s = Inr ((), s') \<Longrightarrow>
    conn_run api ccb mcb s0 (ms @ handed p s) s'"

lemma conn_run_grows:
  assumes "sock_laws api V" and "conn_callbacks V ccb mcb" and "tcp_ok V s0" and "conn_run api ccb mcb s0 ms s"
  shows "conn_grows V ms s0 s"
  using assms(4)
proof induction
  case run_start
  show ?case by (rule conn_grows_refl [OF assms(3)])
next
  case (run_step ms s p s')
  have "moves V (handed p s) (conn_step api ccb mcb p) s"
    by (rule conn_callbacks.conn_step_ok [OF assms(2,1) conn_grows_ok [OF run_step.IH] run_step.hyps(2)])
  with run_step.hyps(3) have "conn_grows V (handed p s) s s'" by (simp add: moves_def)
  with run_step.IH show ?case by (rule conn_grows_trans)
qed

text \<open>A new connection for a descriptor no other channel uses.\<close>

lemma poller_ok_new:
  assumes "poller_ok W r" and "chan_heap r a = None" and "chan_heap s = (chan_heap r)(a \<mapsto> Channel_ctor fd)"
    and "poll_channels s = poll_channels r" and "W (kern s) = W (kern r)"
  shows "poller_ok W s"
proof -
  have a: "poll_channels r x \<noteq> Some a" for x
    using poller_ok_map [OF assms(1)] assms(2) by fastforce
  then have "wanted s = wanted r"
    by (auto simp: wanted_def assms(3,4) fun_eq_iff split: option.split)
  with a assms show ?thesis
    by (auto simp: poller_ok_def Channel_ctor_def index_defs kNoneEvent_def)
qed

lemma ctor_ok:
  assumes "sock_laws api V" and "poller_ok (v_watched V) r" and "in_loop r" and "poll_channels r fd = None"
    and "chan_heap r a = None" and "\<not> v_fin V (kern r) fd"
  obtains s where "TcpConnection_ctor api a fd r = Inr s" "tcp_ok V s" "conn_fd s = fd" "conn_state s = kConnecting"
    "stream V s = v_sent V (kern r) fd"
proof -
  obtain b where b: "Buffer_ctor kInitialSize = Inr b" "buffer_ok b" "bytes b = []"
    using Buffer_ctor_ok by blast
  have keep: "v_watched V (sys_setKeepAlive api fd True (kern r)) = v_watched V (kern r)"
    "v_sent V (sys_setKeepAlive api fd True (kern r)) = v_sent V (kern r)"
    "v_fin V (sys_setKeepAlive api fd True (kern r)) = v_fin V (kern r)"
    using assms(1) by (auto simp: sock_laws_def keeps_socket_def)
  define s where "s = the (case TcpConnection_ctor api a fd r of Inr s \<Rightarrow> Some s | Inl _ \<Rightarrow> None)"
  have run: "TcpConnection_ctor api a fd r = Inr s"
    by (simp add: s_def TcpConnection_ctor_def b(1))
  have f: "chan_heap s = (chan_heap r)(a \<mapsto> Channel_ctor fd)" "poll_channels s = poll_channels r" "in_loop s"
    "kern s = sys_setKeepAlive api fd True (kern r)" "conn_state s = kConnecting" "conn_channel s = a" "functors s = []"
    "inputBuffer s = b" "outputBuffer s = b"
    using assms(3) by (simp_all add: s_def TcpConnection_ctor_def b(1))
  have "poller_ok (v_watched V) s"
    by (rule poller_ok_new [OF assms(2,5)]) (simp_all add: f keep(1))
  with f b assms(4,6) keep(3) have "tcp_ok V s"
    by (auto simp: tcp_ok_def own_ok_def Channel_ctor_def isWriting_def open_state_def functors_fit_def)
  moreover have "conn_fd s = fd" "stream V s = v_sent V (kern r) fd"
    using f b(3) keep(2) by (simp_all add: conn_fd_def stream_def Channel_ctor_def)
  ultimately show ?thesis
    using run f(5) that by blast
qed


section \<open>Emptying the output\<close>

text \<open>The channel reports \<open>n\<close> times that the socket is writable.\<close>

fun writable_events :: "'k sockApi \<Rightarrow> nat \<Rightarrow> ('k, unit) tcp_prog" where
  "writable_events api 0 = ret ()"
| "writable_events api (Suc n) = chain (handleWrite api) (\<lambda>_. writable_events api n)"

text \<open>A peer that reads: a write of some bytes takes at least one of them.\<close>

definition peer_reads :: "'k sockApi \<Rightarrow> 'k sockView \<Rightarrow> int \<Rightarrow> bool" where
  "peer_reads api V fd \<longleftrightarrow>
     (\<forall>d k. d \<noteq> [] \<and> \<not> v_fin V k fd \<longrightarrow> (\<exists>n k'. sys_write api fd d k = (Inr n, k') \<and> n > 0))"

lemma writable_events_idle:
  assumes "tcp_ok V s" and "bytes (outputBuffer s) = []"
  shows "writable_events api n s = Inr ((), s)"
proof (induction n)
  case 0
  show ?case by (simp add: prog_simps)
next
  case (Suc n)
  from assms(1) obtain c where c: "own_ok V s c" by (rule tcp_okD)
  then have "\<not> isWriting c"
    using assms(2) by (cases "conn_state s") (auto simp: own_ok_def open_state_def)
  from handleWrite_idle [OF assms(1) c this] Suc show ?case by (simp add: chain_Inr)
qed

lemma writable_events_drain:
  assumes "sock_laws api V" and "peer_reads api V (conn_fd s)" and "tcp_ok V s" and "open_state (conn_state s)"
    and "length (bytes (outputBuffer s)) \<le> n"
  shows "\<exists>t. writable_events api n s = Inr ((), t) \<and> conn_grows V [] s t \<and> bytes (outputBuffer t) = [] \<and>
    (conn_state s = kDisconnecting \<and> bytes (outputBuffer s) \<noteq> [] \<longrightarrow> v_fin V (kern t) (conn_fd t))"
  using assms(2-5)
proof (induction n arbitrary: s)
  case 0
  then show ?case by (intro exI [of _ s]) (simp add: prog_simps conn_grows_refl)
next
  case (Suc n)
  show ?case
  proof (cases "bytes (outputBuffer s) = []")
    case True
    with writable_events_idle [OF Suc.prems(2) True, of api "Suc n"] conn_grows_refl [OF Suc.prems(2)] show ?thesis
      by (intro exI [of _ s]) simp
  next
    case False
    from Suc.prems(2) obtain c where c: "own_ok V s c" "chan_heap s (conn_channel s) = Some c" "conn_fd s = ch_fd c" by (rule tcp_okD)
    with Suc.prems(3) False have w: "isWriting c" "\<not> v_fin V (kern s) (ch_fd c)" by (auto simp: own_ok_def)
    with Suc.prems(1) False c(3) obtain m k where m: "sys_write api (ch_fd c) (bytes (outputBuffer s)) (kern s) = (Inr m, k)" "m > 0"
      unfolding peer_reads_def by metis
    from handleWrite_takes [OF assms(1) Suc.prems(2) c(1) w(1) Suc.prems(3) m] obtain u where
      u: "handleWrite api s = Inr ((), u)" "conn_grows V [] s u" "conn_state u = conn_state s"
      "bytes (outputBuffer u) = drop m (bytes (outputBuffer s))"
      "bytes (outputBuffer u) = [] \<and> conn_state s = kDisconnecting \<longrightarrow> v_fin V (kern u) (conn_fd u)" by (elim exE conjE)
    have fd: "conn_fd u = conn_fd s" using u(2) by (simp add: conn_grows_def)
    have len: "length (bytes (outputBuffer u)) \<le> n"
      using u(4) m(2) Suc.prems(4) by simp
    have run: "writable_events api (Suc n) s = writable_events api n u"
      using u(1) by (simp add: chain_Inr)
    obtain t where t: "writable_events api n u = Inr ((), t)" "conn_grows V [] u t" "bytes (outputBuffer t) = []"
      "conn_state u = kDisconnecting \<and> bytes (outputBuffer u) \<noteq> [] \<longrightarrow> v_fin V (kern t) (conn_fd t)"
      using Suc.IH [of u] Suc.prems(1,3) conn_grows_ok [OF u(2)] u(3) fd len by auto
    have "v_fin V (kern t) (conn_fd t)" if "conn_state s = kDisconnecting"
    proof (cases "bytes (outputBuffer u) = []")
      case True
      with t(1) writable_events_idle [OF conn_grows_ok [OF u(2)] True, of api n] have "t = u" by simp
      with True u(5) that show ?thesis by simp
    next
      case False
      with t(4) u(3) that show ?thesis by simp
    qed
    with run t(1,3) conn_grows_trans [OF u(2) t(2)] show ?thesis by (intro exI [of _ t]) simp
  qed
qed


section \<open>Properties\<close>

text \<open>What a new connection needs: an open descriptor and an address that no channel of its loop has.\<close>

definition fresh_for :: "'k sockView \<Rightarrow> nat \<Rightarrow> int \<Rightarrow> 'k reactor \<Rightarrow> bool" where
  "fresh_for V a fd r \<longleftrightarrow> poller_ok (v_watched V) r \<and> in_loop r \<and> poll_channels r fd = None \<and> chan_heap r a = None \<and>
     \<not> v_fin V (kern r) fd"

lemma new_conn_run:
  assumes "sock_laws api V" and "conn_callbacks V ccb mcb" and "fresh_for V a fd r"
    and "TcpConnection_ctor api a fd r = Inr s0" and "conn_run api ccb mcb s0 ms s"
  shows "tcp_ok V s" and "conn_fd s = fd" and "\<exists>ms'. subseq ms' ms \<and> stream V s = v_sent V (kern r) fd @ concat ms'"
proof -
  obtain s1 where s1: "TcpConnection_ctor api a fd r = Inr s1" "tcp_ok V s1" "conn_fd s1 = fd" "stream V s1 = v_sent V (kern r) fd"
    by (rule ctor_ok [OF assms(1), of r fd a]) (use assms(3) in \<open>auto simp: fresh_for_def\<close>)
  with assms(4) have "s1 = s0" by simp
  with s1 conn_run_grows [OF assms(1,2) _ assms(5)]
  show "tcp_ok V s" "conn_fd s = fd" "\<exists>ms'. subseq ms' ms \<and> stream V s = v_sent V (kern r) fd @ concat ms'"
    by (auto simp: conn_grows_def)
qed

text \<open>
  C22. The bytes of a connection. Over any life of a new connection, with calls in the loop thread and
  in other threads, partial and failing writes, channel events, queued functors and closing in any
  order: what the socket took, followed by what waits in the output buffer, is a concatenation of
  whole messages, each one given to the loop thread for sending, in that order. No message is
  torn, repeated, reordered or mixed with another; one is left out only as a whole.
\<close>

theorem output_whole_messages:
  assumes "sock_laws api V" and "conn_callbacks V ccb mcb" and "fresh_for V a fd r"
    and "TcpConnection_ctor api a fd r = Inr s0" and "conn_run api ccb mcb s0 ms s"
  shows "\<exists>ms'. subseq ms' ms \<and> v_sent V (kern s) fd @ bytes (outputBuffer s) = v_sent V (kern r) fd @ concat ms'"
  using new_conn_run [OF assms] by (simp add: stream_def)

text \<open>
  C23. Sending. In every state of such a life, a message sent in the loop thread on a connected
  connection is accepted completely unless the kernel reports the connection as broken
  (\<^verbatim>\<open>EPIPE\<close> or \<^verbatim>\<open>ECONNRESET\<close>): the bytes with the socket and in the buffer grow by exactly its bytes,
  whatever part of them the socket takes at once.
\<close>

theorem send_accepts_message:
  assumes "sock_laws api V" and "conn_callbacks V ccb mcb" and "fresh_for V a fd r"
    and "TcpConnection_ctor api a fd r = Inr s0" and "conn_run api ccb mcb s0 ms s" and "conn_state s = kConnected"
    and "\<not> write_breaks api fd m (kern s)"
  shows "\<exists>s'. TcpConnection_send api m s = Inr ((), s') \<and>
    v_sent V (kern s') fd @ bytes (outputBuffer s') = v_sent V (kern s) fd @ bytes (outputBuffer s) @ m"
proof -
  note run = new_conn_run [OF assms(1-5)]
  obtain s' where "sendInLoop api m s = Inr ((), s')" "conn_fd s' = conn_fd s" "stream V s' = stream V s @ m"
    by (rule sendInLoop_accepts [OF assms(1) run(1), of m]) (use assms(6,7) run(2) in \<open>auto simp: open_state_def\<close>)
  moreover have "TcpConnection_send api m s = sendInLoop api m s"
    using assms(6) tcp_ok_in_loop [OF run(1)] by (simp add: TcpConnection_send_def runInLoop_def prog_simps)
  ultimately show ?thesis
    using run(2) by (intro exI [of _ s']) (simp add: stream_def)
qed

text \<open>
  C24. Shutdown and waiting output. The write side is closed only after a shutdown was asked for, and
  whenever an open connection has closed it no output waits: everything accepted before went to
  the socket first. And whenever output waits on an open
  connection, epoll watches the descriptor for writability, with a pointer to the channel of the
  connection, so the output is never forgotten.
\<close>

theorem shutdown_after_output:
  assumes "sock_laws api V" and "conn_callbacks V ccb mcb" and "fresh_for V a fd r"
    and "TcpConnection_ctor api a fd r = Inr s0" and "conn_run api ccb mcb s0 ms s" and "open_state (conn_state s)"
  shows "(v_fin V (kern s) fd \<longrightarrow> conn_state s = kDisconnecting \<and> bytes (outputBuffer s) = []) \<and>
    (bytes (outputBuffer s) \<noteq> [] \<longrightarrow>
       (\<exists>ev. v_watched V (kern s) fd = Some (ev, conn_channel s) \<and> ev AND kWriteEvent \<noteq> 0))"
proof -
  note run = new_conn_run [OF assms(1-5)]
  from run(1) obtain c where c: "poller_ok (v_watched V) s" "own_ok V s c" "chan_heap s (conn_channel s) = Some c" "conn_fd s = ch_fd c"
    by (rule tcp_okD)
  have "\<exists>ev. v_watched V (kern s) fd = Some (ev, conn_channel s) \<and> ev AND kWriteEvent \<noteq> 0" if "bytes (outputBuffer s) \<noteq> []"
  proof -
    have w: "ch_events c AND kWriteEvent \<noteq> 0" "ch_index c \<noteq> kNew"
      using that c(2) assms(6) by (auto simp: own_ok_def isWriting_def)
    then have "ch_index c = kAdded" "poll_channels s fd = Some (conn_channel s)"
      using poller_ok_chan [OF c(1,3)] run(2) c(4) by (auto simp: kNoneEvent_def)
    then show ?thesis
      using w(1) c(3) poller_ok_watched [OF c(1), of fd] by (simp add: wanted_def)
  qed
  with c(2,4) run(2) assms(6) show ?thesis by (auto simp: own_ok_def open_state_def early_def)
qed


text \<open>
  C26. The output is delivered. If the peer reads, so that a write takes at least a byte, then as many
  reports of writability as there are waiting bytes empty the output buffer of an open connection:
  all bytes accepted are with the socket, and a connection that was shut down with output
  waiting has closed its write side by then.
\<close>

theorem output_delivered:
  assumes "sock_laws api V" and "conn_callbacks V ccb mcb" and "fresh_for V a fd r"
    and "TcpConnection_ctor api a fd r = Inr s0" and "conn_run api ccb mcb s0 ms s" and "open_state (conn_state s)"
    and "peer_reads api V fd"
  shows "\<exists>t. writable_events api (length (bytes (outputBuffer s))) s = Inr ((), t) \<and>
    v_sent V (kern t) fd = v_sent V (kern s) fd @ bytes (outputBuffer s) \<and>
    (conn_state s = kDisconnecting \<and> bytes (outputBuffer s) \<noteq> [] \<longrightarrow> v_fin V (kern t) fd)"
proof -
  note run = new_conn_run [OF assms(1-5)]
  obtain t where t: "writable_events api (length (bytes (outputBuffer s))) s = Inr ((), t)" "conn_grows V [] s t"
    "bytes (outputBuffer t) = []" "conn_state s = kDisconnecting \<and> bytes (outputBuffer s) \<noteq> [] \<longrightarrow> v_fin V (kern t) (conn_fd t)"
    using writable_events_drain [OF assms(1) _ run(1) assms(6) order_refl] assms(7) run(2) by blast
  then have "stream V t = stream V s" "conn_fd t = fd"
    using run(2) by (auto simp: conn_grows_def dest: list_emb_Nil2)
  with t run(2) show ?thesis
    by (intro exI [of _ t]) (simp add: stream_def)
qed


section \<open>A kernel\<close>

text \<open>
  The documented behaviour can hold: sockets that take two bytes at a time and never have input.
\<close>

type_synonym ref_kernel = "(int \<rightharpoonup> 32 word \<times> nat) \<times> (int \<Rightarrow> string) \<times> (int \<Rightarrow> bool)"

definition ref_sock :: "ref_kernel sockApi" where
  "ref_sock =
     \<lparr>epoll = \<lparr>epoll_ctl = (\<lambda>operation fd ev a (w, k). let (b, w') = epoll_ctl ref_epoll operation fd ev a w in (b, w', k)),
               epoll_wait = (\<lambda>n timeout k. (Some [], k))\<rparr>,
      sys_write = (\<lambda>fd d (w, sent, fin). if fin fd then (Inl EPIPE, w, sent, fin)
                     else (Inr (min 2 (length d)), w, sent(fd := sent fd @ take 2 d), fin)),
      sys_readv = (\<lambda>fd n k. (Inl EWOULDBLOCK, k)),
      sys_shutdownWrite = (\<lambda>fd (w, sent, fin). (w, sent, fin(fd := True))),
      sys_setKeepAlive = (\<lambda>fd b k. k), sys_setTcpNoDelay = (\<lambda>fd b k. k)\<rparr>"

definition ref_view :: "ref_kernel sockView" where
  "ref_view = \<lparr>v_watched = fst, v_sent = (\<lambda>k. fst (snd k)), v_fin = (\<lambda>k. snd (snd k))\<rparr>"

lemma ref_sock_laws: "sock_laws ref_sock ref_view"
  unfolding sock_laws_def
proof (intro conjI)
  show "epoll_laws (epoll ref_sock) (v_watched ref_view)"
    by (simp add: epoll_laws_def ref_sock_def ref_view_def ref_epoll_def)
  show "\<forall>operation fd ev a k. keeps_socket ref_view k (snd (epoll_ctl (epoll ref_sock) operation fd ev a k))"
    by (simp add: keeps_socket_def ref_sock_def ref_view_def Let_def split: prod.split)
  show "write_law ref_sock ref_view"
    by (auto simp: write_law_def ref_sock_def ref_view_def min_def split: prod.splits if_splits)
  show "readv_law ref_sock ref_view" "shutdown_law ref_sock ref_view"
    by (auto simp: readv_law_def shutdown_law_def keeps_socket_def ref_sock_def ref_view_def split: prod.splits)
  show "\<forall>fd b k. v_watched ref_view (sys_setKeepAlive ref_sock fd b k) = v_watched ref_view k \<and>
      keeps_socket ref_view k (sys_setKeepAlive ref_sock fd b k)"
    by (simp add: keeps_socket_def ref_sock_def)
qed

definition ref_reactor :: "ref_kernel reactor" where
  "ref_reactor = new_reactor (Map.empty, (\<lambda>_. []), (\<lambda>_. False))"

lemma ref_fresh: "fresh_for ref_view 1 5 ref_reactor"
  by (auto simp: fresh_for_def ref_reactor_def new_reactor_def poller_ok_def wanted_def ref_view_def)

abbreviation ref_run :: "ref_kernel tcpState \<Rightarrow> string list \<Rightarrow> ref_kernel tcpState \<Rightarrow> bool" where
  "ref_run \<equiv> conn_run ref_sock defaultConnectionCallback defaultMessageCallback"

lemma default_ref: "conn_callbacks ref_view defaultConnectionCallback defaultMessageCallback"
  by (rule default.conn_callbacks_axioms)

text \<open>The connection after it was established, and after it sent a message.\<close>

lemma ref_connected:
  obtains s0 s where "TcpConnection_ctor ref_sock 1 5 ref_reactor = Inr s0" "ref_run s0 [] s" "tcp_ok ref_view s"
    "conn_state s = kConnected" "conn_fd s = 5" "stream ref_view s = []"
proof -
  obtain s0 where s0: "TcpConnection_ctor ref_sock 1 5 ref_reactor = Inr s0" "tcp_ok ref_view s0" "conn_fd s0 = 5"
      "conn_state s0 = kConnecting" "stream ref_view s0 = v_sent ref_view (kern ref_reactor) 5"
    by (rule ctor_ok [OF ref_sock_laws, of ref_reactor 5 1]) (use ref_fresh in \<open>auto simp: fresh_for_def\<close>)
  obtain s where s: "connectEstablished ref_sock defaultConnectionCallback s0 = Inr ((), s)" "conn_grows ref_view [] s0 s" "conn_state s = kConnected"
    by (rule default.connectEstablished_ok [OF ref_sock_laws s0(2,4)])
  have "ref_run s0 ([] @ handed Established s0) s"
    by (rule run_step [OF run_start]) (simp_all add: s0(4) s(1))
  moreover have "stream ref_view s = []" "conn_fd s = 5"
    using s(2) s0(3,5) by (auto simp: conn_grows_def ref_view_def ref_reactor_def new_reactor_def dest: list_emb_Nil2)
  ultimately show ?thesis
    using s0(1) s(3) conn_grows_ok [OF s(2)] by (intro that [of s0 s]) simp_all
qed

lemma ref_writes:
  assumes "tcp_ok ref_view s" and "conn_state s = kConnected" and "conn_fd s = 5"
  shows "\<not> write_breaks ref_sock 5 d (kern s)"
proof -
  from assms(1) obtain c where "own_ok ref_view s c" "conn_fd s = ch_fd c" by (rule tcp_okD)
  with assms(2,3) have "\<not> snd (snd (kern s)) 5"
    by (auto simp: own_ok_def early_def ref_view_def)
  then show ?thesis
    by (cases "kern s") (simp add: write_breaks_def ref_sock_def)
qed

lemma ref_sent:
  obtains s0 s where "TcpConnection_ctor ref_sock 1 5 ref_reactor = Inr s0" "ref_run s0 [''hello''] s"
    "conn_state s = kConnected" "v_sent ref_view (kern s) 5 @ bytes (outputBuffer s) = ''hello''"
proof -
  obtain s0 s where s: "TcpConnection_ctor ref_sock 1 5 ref_reactor = Inr s0" "ref_run s0 [] s" "tcp_ok ref_view s"
    "conn_state s = kConnected" "conn_fd s = 5" "stream ref_view s = []" by (rule ref_connected)
  obtain t where t: "sendInLoop ref_sock ''hello'' s = Inr ((), t)" "conn_fd t = conn_fd s" "stream ref_view t = stream ref_view s @ ''hello''"
    by (rule sendInLoop_accepts [OF ref_sock_laws s(3), of "''hello''"]) (use s(4,5) ref_writes [OF s(3-5)] in \<open>simp_all add: open_state_def\<close>)
  have "conn_state t = kConnected"
    by (rule sendInLoop_ok [OF ref_sock_laws s(3), of "''hello''"]) (use s(4) t(1) in auto)
  moreover have "ref_run s0 ([] @ handed (InLoop (CSend ''hello'')) s) t"
    by (rule run_step [OF s(2)])
       (use s(4) t(1) tcp_ok_in_loop [OF s(3)] in \<open>simp_all add: TcpConnection_send_def runInLoop_def prog_simps\<close>)
  ultimately show ?thesis
    using s(1,5,6) t(2,3) by (intro that [of s0 t]) (simp_all add: stream_def)
qed

theorem output_whole_messages_witness:
  "\<exists>s0 s. TcpConnection_ctor ref_sock 1 5 ref_reactor = Inr s0 \<and> ref_run s0 [''hello''] s \<and>
     v_sent ref_view (kern s) 5 @ bytes (outputBuffer s) = ''hello'' \<and>
     (\<exists>ms'. subseq ms' [''hello''] \<and> v_sent ref_view (kern s) 5 @ bytes (outputBuffer s) = concat ms')"
proof -
  obtain s0 s where s: "TcpConnection_ctor ref_sock 1 5 ref_reactor = Inr s0" "ref_run s0 [''hello''] s"
    "v_sent ref_view (kern s) 5 @ bytes (outputBuffer s) = ''hello''" by (rule ref_sent)
  with output_whole_messages [OF ref_sock_laws default_ref ref_fresh s(1,2)] show ?thesis
    by (intro exI [of _ s0] exI [of _ s]) (simp add: ref_view_def ref_reactor_def new_reactor_def)
qed

theorem send_accepts_message_witness:
  "\<exists>s s'. conn_state s = kConnected \<and> TcpConnection_send ref_sock ''hello'' s = Inr ((), s') \<and>
     v_sent ref_view (kern s') 5 @ bytes (outputBuffer s') = ''hello''"
proof -
  obtain s0 s where s: "TcpConnection_ctor ref_sock 1 5 ref_reactor = Inr s0" "ref_run s0 [] s" "tcp_ok ref_view s"
    "conn_state s = kConnected" "conn_fd s = 5" "stream ref_view s = []" by (rule ref_connected)
  with send_accepts_message [OF ref_sock_laws default_ref ref_fresh s(1,2,4) ref_writes [OF s(3-5)], of "''hello''"] show ?thesis
    by (auto simp: stream_def)
qed

theorem shutdown_after_output_witness:
  "\<exists>s :: ref_kernel tcpState. conn_state s = kDisconnecting \<and> v_fin ref_view (kern s) 5 \<and> bytes (outputBuffer s) = []"
proof -
  obtain s0 s where s: "TcpConnection_ctor ref_sock 1 5 ref_reactor = Inr s0" "ref_run s0 [] s" "tcp_ok ref_view s"
    "conn_state s = kConnected" "conn_fd s = 5" "stream ref_view s = []" by (rule ref_connected)
  let ?t = "s\<lparr>conn_state := kDisconnecting\<rparr>"
  have g: "conn_grows ref_view [] s ?t"
    by (rule disconnecting_ok [OF s(3)]) (simp add: s(4) open_state_def)
  obtain u where u: "shutdownInLoop ref_sock ?t = Inr ((), u)" "conn_grows ref_view [] ?t u" "conn_state u = kDisconnecting"
    "v_fin ref_view (kern u) (conn_fd u)"
    by (rule shutdownInLoop_ok [OF ref_sock_laws conn_grows_ok [OF g]]) (use s(6) in \<open>auto simp: early_def stream_def\<close>)
  have run: "ref_run s0 ([] @ handed (InLoop CShutdown) s) u"
    by (rule run_step [OF s(2)])
       (use s(4) u(1) tcp_ok_in_loop [OF s(3)] in \<open>simp_all add: TcpConnection_shutdown_def runInLoop_def setState_def prog_simps\<close>)
  have "conn_fd u = 5"
    using conn_grows_trans [OF g u(2)] s(5) by (simp add: conn_grows_def)
  with shutdown_after_output [OF ref_sock_laws default_ref ref_fresh s(1) run] u(3,4) show ?thesis
    by (intro exI [of _ u]) (simp add: open_state_def)
qed


theorem output_delivered_witness:
  "\<exists>s t. writable_events ref_sock (length (bytes (outputBuffer s))) s = Inr ((), t) \<and> v_sent ref_view (kern t) 5 = ''hello''"
proof -
  obtain s0 s where s: "TcpConnection_ctor ref_sock 1 5 ref_reactor = Inr s0" "ref_run s0 [''hello''] s" "conn_state s = kConnected"
    "v_sent ref_view (kern s) 5 @ bytes (outputBuffer s) = ''hello''" by (rule ref_sent)
  have "peer_reads ref_sock ref_view 5"
    by (auto simp: peer_reads_def ref_sock_def ref_view_def)
  with output_delivered [OF ref_sock_laws default_ref ref_fresh s(1,2)] s(3,4) show ?thesis
    by (auto simp: open_state_def)
qed

end
