(* ===== verification/LogStream.thy ===== *)
theory LogStream
  imports Double "HOL-Library.Sublist"
begin

text \<open>
  \<^verbatim>\<open>LogStream.h\<close> and \<^verbatim>\<open>LogStream.cc\<close>: the buffer of fixed size a log line is built in, the conversion of
  integers and addresses to text, and the \<^verbatim>\<open><<\<close> operators. A buffer is its array and the position
  \<^verbatim>\<open>cur_\<close>; a write outside the array is undefined behaviour and a fault of the model. The lemmas show that
  the conversions give the decimal and hexadecimal numerals, and that a stream never writes outside
  its array and holds exactly the texts that fitted.
\<close>


section \<open>The buffer\<close>

definition kSmallBuffer :: nat where "kSmallBuffer = 4000"
definition kLargeBuffer :: nat where "kLargeBuffer = 4000 * 1000"

record fixedBuffer =
  fb_data :: string
  fb_cur :: nat

text \<open>The constructor leaves the array as it is found.\<close>

definition FixedBuffer_ctor :: "string \<Rightarrow> fixedBuffer" where
  "FixedBuffer_ctor garbage = \<lparr>fb_data = garbage, fb_cur = 0\<rparr>"

definition fb_length :: "fixedBuffer \<Rightarrow> nat" where
  "fb_length b = fb_cur b"

definition avail :: "fixedBuffer \<Rightarrow> int" where
  "avail b = int (length (fb_data b)) - int (fb_cur b)"

text \<open>Storing bytes from \<^verbatim>\<open>cur_ + i\<close> on.\<close>

definition store :: "nat \<Rightarrow> string \<Rightarrow> fixedBuffer \<Rightarrow> fixedBuffer res" where
  "store i s b =
     (if fb_cur b + i + length s \<le> length (fb_data b)
      then Inr (b\<lparr>fb_data := overwrite (fb_cur b + i) s (fb_data b)\<rparr>)
      else Inl (UndefinedBehaviour ''write outside the buffer''))"

definition fb_add :: "nat \<Rightarrow> fixedBuffer \<Rightarrow> fixedBuffer" where
  "fb_add len b = b\<lparr>fb_cur := fb_cur b + len\<rparr>"

definition fb_reset :: "fixedBuffer \<Rightarrow> fixedBuffer" where
  "fb_reset b = b\<lparr>fb_cur := 0\<rparr>"

definition fb_bzero :: "fixedBuffer \<Rightarrow> fixedBuffer" where
  "fb_bzero b = b\<lparr>fb_data := replicate (length (fb_data b)) NUL\<rparr>"

definition FixedBuffer_append :: "string \<Rightarrow> fixedBuffer \<Rightarrow> fixedBuffer res" where
  "FixedBuffer_append s b =
     (if avail b > int (length s) then andThen (store 0 s b) (\<lambda>b'. Inr (fb_add (length s) b')) else Inr b)"

definition fb_toString :: "fixedBuffer \<Rightarrow> string" where
  "fb_toString b = take (fb_length b) (fb_data b)"

definition debugString :: "fixedBuffer \<Rightarrow> fixedBuffer res" where
  "debugString b = store 0 [NUL] b"


section \<open>Numbers\<close>

definition digits :: string where
  "digits = ''9876543210123456789''"

text \<open>\<^verbatim>\<open>zero[lsd]\<close>, where \<^verbatim>\<open>zero\<close> points into the middle of \<^verbatim>\<open>digits\<close>.\<close>

definition zero_at :: "int \<Rightarrow> char" where
  "zero_at lsd = digits ! nat (9 + lsd)"

definition digitsHex :: string where
  "digitsHex = ''0123456789ABCDEF''"

text \<open>The loops, which store the digits from the last to the first.\<close>

function convert_loop :: "int \<Rightarrow> string" where
  "convert_loop i = zero_at (c_mod i 10) # (if c_div i 10 \<noteq> 0 then convert_loop (c_div i 10) else [])"
  by pat_completeness auto

termination
proof (relation "measure (\<lambda>i. nat \<bar>i\<bar>)")
  fix i :: int
  assume "c_div i 10 \<noteq> 0"
  then have "i \<noteq> 0" "\<bar>c_div i 10\<bar> = \<bar>i\<bar> div 10"
    by (auto simp: c_div_def abs_mult sgn_if split: if_splits)
  then show "(c_div i 10, i) \<in> measure (\<lambda>i. nat \<bar>i\<bar>)"
    by auto
qed simp

declare convert_loop.simps [simp del]

definition convert :: "int \<Rightarrow> string" where
  "convert value = rev (convert_loop value @ (if value < 0 then ''-'' else []))"

fun convertHex_loop :: "nat \<Rightarrow> string" where
  "convertHex_loop i = digitsHex ! (i mod 16) # (if i div 16 \<noteq> 0 then convertHex_loop (i div 16) else [])"

declare convertHex_loop.simps [simp del]

definition convertHex :: "64 word \<Rightarrow> string" where
  "convertHex value = rev (convertHex_loop (unat value))"


section \<open>The operators\<close>

definition kMaxNumericSize :: nat where "kMaxNumericSize = 32"

definition formatInteger :: "int \<Rightarrow> fixedBuffer \<Rightarrow> fixedBuffer res" where
  "formatInteger v b =
     (if avail b \<ge> int kMaxNumericSize
      then andThen (store 0 (convert v @ [NUL]) b) (\<lambda>b'. Inr (fb_add (length (convert v)) b'))
      else Inr b)"

definition format_pointer :: "64 word \<Rightarrow> fixedBuffer \<Rightarrow> fixedBuffer res" where
  "format_pointer v b =
     (if avail b \<ge> int kMaxNumericSize
      then andThen (store 0 ''0x'' b) (\<lambda>b.
           andThen (store 2 (convertHex v @ [NUL]) b) (\<lambda>b.
           Inr (fb_add (length (convertHex v) + 2) b)))
      else Inr b)"

text \<open>\<^verbatim>\<open>snprintf\<close> stores what fits but returns the whole length.\<close>

definition format_double :: "double \<Rightarrow> fixedBuffer \<Rightarrow> fixedBuffer res" where
  "format_double v b =
     (if avail b \<ge> int kMaxNumericSize
      then andThen (store 0 (snprintf_trunc kMaxNumericSize (printf_g12 v) @ [NUL]) b) (\<lambda>b'.
           Inr (fb_add (length (printf_g12 v)) b'))
      else Inr b)"

text \<open>The operators on the integer types; a short is first widened to an \<^verbatim>\<open>int\<close>.\<close>

definition put_int :: "32 word \<Rightarrow> fixedBuffer \<Rightarrow> fixedBuffer res" where
  "put_int v = formatInteger (sint v)"

definition put_uint :: "32 word \<Rightarrow> fixedBuffer \<Rightarrow> fixedBuffer res" where
  "put_uint v = formatInteger (uint v)"

definition put_short :: "16 word \<Rightarrow> fixedBuffer \<Rightarrow> fixedBuffer res" where
  "put_short v = put_int (word_of_int (sint v))"

definition put_ushort :: "16 word \<Rightarrow> fixedBuffer \<Rightarrow> fixedBuffer res" where
  "put_ushort v = put_uint (word_of_int (uint v))"

definition put_long :: "64 word \<Rightarrow> fixedBuffer \<Rightarrow> fixedBuffer res" where
  "put_long v = formatInteger (sint v)"

definition put_ulong :: "64 word \<Rightarrow> fixedBuffer \<Rightarrow> fixedBuffer res" where
  "put_ulong v = formatInteger (uint v)"

definition put_longlong :: "64 word \<Rightarrow> fixedBuffer \<Rightarrow> fixedBuffer res" where
  "put_longlong v = formatInteger (sint v)"

definition put_ulonglong :: "64 word \<Rightarrow> fixedBuffer \<Rightarrow> fixedBuffer res" where
  "put_ulonglong v = formatInteger (uint v)"

lemmas put_defs = put_int_def put_uint_def put_short_def put_ushort_def put_long_def put_ulong_def put_longlong_def put_ulonglong_def

text \<open>\<^verbatim>\<open>Fmt\<close> asserts that the formatted text fits into its 32 bytes.\<close>

definition Fmt_ctor :: "string \<Rightarrow> string res" where
  "Fmt_ctor formatted = asserting (length formatted < 32) (Inr formatted)"

datatype log_item =
    LogBool bool | LogShort "16 word" | LogUShort "16 word" | LogInt "32 word" | LogUInt "32 word"
  | LogLong "64 word" | LogULong "64 word" | LogLongLong "64 word" | LogULongLong "64 word"
  | LogPointer "64 word" | LogFloat double | LogDouble double | LogChar char | LogCString "string option" | LogString string
  | LogBuffer fixedBuffer | LogFmt string

fun log_put :: "log_item \<Rightarrow> fixedBuffer \<Rightarrow> fixedBuffer res" where
  "log_put (LogBool v) b = FixedBuffer_append (if v then ''1'' else ''0'') b"
| "log_put (LogShort v) b = put_short v b"
| "log_put (LogUShort v) b = put_ushort v b"
| "log_put (LogInt v) b = put_int v b"
| "log_put (LogUInt v) b = put_uint v b"
| "log_put (LogLong v) b = put_long v b"
| "log_put (LogULong v) b = put_ulong v b"
| "log_put (LogLongLong v) b = put_longlong v b"
| "log_put (LogULongLong v) b = put_ulonglong v b"
| "log_put (LogPointer v) b = format_pointer v b"
| "log_put (LogFloat v) b = format_double v b"
| "log_put (LogDouble v) b = format_double v b"
| "log_put (LogChar v) b = FixedBuffer_append [v] b"
| "log_put (LogCString (Some s)) b = FixedBuffer_append (c_str s) b"
| "log_put (LogCString None) b = FixedBuffer_append ''(null)'' b"
| "log_put (LogString s) b = FixedBuffer_append s b"
| "log_put (LogBuffer v) b = FixedBuffer_append (fb_toString v) b"
| "log_put (LogFmt formatted) b = andThen (Fmt_ctor formatted) (\<lambda>t. FixedBuffer_append t b)"

primrec log_puts :: "log_item list \<Rightarrow> fixedBuffer \<Rightarrow> fixedBuffer res" where
  "log_puts [] b = Inr b"
| "log_puts (x # xs) b = andThen (log_put x b) (log_puts xs)"


section \<open>The conversions\<close>

lemma zero_at_digit: "\<bar>d\<bar> < 10 \<Longrightarrow> zero_at d = digit_char (nat \<bar>d\<bar>)"
proof -
  assume "\<bar>d\<bar> < 10"
  then have "d \<in> set [-9..9]" by auto
  moreover have "list_all (\<lambda>d. zero_at d = digit_char (nat \<bar>d\<bar>)) [-9..9]" by code_simp
  ultimately show ?thesis unfolding list_all_iff by blast
qed

lemma convert_loop_nat: "convert_loop (int n) = rev (show_nat n)"
proof (induction n rule: show_nat.induct)
  case (1 n)
  have m: "c_mod (int n) 10 = int (n mod 10)" "c_div (int n) 10 = int (n div 10)"
    by (simp_all add: c_mod_nonneg c_div_nonneg zmod_int zdiv_int)
  have "zero_at (int (n mod 10)) = digit_char (n mod 10)"
    by (subst zero_at_digit) simp_all
  with 1 m show ?case
    by (subst convert_loop.simps, subst show_nat.simps) auto
qed

lemma convert_loop_minus: "convert_loop (- int n) = convert_loop (int n)"
proof (induction n rule: show_nat.induct)
  case (1 n)
  have m: "c_mod (int n) 10 = int (n mod 10)" "c_div (int n) 10 = int (n div 10)"
    by (simp_all add: c_mod_nonneg c_div_nonneg zmod_int zdiv_int)
  have "zero_at (- int (n mod 10)) = zero_at (int (n mod 10))"
    by (simp add: zero_at_digit)
  with 1 m show ?case
    by (subst (1 2) convert_loop.simps) (auto simp: c_div_minus c_mod_minus)
qed

lemma convert_to_string: "convert v = to_string v"
proof (cases "v < 0")
  case True
  then obtain n where "v = - int n" by (metis int_nat_eq minus_minus neg_int_cases)
  with True show ?thesis
    by (simp add: convert_def to_string_def convert_loop_minus convert_loop_nat)
next
  case False
  then obtain n where "v = int n" by (metis not_less zero_le_imp_eq_int)
  then show ?thesis
    by (simp add: convert_def to_string_def convert_loop_nat)
qed

text \<open>The hexadecimal numeral, and its value.\<close>

fun show_hex :: "nat \<Rightarrow> string" where
  "show_hex n = (if n < 16 then [digitsHex ! n] else show_hex (n div 16) @ [digitsHex ! (n mod 16)])"

declare show_hex.simps [simp del]

lemma convertHex_loop_show: "convertHex_loop n = rev (show_hex n)"
proof (induction n rule: show_hex.induct)
  case (1 n)
  then show ?case
    by (subst convertHex_loop.simps, subst show_hex.simps) auto
qed

lemma convertHex_show: "convertHex v = show_hex (unat v)"
  by (simp add: convertHex_def convertHex_loop_show)

definition hex_digit :: "char \<Rightarrow> nat" where
  "hex_digit c = (if is_digit c then char_digit c else of_char c - 55)"

definition hex_value :: "string \<Rightarrow> nat" where
  "hex_value s = foldl (\<lambda>a c. 16 * a + hex_digit c) 0 s"

lemma hex_digit_nth: "n < 16 \<Longrightarrow> hex_digit (digitsHex ! n) = n"
proof -
  assume "n < 16"
  moreover have "list_all (\<lambda>n. hex_digit (digitsHex ! n) = n) [0..<16]" by code_simp
  ultimately show ?thesis by (simp add: list_all_iff)
qed

lemma hex_value_show_hex: "hex_value (show_hex n) = n"
proof (induction n rule: show_hex.induct)
  case (1 n)
  then show ?case
    by (subst show_hex.simps) (auto simp: hex_value_def hex_digit_nth)
qed

lemma length_show_hex: "n < 16 ^ k \<Longrightarrow> 0 < k \<Longrightarrow> length (show_hex n) \<le> k"
proof (induction n arbitrary: k rule: show_hex.induct)
  case (1 n)
  show ?case
  proof (cases "n < 16")
    case True
    with 1 show ?thesis by (subst show_hex.simps) simp
  next
    case False
    then obtain j where k: "k = Suc j" "0 < j"
      using "1.prems" by (cases k; cases "k - 1") auto
    then have "n div 16 < 16 ^ j"
      using "1.prems"(1) by (simp add: less_mult_imp_div_less mult.commute)
    with "1.IH" [OF False this k(2)] False k show ?thesis by (subst show_hex.simps) simp
  qed
qed

lemma length_convertHex: "length (convertHex v) \<le> 16"
proof -
  have "unat v < 16 ^ 16"
    using unsigned_less [of v, where ?'a = nat] by simp
  then show ?thesis
    by (simp add: convertHex_show length_show_hex)
qed

lemma length_to_string: "\<bar>v\<bar> < 2 ^ 64 \<Longrightarrow> length (to_string v) \<le> 21"
proof -
  assume "\<bar>v\<bar> < 2 ^ 64"
  then have "length (show_nat (nat \<bar>v\<bar>)) \<le> 20"
    by (intro length_show_nat) auto
  then show ?thesis by (cases "v < 0") (simp_all add: to_string_def)
qed


section \<open>A stream holds what fitted\<close>

definition fb_ok :: "fixedBuffer \<Rightarrow> bool" where
  "fb_ok b \<longleftrightarrow> fb_cur b \<le> length (fb_data b)"

lemma length_fb_toString: "fb_ok b \<Longrightarrow> length (fb_toString b) = fb_length b"
  by (simp add: fb_ok_def fb_toString_def fb_length_def)

text \<open>The outcome of an operation that writes \<open>s\<close> when the room is at least \<open>need\<close>.\<close>

definition writes :: "string \<Rightarrow> nat \<Rightarrow> fixedBuffer \<Rightarrow> fixedBuffer res \<Rightarrow> bool" where
  "writes s need b r \<longleftrightarrow>
     (\<exists>b'. r = Inr b' \<and> fb_ok b' \<and> length (fb_data b') = length (fb_data b) \<and>
        fb_toString b' = (if fb_length b + need \<le> length (fb_data b) then fb_toString b @ s else fb_toString b))"

lemma store_writes:
  assumes "fb_ok b" and "fb_length b + length s + length rest \<le> length (fb_data b)"
  shows "\<exists>b'. store 0 (s @ rest) b = Inr b' \<and> fb_cur b' = fb_cur b \<and> length (fb_data b') = length (fb_data b) \<and>
    fb_ok (fb_add (length s) b') \<and> fb_toString (fb_add (length s) b') = fb_toString b @ s"
proof -
  let ?d = "overwrite (fb_cur b) (s @ rest) (fb_data b)"
  have len: "fb_cur b + length (s @ rest) \<le> length (fb_data b)"
    using assms(2) by (simp add: fb_length_def)
  have "take (fb_cur b + length s) ?d = take (fb_cur b) (fb_data b) @ s"
    using len by (cases s) (auto simp: overwrite_def min_def)
  with len show ?thesis
    by (intro exI [of _ "b\<lparr>fb_data := ?d\<rparr>"])
       (simp add: store_def fb_ok_def fb_add_def fb_toString_def fb_length_def)
qed

lemma append_writes:
  assumes "fb_ok b"
  shows "writes s (Suc (length s)) b (FixedBuffer_append s b)"
proof (cases "avail b > int (length s)")
  case True
  then have "fb_length b + length s + length [] \<le> length (fb_data b)" "fb_length b + Suc (length s) \<le> length (fb_data b)"
    by (simp_all add: avail_def fb_length_def)
  with store_writes [OF assms, of s "[]"] True show ?thesis
    by (auto simp: writes_def FixedBuffer_append_def fb_add_def)
next
  case False
  with assms show ?thesis
    by (simp add: writes_def FixedBuffer_append_def avail_def fb_length_def)
qed

lemma numeric_writes:
  assumes "fb_ok b" and "length s + length rest \<le> 32"
    and "r = (if avail b \<ge> int kMaxNumericSize then andThen (store 0 (s @ rest) b) (\<lambda>b'. Inr (fb_add (length s) b')) else Inr b)"
  shows "writes s 32 b r"
proof (cases "avail b \<ge> int kMaxNumericSize")
  case True
  then have n: "fb_length b + 32 \<le> length (fb_data b)"
    by (simp add: avail_def fb_length_def kMaxNumericSize_def)
  with assms(2) have "fb_length b + length s + length rest \<le> length (fb_data b)" by simp
  from store_writes [OF assms(1) this] True n assms(3) show ?thesis
    by (auto simp: writes_def fb_add_def)
next
  case False
  with assms show ?thesis
    by (simp add: writes_def avail_def fb_length_def kMaxNumericSize_def)
qed

lemma formatInteger_writes:
  assumes "fb_ok b" and "\<bar>v\<bar> < 2 ^ 64"
  shows "writes (to_string v) 32 b (formatInteger v b)"
  by (rule numeric_writes [OF assms(1), where rest = "[NUL]"])
     (use length_to_string [OF assms(2)] in \<open>simp_all add: formatInteger_def convert_to_string\<close>)

lemma store_store:
  assumes "fb_cur b + length s + length u \<le> length (fb_data b)"
  shows "andThen (store 0 s b) (store (length s) u) = store 0 (s @ u) b"
  using assms by (cases s) (auto simp: store_def overwrite_def min_def ac_simps)

lemma format_pointer_writes:
  assumes "fb_ok b"
  shows "writes (''0x'' @ show_hex (unat v)) 32 b (format_pointer v b)"
proof (rule numeric_writes [OF assms, where rest = "[NUL]"])
  show "length (''0x'' @ show_hex (unat v)) + length [NUL] \<le> 32"
    using length_convertHex [of v] by (simp add: convertHex_show)
  show "format_pointer v b = (if avail b \<ge> int kMaxNumericSize
      then andThen (store 0 ((''0x'' @ show_hex (unat v)) @ [NUL]) b)
        (\<lambda>b'. Inr (fb_add (length (''0x'' @ show_hex (unat v))) b')) else Inr b)"
  proof (cases "avail b \<ge> int kMaxNumericSize")
    case True
    then have "fb_cur b + length ''0x'' + length (show_hex (unat v) @ [NUL]) \<le> length (fb_data b)"
      using length_convertHex [of v] by (simp add: avail_def kMaxNumericSize_def convertHex_show)
    from store_store [OF this] True show ?thesis
      by (simp add: format_pointer_def convertHex_show andThen_assoc [symmetric] numeral_2_eq_2)
  qed (simp add: format_pointer_def)
qed

lemma format_double_writes:
  assumes "fb_ok b" and "double_range v"
  shows "writes (printf_g12 v) 32 b (format_double v b)"
  by (rule numeric_writes [OF assms(1), where rest = "[NUL]"])
     (use length_printf_g12 [OF assms(2)] in \<open>simp_all add: format_double_def snprintf_trunc_id kMaxNumericSize_def\<close>)

text \<open>The text of an item, and the room the code asks for before writing it.\<close>

fun item_text :: "log_item \<Rightarrow> string" where
  "item_text (LogBool v) = (if v then ''1'' else ''0'')"
| "item_text (LogShort v) = to_string (sint v)"
| "item_text (LogUShort v) = to_string (uint v)"
| "item_text (LogInt v) = to_string (sint v)"
| "item_text (LogUInt v) = to_string (uint v)"
| "item_text (LogLong v) = to_string (sint v)"
| "item_text (LogULong v) = to_string (uint v)"
| "item_text (LogLongLong v) = to_string (sint v)"
| "item_text (LogULongLong v) = to_string (uint v)"
| "item_text (LogPointer v) = ''0x'' @ show_hex (unat v)"
| "item_text (LogFloat v) = printf_g12 v"
| "item_text (LogDouble v) = printf_g12 v"
| "item_text (LogChar v) = [v]"
| "item_text (LogCString (Some s)) = c_str s"
| "item_text (LogCString None) = ''(null)''"
| "item_text (LogString s) = s"
| "item_text (LogBuffer v) = fb_toString v"
| "item_text (LogFmt formatted) = formatted"

fun item_need :: "log_item \<Rightarrow> nat" where
  "item_need (LogBool v) = 2"
| "item_need (LogChar v) = 2"
| "item_need (LogCString s) = Suc (length (item_text (LogCString s)))"
| "item_need (LogString s) = Suc (length s)"
| "item_need (LogBuffer v) = Suc (length (fb_toString v))"
| "item_need (LogFmt formatted) = Suc (length formatted)"
| "item_need _ = 32"

fun item_ok :: "log_item \<Rightarrow> bool" where
  "item_ok (LogFloat v) \<longleftrightarrow> double_range v"
| "item_ok (LogDouble v) \<longleftrightarrow> double_range v"
| "item_ok (LogFmt formatted) \<longleftrightarrow> length formatted < 32"
| "item_ok _ \<longleftrightarrow> True"

lemma sint_small: "LENGTH('a) \<le> 64 \<Longrightarrow> \<bar>sint (v :: 'a::len word)\<bar> < 2 ^ 64"
proof -
  assume "LENGTH('a) \<le> 64"
  then have "(2 :: int) ^ (LENGTH('a) - 1) \<le> 2 ^ 63"
    by (intro power_increasing) auto
  with sint_greater_eq [of v] sint_less [of v] show ?thesis by simp
qed

lemma uint_small: "LENGTH('a) \<le> 64 \<Longrightarrow> \<bar>uint (v :: 'a::len word)\<bar> < 2 ^ 64"
proof -
  assume "LENGTH('a) \<le> 64"
  then have "(2 :: int) ^ LENGTH('a) \<le> 2 ^ 64"
    by (intro power_increasing) auto
  with uint_lt2p [of v] have "uint v < 2 ^ 64" by (rule less_le_trans)
  then show ?thesis by simp
qed

lemma widen_short: "sint (word_of_int (sint (v :: 16 word)) :: 32 word) = sint v" "uint (word_of_int (uint (u :: 16 word)) :: 32 word) = uint u"
proof -
  have "to_int32 (sint v) = sint v"
    using sint_greater_eq [of v] sint_less [of v] by (intro to_int32_id) simp_all
  then show "sint (word_of_int (sint v) :: 32 word) = sint v"
    by (simp only: to_int32_def)
  have "uint u < 2 ^ 32"
    using uint_lt2p [of u] by simp
  then show "uint (word_of_int (uint u) :: 32 word) = uint u"
    by (subst uint_word_of_int_eq) (simp add: take_bit_int_eq_self)
qed

lemma sint_writes:
  "fb_ok b \<Longrightarrow> LENGTH('a) \<le> 64 \<Longrightarrow> writes (to_string (sint (v :: 'a::len word))) 32 b (formatInteger (sint v) b)"
  by (rule formatInteger_writes [OF _ sint_small])

lemma uint_writes:
  "fb_ok b \<Longrightarrow> LENGTH('a) \<le> 64 \<Longrightarrow> writes (to_string (uint (v :: 'a::len word))) 32 b (formatInteger (uint v) b)"
  by (rule formatInteger_writes [OF _ uint_small])

lemma char_writes: "fb_ok b \<Longrightarrow> writes [c] 2 b (FixedBuffer_append [c] b)"
  using append_writes [of b "[c]"] by (simp add: numeral_2_eq_2)

lemma log_put_writes:
  assumes "fb_ok b" and "item_ok x"
  shows "writes (item_text x) (item_need x) b (log_put x b)"
proof (cases x)
  case (LogCString s)
  with append_writes [OF assms(1)] append_writes [OF assms(1), of "''(null)''"] show ?thesis
    by (cases s) simp_all
next
  case (LogFmt s)
  with append_writes [OF assms(1)] assms(2) show ?thesis by (simp add: Fmt_ctor_def)
next
  case (LogShort v)
  have "writes (to_string (sint v)) 32 b (formatInteger (sint v) b)"
    by (rule sint_writes [OF assms(1)]) simp
  with LogShort show ?thesis by (simp only: log_put.simps item_text.simps item_need.simps put_defs widen_short)
next
  case (LogUShort v)
  have "writes (to_string (uint v)) 32 b (formatInteger (uint v) b)"
    by (rule uint_writes [OF assms(1)]) simp
  with LogUShort show ?thesis by (simp only: log_put.simps item_text.simps item_need.simps put_defs widen_short)
next
  case (LogPointer v)
  with format_pointer_writes [OF assms(1)] show ?thesis by simp
next
  case (LogFloat v)
  with format_double_writes [OF assms(1)] assms(2) show ?thesis by simp
next
  case (LogDouble v)
  with format_double_writes [OF assms(1)] assms(2) show ?thesis by simp
qed (simp_all add: put_defs sint_writes uint_writes char_writes append_writes assms(1))

lemma item_need_le: "item_ok x \<Longrightarrow> item_need x \<le> length (item_text x) + 32"
  by (cases x rule: item_need.cases) simp_all

lemma log_puts_whole_items:
  assumes "fb_ok b" and "\<forall>x \<in> set xs. item_ok x"
  shows "\<exists>b' ys. log_puts xs b = Inr b' \<and> fb_ok b' \<and> length (fb_data b') = length (fb_data b) \<and> subseq ys xs \<and>
    fb_toString b' = fb_toString b @ concat (map item_text ys) \<and>
    (fb_length b + length (concat (map item_text xs)) + 32 \<le> length (fb_data b) \<longrightarrow> ys = xs)"
  using assms
proof (induction xs arbitrary: b)
  case Nil
  then show ?case by (intro exI [of _ b] exI [of _ "[]"]) simp
next
  case (Cons x xs)
  then have "writes (item_text x) (item_need x) b (log_put x b)"
    by (intro log_put_writes) auto
  then obtain c where c: "log_put x b = Inr c" "fb_ok c" "length (fb_data c) = length (fb_data b)"
    "fb_toString c = (if fb_length b + item_need x \<le> length (fb_data b) then fb_toString b @ item_text x else fb_toString b)"
    by (auto simp: writes_def)
  from Cons.IH [OF c(2)] Cons.prems(2) obtain b' ys where
    b': "log_puts xs c = Inr b'" "fb_ok b'" "length (fb_data b') = length (fb_data c)" "subseq ys xs"
    "fb_toString b' = fb_toString c @ concat (map item_text ys)"
    "fb_length c + length (concat (map item_text xs)) + 32 \<le> length (fb_data c) \<longrightarrow> ys = xs" by auto
  show ?case
  proof (cases "fb_length b + item_need x \<le> length (fb_data b)")
    case True
    with c(4) length_fb_toString [OF c(2)] length_fb_toString [OF Cons.prems(1)]
    have "fb_length c = fb_length b + length (item_text x)" by simp
    with True b' c show ?thesis
      by (intro exI [of _ b'] exI [of _ "x # ys"]) auto
  next
    case False
    with item_need_le [of x] Cons.prems(2) b' c show ?thesis
      by (intro exI [of _ b'] exI [of _ ys]) auto
  qed
qed


section \<open>Properties\<close>

text \<open>
  C28. The conversion of integers. For every integer, whatever its type, the characters \<^verbatim>\<open>convert\<close> stores
  are the decimal numeral of the number, with a minus sign for negative ones; this covers the
  smallest number of each signed type, whose negation does not exist in the type.
\<close>

theorem convert_decimal: "convert v = to_string v"
  by (rule convert_to_string)

text \<open>
  The conversion of addresses. The characters \<^verbatim>\<open>convertHex\<close> stores are at most sixteen, and reading
  them as a hexadecimal numeral gives the address back.
\<close>

theorem convertHex_roundtrip: "hex_value (convertHex v) = unat v \<and> length (convertHex v) \<le> 16"
  by (simp add: convertHex_show hex_value_show_hex length_convertHex [unfolded convertHex_show])

text \<open>
  C27. A log stream of any capacity. Any sequence of \<^verbatim>\<open><<\<close> operations returns, so that nothing is written
  outside the array. The stream then holds what it held before followed by the texts of some of the
  items, in order and each one whole; and all of them when 32 bytes remain after the last.
\<close>

theorem log_stream_whole_items:
  assumes "fb_ok b" and "\<forall>x \<in> set xs. item_ok x"
  shows "\<exists>b' ys. log_puts xs b = Inr b' \<and> fb_ok b' \<and> length (fb_data b') = length (fb_data b) \<and> subseq ys xs \<and>
    fb_toString b' = fb_toString b @ concat (map item_text ys) \<and>
    (fb_length b + length (concat (map item_text xs)) + 32 \<le> length (fb_data b) \<longrightarrow> ys = xs)"
  using assms by (rule log_puts_whole_items)

theorem log_stream_whole_items_witness:
  "\<exists>b'. log_puts [LogString ''id '', LogInt (- 42), LogChar CHR '' '', LogPointer 255] (FixedBuffer_ctor (replicate 80 NUL)) = Inr b' \<and>
     fb_toString b' = ''id -42 0xFF''"
proof -
  have n: "show_nat 42 = ''42''" "show_hex 255 = ''FF''"
    by code_simp+
  show ?thesis
    using log_stream_whole_items [of "FixedBuffer_ctor (replicate 80 NUL)"
        "[LogString ''id '', LogInt (- 42), LogChar CHR '' '', LogPointer 255]"]
    by (auto simp: fb_ok_def FixedBuffer_ctor_def fb_length_def fb_toString_def to_string_def n)
qed

end
