(* ===== verification/Date.thy ===== *)
theory Date
  imports Text
begin

text \<open>
  \<^verbatim>\<open>Date.h\<close> and \<^verbatim>\<open>Date.cc\<close>: dates as Julian day numbers, on \<^verbatim>\<open>int\<close> with the intermediate results checked for
  overflow. The reference is the calendar itself: leap years, the lengths of the months, and the
  date of a day found by counting years and months from 1970-01-01, which is also what \<^verbatim>\<open>gmtime_r\<close>
  computes. The lemmas show that the formulas are this calendar.
\<close>


section \<open>The class\<close>

record yearMonthDay =
  ymd_year :: int
  ymd_month :: int
  ymd_day :: int

definition getJulianDayNumber :: "int \<Rightarrow> int \<Rightarrow> int \<Rightarrow> int res" where
  "getJulianDayNumber year month day =
     (let a = c_div (14 - month) 12;
          y = year + 4800 - a;
          m = month + 12 * a - 3;
          d1 = day + c_div (153 * m + 2) 5;
          d2 = d1 + y * 365;
          d3 = d2 + c_div y 4;
          d4 = d3 - c_div y 100;
          d5 = d4 + c_div y 400
      in checked [14 - month, year + 4800, y, 12 * a, month + 12 * a, m, 153 * m, 153 * m + 2, d1, y * 365, d2, d3, d4, d5, d5 - 32045]
           (d5 - 32045))"

definition getYearMonthDay :: "int \<Rightarrow> yearMonthDay res" where
  "getYearMonthDay julianDayNumber =
     (let a = julianDayNumber + 32044;
          b = c_div (4 * a + 3) 146097;
          c = a - c_div (b * 146097) 4;
          d = c_div (4 * c + 3) 1461;
          e = c - c_div (1461 * d) 4;
          m = c_div (5 * e + 2) 153;
          day = e - c_div (153 * m + 2) 5 + 1;
          month = m + 3 - 12 * c_div m 10;
          year = b * 100 + d - 4800 + c_div m 10
      in checked [a, 4 * a, 4 * a + 3, b * 146097, c, 4 * c, 4 * c + 3, 1461 * d, e, 5 * e, 5 * e + 2, 153 * m, 153 * m + 2,
                  day - 1, day, m + 3, 12 * c_div m 10, month, b * 100, b * 100 + d, b * 100 + d - 4800, year]
           \<lparr>ymd_year = year, ymd_month = month, ymd_day = day\<rparr>)"

definition kDaysPerWeek :: int where "kDaysPerWeek = 7"

definition kJulianDayOf1970_01_01 :: "int res" where
  "kJulianDayOf1970_01_01 = getJulianDayNumber 1970 1 1"

definition Date_ctor :: "int \<Rightarrow> int \<Rightarrow> int \<Rightarrow> int res" where
  "Date_ctor y m d = getJulianDayNumber y m d"

definition Date_valid :: "int \<Rightarrow> bool" where
  "Date_valid julianDayNumber \<longleftrightarrow> julianDayNumber > 0"

definition weekDay :: "int \<Rightarrow> int res" where
  "weekDay julianDayNumber = checked [julianDayNumber + 1] (c_mod (julianDayNumber + 1) kDaysPerWeek)"

definition toIsoString :: "int \<Rightarrow> string res" where
  "toIsoString julianDayNumber =
     andThen (getYearMonthDay julianDayNumber) (\<lambda>ymd.
     Inr (snprintf_trunc 32 (printf_d 4 (ymd_year ymd) @ ''-'' @ printf_0d 2 (ymd_month ymd) @ ''-'' @ printf_0d 2 (ymd_day ymd))))"

text \<open>\<^verbatim>\<open>struct tm\<close> as far as the program reads it; years count from 1900 and months from 0.\<close>

record tm =
  tm_year :: int
  tm_mon :: int
  tm_mday :: int
  tm_hour :: int
  tm_min :: int
  tm_sec :: int

definition Date_of_tm :: "tm \<Rightarrow> int res" where
  "Date_of_tm t =
     andThen (checked [tm_year t + 1900, tm_mon t + 1] ()) (\<lambda>_. getJulianDayNumber (tm_year t + 1900) (tm_mon t + 1) (tm_mday t))"


section \<open>The calendar\<close>

definition leap :: "int \<Rightarrow> bool" where
  "leap y \<longleftrightarrow> 4 dvd y \<and> (\<not> 100 dvd y \<or> 400 dvd y)"

definition month_days :: "int \<Rightarrow> int \<Rightarrow> int" where
  "month_days y m = (if m = 2 then if leap y then 29 else 28 else if m \<in> {4, 6, 9, 11} then 30 else 31)"

definition year_days :: "int \<Rightarrow> int" where
  "year_days y = (if leap y then 366 else 365)"

definition date_ok :: "int \<Rightarrow> int \<Rightarrow> int \<Rightarrow> bool" where
  "date_ok y m d \<longleftrightarrow> 1 \<le> m \<and> m \<le> 12 \<and> 1 \<le> d \<and> d \<le> month_days y m"

function year_search :: "int \<Rightarrow> int \<Rightarrow> int \<times> int" where
  "year_search n y = (if n < year_days y then (y, n) else year_search (n - year_days y) (y + 1))"
  by pat_completeness auto

termination
  by (relation "measure (\<lambda>(n, y). nat n)") (auto simp: year_days_def split: if_splits)

function month_search :: "int \<Rightarrow> int \<Rightarrow> int \<Rightarrow> int \<times> int" where
  "month_search n y m = (if n < month_days y m \<or> 12 \<le> m then (m, n) else month_search (n - month_days y m) y (m + 1))"
  by pat_completeness auto

termination
  by (relation "measure (\<lambda>(n, y, m). nat (12 - m))") auto

declare year_search.simps [simp del] month_search.simps [simp del]

text \<open>The date \<open>n\<close> days after 1970-01-01, or before it; 400 years are 146097 days.\<close>

definition civil_of_days :: "int \<Rightarrow> int \<times> int \<times> int" where
  "civil_of_days n =
     (let (y, k) = year_search (n mod 146097) (1970 + 400 * (n div 146097));
          (m, d) = month_search k y 1
      in (y, m, d + 1))"


section \<open>Day numbers without the machine\<close>

text \<open>The days before a year that starts in March, and the day number.\<close>

definition march_year :: "int \<Rightarrow> int" where
  "march_year y = 365 * y + y div 4 - y div 100 + y div 400"

definition jdn :: "int \<Rightarrow> int \<Rightarrow> int \<Rightarrow> int" where
  "jdn y m d =
     (if m \<le> 2 then march_year (y + 4799) + (153 * (m + 9) + 2) div 5 else march_year (y + 4800) + (153 * (m - 3) + 2) div 5) +
     d - 32045"

lemma div_step: "0 < k \<Longrightarrow> (a :: int) div k - (a - 1) div k = (if k dvd a then 1 else 0)"
proof -
  assume k: "0 < k"
  define q r where "q = a div k" and "r = a mod k"
  have a: "a = k * q + r" "0 \<le> r" "r < k"
    using k by (simp_all add: q_def r_def)
  show ?thesis
  proof (cases "r = 0")
    case True
    with a k have "a - 1 = k * (q - 1) + (k - 1)" by (simp add: algebra_simps)
    then have "(a - 1) div k = q - 1"
      by (rule int_div_pos_eq) (use k in auto)
    with True show ?thesis by (simp add: q_def dvd_eq_mod_eq_0 r_def)
  next
    case False
    from a have "a - 1 = k * q + (r - 1)" by simp
    then have "(a - 1) div k = q"
      by (rule int_div_pos_eq) (use a False in auto)
    with False show ?thesis by (simp add: q_def dvd_eq_mod_eq_0 r_def)
  qed
qed

lemma indicator_sum:
  "(c \<Longrightarrow> b) \<Longrightarrow> (b \<Longrightarrow> a) \<Longrightarrow>
   (if a \<and> (\<not> b \<or> c) then 366 else 365 :: int) = 365 + (if a then 1 else 0) - (if b then 1 else 0) + (if c then 1 else 0)"
  by (cases a; cases b; cases c) simp_all

lemma leap_indicator:
  "year_days y = 365 + (if 4 dvd y then 1 else 0) - (if 100 dvd y then 1 else 0) + (if 400 dvd y then 1 else 0)"
  unfolding year_days_def leap_def
proof (rule indicator_sum)
  show "100 dvd y" if "(400 :: int) dvd y"
    using that by (rule dvd_trans [rotated]) simp
  show "4 dvd y" if "(100 :: int) dvd y"
    using that by (rule dvd_trans [rotated]) simp
qed

lemma leap_step: "march_year (y + 4800) = march_year (y + 4799) + year_days y"
proof -
  have step: "(y + 4800) div k = (y + 4799) div k + (if k dvd y then 1 else 0)" if "0 < k" "k dvd 4800" for k
  proof -
    have e: "y + 4800 - 1 = y + 4799" by simp
    from div_step [OF that(1), of "y + 4800", unfolded e dvd_add_left_iff [OF that(2)]] show ?thesis by linarith
  qed
  have sum: "365 * (y + 4800) + p' - q' + r' = 365 * (y + 4799) + p - q + r + (365 + i - j + k)"
    if "p' = p + i" "q' = q + j" "r' = r + k" for p p' q q' r r' i j k :: int
    using that by simp
  show ?thesis
    unfolding march_year_def leap_indicator by (rule sum; rule step; simp)
qed

lemma jdn_year: "jdn (y + 1) 1 1 = jdn y 1 1 + year_days y"
  using leap_step [of y] by (simp add: jdn_def add.commute)

lemma jdn_month:
  assumes "1 \<le> m" and "m < 12"
  shows "jdn y (m + 1) 1 = jdn y m 1 + month_days y m"
proof -
  have "m = 1 \<or> m = 2 \<or> m = 3 \<or> m = 4 \<or> m = 5 \<or> m = 6 \<or> m = 7 \<or> m = 8 \<or> m = 9 \<or> m = 10 \<or> m = 11"
    using assms by presburger
  then show ?thesis
    by (elim disjE) (simp_all add: jdn_def month_days_def leap_step year_days_def)
qed

lemma march_year_cycle: "march_year (y + 400 * q) = march_year y + 146097 * q"
proof -
  have "(y + 4 * (100 * q)) div 4 = y div 4 + 100 * q" "(y + 100 * (4 * q)) div 100 = y div 100 + 4 * q"
    "(y + 400 * q) div 400 = y div 400 + q"
    by (simp_all only: div_mult_self2 numeral_neq_zero not_False_eq_True add.commute)
  then show ?thesis by (simp add: march_year_def)
qed

lemma jdn_cycle: "jdn (y + 400 * q) m d = jdn y m d + 146097 * q"
  using march_year_cycle [of "y + 4799" q] march_year_cycle [of "y + 4800" q] by (simp add: jdn_def ac_simps)

lemma jdn_day: "jdn y m d = jdn y m 1 + d - 1"
  by (simp add: jdn_def)

lemma year_search_jdn:
  "0 \<le> n \<Longrightarrow> year_search n y = (y', n') \<Longrightarrow> 0 \<le> n' \<and> n' < year_days y' \<and> jdn y' 1 1 + n' = jdn y 1 1 + n"
proof (induction n y arbitrary: y' n' rule: year_search.induct)
  case (1 n y)
  show ?case
  proof (cases "n < year_days y")
    case True
    with "1.prems" show ?thesis by (simp add: year_search.simps [of n y])
  next
    case False
    with "1.prems" "1.IH" [OF False, of y' n'] show ?thesis
      by (simp add: year_search.simps [of n y] jdn_year)
  qed
qed

lemma month_search_jdn:
  "0 \<le> n \<Longrightarrow> 1 \<le> m \<Longrightarrow> m \<le> 12 \<Longrightarrow> jdn y m 1 + n < jdn y 1 1 + year_days y \<Longrightarrow> month_search n y m = (m', n') \<Longrightarrow>
   date_ok y m' (n' + 1) \<and> jdn y m' 1 + n' = jdn y m 1 + n"
proof (induction n y m arbitrary: m' n' rule: month_search.induct)
  case (1 n y m)
  show ?case
  proof (cases "n < month_days y m \<or> 12 \<le> m")
    case True
    have "n < 31" if "m = 12"
      using "1.prems"(4) that by (simp add: jdn_def leap_step)
    with True "1.prems" show ?thesis
      by (auto simp: month_search.simps [of n y m] date_ok_def month_days_def split: if_splits)
  next
    case False
    with "1.prems" have "date_ok y m' (n' + 1) \<and> jdn y m' 1 + n' = jdn y (m + 1) 1 + (n - month_days y m)"
      by (intro "1.IH") (simp_all add: month_search.simps [of n y m] jdn_month)
    with False "1.prems" show ?thesis by (simp add: jdn_month)
  qed
qed

lemma civil_of_days_jdn:
  assumes "civil_of_days n = (y, m, d)"
  shows "date_ok y m d" and "jdn y m d = 2440588 + n"
proof -
  obtain y' k where y: "year_search (n mod 146097) (1970 + 400 * (n div 146097)) = (y', k)" by fastforce
  obtain m' d' where m: "month_search k y' 1 = (m', d')" by fastforce
  have eq: "y = y'" "m = m'" "d = d' + 1"
    using assms y m by (simp_all add: civil_of_days_def)
  have k: "0 \<le> k" "k < year_days y'" "jdn y' 1 1 + k = jdn (1970 + 400 * (n div 146097)) 1 1 + n mod 146097"
    using year_search_jdn [OF _ y] by simp_all
  have md: "date_ok y' m' (d' + 1)" "jdn y' m' 1 + d' = jdn y' 1 1 + k"
    using month_search_jdn [OF k(1) _ _ _ m] k(2) by simp_all
  have "jdn (1970 + 400 * (n div 146097)) 1 1 + n mod 146097 = jdn 1970 1 1 + n"
    by (simp add: jdn_cycle)
  moreover have "jdn 1970 1 1 = 2440588"
    by (simp add: jdn_def march_year_def)
  ultimately show "date_ok y m d" "jdn y m d = 2440588 + n"
    using eq md k(3) jdn_day [of y m d] by simp_all
qed


section \<open>The formulas are the calendar\<close>

lemma checkedI: "list_all int_range vs \<Longrightarrow> checked vs x = Inr x"
  by (simp add: checked_def)

text \<open>The first formula, for a year \<open>y\<close> and a month \<open>k\<close> counted from March.\<close>

lemma march_year_bounds:
  fixes y :: int
  assumes "0 \<le> y" and "y \<le> 2000000"
  shows "0 \<le> y div 4 \<and> y div 4 \<le> 500000" and "0 \<le> y div 100 \<and> y div 100 \<le> 20000" and "0 \<le> y div 400 \<and> y div 400 \<le> 5000"
  using assms(1) zdiv_mono1 [OF assms(2), of 4] zdiv_mono1 [OF assms(2), of 100] zdiv_mono1 [OF assms(2), of 400]
  by (simp_all add: pos_imp_zdiv_nonneg_iff)

lemma getJulianDayNumber_jdn:
  assumes "date_ok y m d" and "- 4799 \<le> y" and "y \<le> 1000000"
  shows "getJulianDayNumber y m d = Inr (jdn y m d)"
proof -
  define a where "a = (if m \<le> 2 then 1 else 0 :: int)"
  define yy mm where "yy = y + 4800 - a" and "mm = m + 12 * a - 3"
  define p q r s where "p = yy div 4" and "q = yy div 100" and "r = yy div 400" and "s = (153 * mm + 2) div 5"
  have m: "1 \<le> m" "m \<le> 12" "1 \<le> d" "d \<le> 31"
    using assms(1) by (auto simp: date_ok_def month_days_def split: if_splits)
  have a: "c_div (14 - m) 12 = a"
    using m by (simp add: c_div_nonneg a_def) presburger
  have yy: "0 \<le> yy" "yy \<le> 1004800" and mm: "0 \<le> mm" "mm \<le> 11"
    using assms m by (auto simp: yy_def mm_def a_def)
  have b: "0 \<le> p \<and> p \<le> 500000" "0 \<le> q \<and> q \<le> 20000" "0 \<le> r \<and> r \<le> 5000"
    using march_year_bounds [of yy] yy by (auto simp: p_def q_def r_def)
  have s: "0 \<le> s" "s \<le> 400"
    using mm by (auto simp: s_def)
  have c: "c_div yy 4 = p" "c_div yy 100 = q" "c_div yy 400 = r" "c_div (153 * mm + 2) 5 = s"
    using yy mm by (simp_all add: c_div_nonneg p_def q_def r_def s_def)
  have "getJulianDayNumber y m d = Inr (d + s + yy * 365 + p - q + r - 32045)"
    unfolding getJulianDayNumber_def Let_def a yy_def [symmetric] mm_def [symmetric] c
    by (rule checkedI) (use m a yy mm b s assms in \<open>simp add: int_range_def yy_def mm_def a_def split: if_splits\<close>)
  also have "d + s + yy * 365 + p - q + r - 32045 = jdn y m d"
    by (simp add: jdn_def march_year_def p_def q_def r_def s_def yy_def mm_def a_def add.commute)
  finally show ?thesis .
qed

text \<open>The second formula: century, year of the century and day of the year.\<close>

lemma century_of_day:
  fixes B C e :: int
  assumes "0 \<le> C" and "C < 100" and "0 \<le> e" and "e \<le> 365" and "e = 365 \<Longrightarrow> C = 99 \<Longrightarrow> B mod 4 = 3"
  shows "(4 * (36524 * B + B div 4 + (365 * C + C div 4 + e)) + 3) div 146097 = B"
proof -
  define u where "u = B div 4"
  define v where "v = B mod 4"
  have B: "B = 4 * u + v" "0 \<le> v" "v < 4"
    by (simp_all add: u_def v_def)
  define w where "w = C div 4"
  have w: "4 * w \<le> C" "C < 4 * w + 4" "0 \<le> w"
    using assms(1) by (simp_all add: w_def pos_imp_zdiv_nonneg_iff)
  have "4 * (365 * C + w + e) + 3 - v < 146097"
  proof (cases "e = 365 \<and> C = 99")
    case True
    then have "v = 3" using assms(5) by (simp add: v_def)
    moreover from w True have "w \<le> 24" by linarith
    ultimately show ?thesis using True by simp
  next
    case False
    have "w \<le> 24" using w assms(2) by linarith
    moreover from False assms(2,4) have "e \<le> 364 \<or> C \<le> 98" by linarith
    ultimately show ?thesis using assms(2,4) B(2) by (elim disjE) simp_all
  qed
  moreover have "0 \<le> 4 * (365 * C + w + e) + 3 - v"
    using assms B w by simp
  moreover have "4 * (36524 * B + u + (365 * C + w + e)) + 3 = 146097 * B + (4 * (365 * C + w + e) + 3 - v)"
    using B by simp
  ultimately show ?thesis
    unfolding u_def [symmetric] w_def [symmetric] by (intro int_div_pos_eq)
qed

lemma year_of_day:
  fixes C e :: int
  assumes "0 \<le> C" and "0 \<le> e" and "e \<le> 365" and "e = 365 \<Longrightarrow> C mod 4 = 3"
  shows "(4 * (365 * C + C div 4 + e) + 3) div 1461 = C"
proof -
  define w v where "w = C div 4" and "v = C mod 4"
  have C: "C = 4 * w + v" "0 \<le> v" "v < 4"
    by (simp_all add: w_def v_def)
  have "4 * e + 3 - v < 1461" "0 \<le> 4 * e + 3 - v"
    using assms(2-4) C(2,3) unfolding v_def [symmetric] by linarith+
  moreover have "4 * (365 * C + w + e) + 3 = 1461 * C + (4 * e + 3 - v)"
    using C by simp
  ultimately show ?thesis
    unfolding w_def [symmetric] by (intro int_div_pos_eq)
qed

lemma quarter: "(146097 * B) div 4 = 36524 * B + B div (4 :: int)" "(1461 * C) div 4 = 365 * C + C div (4 :: int)"
proof -
  have "146097 * B = B + 4 * (36524 * B)" "1461 * C = C + 4 * (365 * C)" by simp_all
  then show "(146097 * B) div 4 = 36524 * B + B div 4" "(1461 * C) div 4 = 365 * C + C div 4"
    by (simp_all only: div_mult_self2 numeral_neq_zero not_False_eq_True)
qed

text \<open>The day \<open>e\<close> of a year from March, for the month \<open>k\<close> and the day \<open>d\<close> of it.\<close>

lemma month_div:
  fixes k d :: int
  assumes "1 \<le> d" and "d \<le> l" and "153 * k \<le> 5 * s + 2" and "5 * (s + l - 1) + 2 < 153 * (k + 1)"
  shows "(5 * (s + d - 1) + 2) div 153 = k"
proof (rule int_div_pos_eq [of _ _ _ "5 * (s + d - 1) + 2 - 153 * k"])
  show "0 \<le> 5 * (s + d - 1) + 2 - 153 * k" "5 * (s + d - 1) + 2 - 153 * k < 153"
    using assms by simp_all
qed simp

lemma month_of_day:
  fixes k d :: int
  assumes "0 \<le> k" and "k \<le> 11" and "1 \<le> d" and "d \<le> (if k = 11 then 29 else if k \<in> {1, 3, 6, 8} then 30 else 31)"
  shows "(5 * ((153 * k + 2) div 5 + d - 1) + 2) div 153 = k \<and> (153 * k + 2) div 5 + d - 1 \<le> 365 \<and>
    0 \<le> (153 * k + 2) div 5 + d - 1 \<and> ((153 * k + 2) div 5 + d - 1 = 365 \<longrightarrow> k = 11 \<and> d = 29)"
proof -
  define s l where "s = (153 * k + 2) div 5" and "l = (if k = 11 then 29 else if k \<in> {1, 3, 6, 8} then 30 else 31 :: int)"
  have "k = 0 \<or> k = 1 \<or> k = 2 \<or> k = 3 \<or> k = 4 \<or> k = 5 \<or> k = 6 \<or> k = 7 \<or> k = 8 \<or> k = 9 \<or> k = 10 \<or> k = 11"
    using assms(1,2) by presburger
  then have "153 * k \<le> 5 * s + 2 \<and> 5 * (s + l - 1) + 2 < 153 * (k + 1) \<and> 0 \<le> s \<and> (if k = 11 then s = 337 else s + l \<le> 365)"
    by (elim disjE) (simp_all add: s_def l_def)
  moreover have "d \<le> l" using assms(4) by (simp add: l_def)
  moreover have "l = 29" if "k = 11" using that by (simp add: l_def)
  ultimately show ?thesis
    unfolding s_def [symmetric] using assms(3) month_div [of d l k s] by (auto split: if_splits)
qed

text \<open>The whole second formula undoes the first.\<close>

lemma jdn_march:
  assumes "date_ok y m d"
  obtains Y k where "jdn y m d + 32044 = march_year Y + ((153 * k + 2) div 5 + d - 1)" "0 \<le> k" "k \<le> 11"
    "1 \<le> d" "d \<le> (if k = 11 then 29 else if k \<in> {1, 3, 6, 8} then 30 else 31)" "k = 11 \<and> d = 29 \<longrightarrow> leap (Y + 1)"
    "y = Y - 4800 + k div 10" "m = k + 3 - 12 * (k div 10)"
proof (cases "m \<le> 2")
  case True
  have d: "1 \<le> m" "1 \<le> d" "d \<le> month_days y m" using assms by (simp_all add: date_ok_def)
  have "leap (y + 4799 + 1) = leap y"
    by (simp add: leap_def dvd_add_right_iff)
  moreover from True d(1) have "m = 1 \<or> m = 2" by linarith
  ultimately show ?thesis
    using d(2,3) by (intro that [of "y + 4799" "m + 9"]) (auto simp: jdn_def month_days_def split: if_splits)
next
  case False
  have d: "m \<le> 12" "1 \<le> d" "d \<le> month_days y m" using assms by (simp_all add: date_ok_def)
  from False d(1) have "m = 3 \<or> m = 4 \<or> m = 5 \<or> m = 6 \<or> m = 7 \<or> m = 8 \<or> m = 9 \<or> m = 10 \<or> m = 11 \<or> m = 12" by presburger
  then show ?thesis
    using d(2,3) by (intro that [of "y + 4800" "m - 3"]) (elim disjE, simp_all add: jdn_def month_days_def)+
qed

lemma march_year_century:
  assumes "0 \<le> C" and "C < 100"
  shows "march_year (100 * B + C) = 36524 * B + B div 4 + (365 * C + C div 4)"
proof -
  have "100 * B + C = C + 4 * (25 * B)" by simp
  then have "(100 * B + C) div 4 = 25 * B + C div 4"
    by (simp only: div_mult_self2 numeral_neq_zero not_False_eq_True)
  moreover have c: "(100 * B + C) div 100 = B"
    by (rule int_div_pos_eq [OF refl assms])
  moreover have "(100 * B + C) div 400 = B div 4"
    using zdiv_zmult2_eq [of 4 "100 * B + C" 100] c by simp
  ultimately show ?thesis by (simp add: march_year_def)
qed

lemma leap_century:
  assumes "leap (100 * B + C + 1)"
  shows "C mod 4 = 3" and "C = 99 \<Longrightarrow> B mod 4 = 3"
proof -
  have "(4 :: int) dvd 100 * B + C + 1" using assms by (simp add: leap_def)
  then have "4 dvd (C + 1) + 4 * (25 * B)" by (simp add: ac_simps)
  then have "4 dvd C + 1" by (simp only: dvd_add_left_iff [OF dvd_triv_left])
  then show "C mod 4 = 3" by presburger
  assume "C = 99"
  then have "100 * B + C + 1 = 100 * (B + 1)" by simp
  with assms have "(400 :: int) dvd 100 * (B + 1)" by (simp add: leap_def)
  then have "(100 :: int) * 4 dvd 100 * (B + 1)" by simp
  then have "4 dvd B + 1" by (simp only: dvd_mult_cancel_left) simp
  then show "B mod 4 = 3" by presburger
qed

lemma getYearMonthDay_march:
  assumes "0 \<le> k" and "k \<le> 11" and "0 \<le> B" and "B \<le> 10048" and "0 \<le> C" and "C < 100" and "0 \<le> e" and "e \<le> 365"
    and "(5 * e + 2) div 153 = k" and "e = 365 \<Longrightarrow> leap (100 * B + C + 1)"
    and "e = (153 * k + 2) div 5 + d - 1" and "1 \<le> d" and "d \<le> 31"
  shows "getYearMonthDay (march_year (100 * B + C) + e - 32044) =
    Inr \<lparr>ymd_year = 100 * B + C - 4800 + k div 10, ymd_month = k + 3 - 12 * (k div 10), ymd_day = d\<rparr>"
proof -
  define u w s h where "u = B div 4" and "w = C div 4" and "s = (153 * k + 2) div 5" and "h = k div 10"
  define a where "a = 36524 * B + u + (365 * C + w + e)"
  have bounds: "0 \<le> u" "u \<le> 2512" "0 \<le> w" "w \<le> 24" "0 \<le> s" "s \<le> 337" "0 \<le> h" "h \<le> 1"
  proof -
    have "C \<le> 99" "153 * k + 2 \<le> 1685" using assms(2,6) by simp_all
    then show "0 \<le> u" "u \<le> 2512" "0 \<le> w" "w \<le> 24" "0 \<le> s" "s \<le> 337" "0 \<le> h" "h \<le> 1"
      using assms(1,3,5) zdiv_mono1 [OF assms(4), of 4] zdiv_mono1 [OF \<open>C \<le> 99\<close>, of 4]
        zdiv_mono1 [OF \<open>153 * k + 2 \<le> 1685\<close>, of 5] zdiv_mono1 [OF assms(2), of 10]
      by (simp_all add: u_def w_def s_def h_def pos_imp_zdiv_nonneg_iff)
  qed
  have j: "march_year (100 * B + C) + e - 32044 + 32044 = a"
    using march_year_century [OF assms(5,6), of B] by (simp add: a_def u_def w_def)
  have b: "(4 * a + 3) div 146097 = B"
    unfolding a_def u_def w_def by (rule century_of_day [OF assms(5-8)]) (use leap_century(2) assms(10) in blast)
  have c: "a - (36524 * B + u) = 365 * C + w + e" by (simp add: a_def)
  have dd: "(4 * (365 * C + w + e) + 3) div 1461 = C"
    unfolding w_def by (rule year_of_day [OF assms(5,7,8)]) (use leap_century(1) assms(10) in blast)
  have ee: "365 * C + w + e - (365 * C + w) = e" by simp
  have a0: "0 \<le> a" using assms(3,5,7) bounds(1,3) by (simp add: a_def)
  then have cb: "c_div (4 * a + 3) 146097 = B" using b by (simp add: c_div_nonneg)
  have cc: "c_div (B * 146097) 4 = 36524 * B + u"
    using assms(3) quarter(1) [of B] by (simp add: c_div_nonneg u_def mult.commute)
  have "0 \<le> 365 * C + w + e" using assms(5,7) bounds(3) by simp
  then have cd: "c_div (4 * (365 * C + w + e) + 3) 1461 = C"
    using dd by (subst c_div_nonneg) simp_all
  have ce: "c_div (1461 * C) 4 = 365 * C + w"
    using assms(5) quarter(2) [of C] by (simp add: c_div_nonneg w_def)
  have cm: "c_div (5 * e + 2) 153 = k" "c_div (153 * k + 2) 5 = s" "c_div k 10 = h"
    using assms(1,7,9) by (simp_all add: c_div_nonneg s_def h_def)
  have day: "e - s + 1 = d" using assms(11) by (simp add: s_def)
  have ab: "a \<le> 367000000 + 40000" using assms(4,6,8) bounds(2,4) by (simp add: a_def)
  have "list_all int_range [a, 4 * a, 4 * a + 3, B * 146097, 365 * C + w + e, 4 * (365 * C + w + e), 4 * (365 * C + w + e) + 3,
      1461 * C, e, 5 * e, 5 * e + 2, 153 * k, 153 * k + 2, d - 1, d, k + 3, 12 * h, k + 3 - 12 * h, B * 100, B * 100 + C,
      B * 100 + C - 4800, B * 100 + C - 4800 + h]"
    using assms(1-8,12,13) bounds ab a0 by (simp add: int_range_def)
  then show ?thesis
    unfolding getYearMonthDay_def Let_def j cb cc c cd ce ee cm day h_def [symmetric]
    by (subst checkedI) (simp_all add: mult.commute)
qed

lemma getYearMonthDay_jdn:
  assumes "date_ok y m d" and "- 4799 \<le> y" and "y \<le> 1000000"
  shows "getYearMonthDay (jdn y m d) = Inr \<lparr>ymd_year = y, ymd_month = m, ymd_day = d\<rparr>"
proof -
  from jdn_march [OF assms(1)] obtain Y k where
    j: "jdn y m d + 32044 = march_year Y + ((153 * k + 2) div 5 + d - 1)" and k: "0 \<le> k" "k \<le> 11" and d: "1 \<le> d"
    "d \<le> (if k = 11 then 29 else if k \<in> {1, 3, 6, 8} then 30 else 31)" and leap: "k = 11 \<and> d = 29 \<longrightarrow> leap (Y + 1)"
    and ym: "y = Y - 4800 + k div 10" "m = k + 3 - 12 * (k div 10)" .
  define h where "h = k div 10"
  have h: "0 \<le> h" "h \<le> 1"
    using k(1) zdiv_mono1 [OF k(2), of 10] by (simp_all add: h_def pos_imp_zdiv_nonneg_iff)
  define B C where "B = Y div 100" and "C = Y mod 100"
  have Y: "Y = 100 * B + C" "0 \<le> C" "C < 100" by (simp_all add: B_def C_def)
  have "0 \<le> Y" "Y \<le> 1004800" using assms(2,3) ym(1) h unfolding h_def [symmetric] by simp_all
  then have B: "0 \<le> B" "B \<le> 10048"
    using zdiv_mono1 [of Y 1004800 100] by (simp_all add: B_def pos_imp_zdiv_nonneg_iff)
  note m = month_of_day [OF k d]
  have "getYearMonthDay (march_year (100 * B + C) + ((153 * k + 2) div 5 + d - 1) - 32044) =
      Inr \<lparr>ymd_year = 100 * B + C - 4800 + k div 10, ymd_month = k + 3 - 12 * (k div 10), ymd_day = d\<rparr>"
  proof (rule getYearMonthDay_march [OF k B Y(2,3)])
    show "d \<le> 31" using d(2) by (simp split: if_splits)
    show "leap (100 * B + C + 1)" if "(153 * k + 2) div 5 + d - 1 = 365"
      using m that leap Y(1) by simp
  qed (use m d(1) in simp_all)
  moreover have "jdn y m d = march_year Y + ((153 * k + 2) div 5 + d - 1) - 32044" using j by simp
  ultimately show ?thesis using ym Y(1) by simp
qed

lemma year_search_bounds: "0 \<le> n \<Longrightarrow> year_search n y = (y', n') \<Longrightarrow> y \<le> y' \<and> y' \<le> y + n"
proof (induction n y arbitrary: y' n' rule: year_search.induct)
  case (1 n y)
  show ?case
  proof (cases "n < year_days y")
    case True
    with "1.prems" show ?thesis by (simp add: year_search.simps [of n y])
  next
    case False
    moreover have "1 \<le> year_days y" by (simp add: year_days_def)
    ultimately show ?thesis
      using "1.prems" "1.IH" [OF False, of y' n'] by (simp add: year_search.simps [of n y])
  qed
qed

lemma civil_of_days_year:
  assumes "civil_of_days n = (y, m, d)"
  shows "1970 + 400 * (n div 146097) \<le> y" and "y \<le> 1970 + 400 * (n div 146097) + 146096"
proof -
  obtain y' k where y: "year_search (n mod 146097) (1970 + 400 * (n div 146097)) = (y', k)" by fastforce
  have "y = y'" using assms y by (simp add: civil_of_days_def split: prod.splits)
  moreover have "0 \<le> n mod 146097" "n mod 146097 \<le> 146096" by simp_all
  ultimately show "1970 + 400 * (n div 146097) \<le> y" "y \<le> 1970 + 400 * (n div 146097) + 146096"
    using year_search_bounds [OF _ y] by simp_all
qed

lemma civil_of_days_range:
  assumes "civil_of_days n = (y, m, d)" and "- 2300000 \<le> n" and "n \<le> 300000000"
  shows "- 4799 \<le> y" and "y \<le> 1000000"
proof -
  have "- 16 \<le> n div 146097" "n div 146097 \<le> 2053"
    using zdiv_mono1 [OF assms(2), of 146097] zdiv_mono1 [OF assms(3), of 146097] by simp_all
  then show "- 4799 \<le> y" "y \<le> 1000000"
    using civil_of_days_year [OF assms(1)] by simp_all
qed

lemma kJulianDayOf1970_01_01_value: "kJulianDayOf1970_01_01 = Inr 2440588"
  by code_simp


section \<open>Properties\<close>

text \<open>
  C29. The two conversions of a date are inverse: for every date of the calendar, from the year -4799 to
  the year 1000000, the constructor finds a day number without overflow, and the year, month and day
  computed from this number are those of the date.
\<close>

theorem date_roundtrip:
  assumes "date_ok y m d" and "- 4799 \<le> y" and "y \<le> 1000000"
  shows "andThen (Date_ctor y m d) getYearMonthDay = Inr \<lparr>ymd_year = y, ymd_month = m, ymd_day = d\<rparr>"
  using getYearMonthDay_jdn [OF assms] by (simp add: Date_ctor_def getJulianDayNumber_jdn [OF assms])

theorem date_roundtrip_witness:
  "date_ok 2020 2 29 \<and> andThen (Date_ctor 2020 2 29) getYearMonthDay = Inr \<lparr>ymd_year = 2020, ymd_month = 2, ymd_day = 29\<rparr>"
proof -
  have "date_ok 2020 2 29" by code_simp
  with date_roundtrip [of 2020 2 29] show ?thesis by simp
qed

text \<open>
  C30. Day numbers count the days of the calendar: the date that is \<open>n\<close> days after 1970-01-01, found by
  counting the days of years and months, has the day number of 1970-01-01 plus \<open>n\<close>; this number gives
  back the date, and its weekday is \<open>n\<close> days after a Thursday.
\<close>

theorem date_counts_days:
  assumes "civil_of_days n = (y, m, d)" and "- 2300000 \<le> n" and "n \<le> 300000000"
  shows "\<exists>k. kJulianDayOf1970_01_01 = Inr k \<and> Date_ctor y m d = Inr (k + n) \<and>
    getYearMonthDay (k + n) = Inr \<lparr>ymd_year = y, ymd_month = m, ymd_day = d\<rparr> \<and> weekDay (k + n) = Inr ((4 + n) mod 7)"
proof -
  note ok = civil_of_days_jdn [OF assms(1)]
  note r = civil_of_days_range [OF assms]
  have "(2440589 + n) mod 7 = (4 + n) mod 7"
    using mod_mult_self1 [of "4 + n" 348655 7] by (simp add: add.commute)
  then have "weekDay (2440588 + n) = Inr ((4 + n) mod 7)"
    using assms(2,3) by (simp add: weekDay_def checked_def int_range_def kDaysPerWeek_def c_mod_nonneg)
  then show ?thesis
    using getJulianDayNumber_jdn [OF ok(1) r] getYearMonthDay_jdn [OF ok(1) r] ok(2)
    by (simp add: kJulianDayOf1970_01_01_value Date_ctor_def)
qed

theorem date_counts_days_witness:
  "civil_of_days 18321 = (2020, 2, 29) \<and> (\<exists>k. kJulianDayOf1970_01_01 = Inr k \<and> Date_ctor 2020 2 29 = Inr (k + 18321) \<and>
    getYearMonthDay (k + 18321) = Inr \<lparr>ymd_year = 2020, ymd_month = 2, ymd_day = 29\<rparr> \<and> weekDay (k + 18321) = Inr ((4 + 18321) mod 7))"
proof -
  have "civil_of_days 18321 = (2020, 2, 29)" by code_simp
  with date_counts_days [of 18321 2020 2 29] show ?thesis by simp
qed

end
