(* ===== verification/Timestamp.thy ===== *)
theory Timestamp
  imports Date Double
begin

text \<open>
  \<^verbatim>\<open>Timestamp.h\<close> and \<^verbatim>\<open>Timestamp.cc\<close>: a time is its microseconds since 1970-01-01, an \<^verbatim>\<open>int64_t\<close>. \<^verbatim>\<open>gmtime_r\<close>
  is the calendar of theory Date. The lemmas give the shape of the formatted time.
\<close>


section \<open>The class\<close>

definition kMicroSecondsPerSecond :: int where "kMicroSecondsPerSecond = 1000 * 1000"

definition Timestamp_invalid :: int where "Timestamp_invalid = 0"

definition Timestamp_valid :: "int \<Rightarrow> bool" where
  "Timestamp_valid t \<longleftrightarrow> t > 0"

definition secondsSinceEpoch :: "int \<Rightarrow> int" where
  "secondsSinceEpoch t = c_div t kMicroSecondsPerSecond"

definition fromUnixTime :: "int \<Rightarrow> int \<Rightarrow> int res" where
  "fromUnixTime t microseconds =
     andThen (check_int64 (t * kMicroSecondsPerSecond)) (\<lambda>us. check_int64 (us + microseconds))"

text \<open>The arguments are what \<^verbatim>\<open>gettimeofday\<close> stores; the code adds the eight hours of Beijing.\<close>

definition Timestamp_now :: "int \<Rightarrow> int \<Rightarrow> int res" where
  "Timestamp_now tv_sec tv_usec =
     andThen (check_int64 (tv_sec + 8 * 3600)) (\<lambda>seconds.
     andThen (check_int64 (seconds * kMicroSecondsPerSecond)) (\<lambda>us. check_int64 (us + tv_usec)))"

definition Timestamp_toString :: "int \<Rightarrow> string" where
  "Timestamp_toString t =
     snprintf_trunc 31 (to_string (c_div t kMicroSecondsPerSecond) @ ''.'' @ printf_0d 6 (c_mod t kMicroSecondsPerSecond))"

text \<open>A year that is no \<^verbatim>\<open>int\<close> makes \<^verbatim>\<open>gmtime_r\<close> fail, and the code reads the structure it did not fill.\<close>

definition gmtime_r :: "int \<Rightarrow> tm res" where
  "gmtime_r seconds =
     (let (y, m, d) = civil_of_days (seconds div 86400); s = seconds mod 86400
      in if int_range (y - 1900)
         then Inr \<lparr>tm_year = y - 1900, tm_mon = m - 1, tm_mday = d, tm_hour = s div 3600, tm_min = s div 60 mod 60, tm_sec = s mod 60\<rparr>
         else Inl (UndefinedBehaviour ''uninitialised tm''))"

definition toFormattedString :: "bool \<Rightarrow> int \<Rightarrow> string res" where
  "toFormattedString showMicroseconds t =
     andThen (gmtime_r (c_div t kMicroSecondsPerSecond)) (\<lambda>tm_time.
     andThen (checked [tm_year tm_time + 1900, tm_mon tm_time + 1] ()) (\<lambda>_.
     let date = printf_d 4 (tm_year tm_time + 1900) @ printf_0d 2 (tm_mon tm_time + 1) @ printf_0d 2 (tm_mday tm_time);
         time = printf_0d 2 (tm_hour tm_time) @ '':'' @ printf_0d 2 (tm_min tm_time) @ '':'' @ printf_0d 2 (tm_sec tm_time)
     in if showMicroseconds
        then Inr (snprintf_trunc 64 (date @ '' '' @ time @ ''.'' @ printf_0d 6 (c_mod t kMicroSecondsPerSecond)))
        else Inr (snprintf_trunc 64 (date @ '' '' @ time))))"

definition timeDifference :: "int \<Rightarrow> int \<Rightarrow> double res" where
  "timeDifference high low =
     andThen (check_int64 (high - low)) (\<lambda>diff. Inr (d_scale (d_of_int diff) (1 / of_int kMicroSecondsPerSecond)))"

text \<open>\<^verbatim>\<open>static_cast<int64_t>\<close> of a \<^verbatim>\<open>double\<close>.\<close>

fun d_to_int64 :: "double \<Rightarrow> int res" where
  "d_to_int64 (Fin q) =
     (let t = (if 0 \<le> q then \<lfloor>q\<rfloor> else \<lceil>q\<rceil>)
      in if - (2 ^ 63) \<le> t \<and> t < 2 ^ 63 then Inr t else Inl (UndefinedBehaviour ''static_cast<int64_t>''))"
| "d_to_int64 _ = Inl (UndefinedBehaviour ''static_cast<int64_t>'')"

definition addTime :: "int \<Rightarrow> double \<Rightarrow> int res" where
  "addTime timestamp seconds =
     andThen (d_to_int64 (d_scale seconds (of_int kMicroSecondsPerSecond))) (\<lambda>delta. check_int64 (timestamp + delta))"


section \<open>The shape of a formatted time\<close>

lemma div_less_int: "a < k * c \<Longrightarrow> 0 < c \<Longrightarrow> a div c < (k :: int)"
proof (rule ccontr)
  assume a: "a < k * c" "0 < c" "\<not> a div c < k"
  then have "k * c \<le> a div c * c" by (intro mult_right_mono) simp_all
  moreover have "a div c * c + a mod c = a" "0 \<le> a mod c" using a(2) by simp_all
  ultimately show False using a(1) by simp
qed

lemma length_printf_0d: "0 \<le> i \<Longrightarrow> i < 10 ^ w \<Longrightarrow> 0 < w \<Longrightarrow> length (printf_0d w i) = w"
proof -
  assume i: "0 \<le> i" "i < 10 ^ w" "0 < w"
  then have "nat i < 10 ^ w" by (simp add: nat_less_iff)
  then have "length (show_nat (nat i)) \<le> w" using i(3) by (rule length_show_nat)
  with i(1) show ?thesis by (simp add: printf_0d_def Let_def)
qed

lemma length_printf_d: "0 \<le> i \<Longrightarrow> i < 10 ^ w \<Longrightarrow> 0 < w \<Longrightarrow> length (printf_d w i) = w"
proof -
  assume i: "0 \<le> i" "i < 10 ^ w" "0 < w"
  then have "nat i < 10 ^ w" by (simp add: nat_less_iff)
  then have "length (show_nat (nat i)) \<le> w" using i(3) by (rule length_show_nat)
  with i(1) show ?thesis by (simp add: printf_d_def to_string_def Let_def)
qed

lemma show_nat_nul_free: "NUL \<notin> set (show_nat n)"
  using show_nat_digits digit_not_special by blast

lemma printf_nul_free: "NUL \<notin> set (printf_0d w i)" "NUL \<notin> set (printf_d w i)"
  using show_nat_nul_free to_string_nul_free by (auto simp: printf_0d_def printf_d_def Let_def)

lemma jdn_from_new_year: "date_ok y m d \<Longrightarrow> jdn y 1 1 \<le> jdn y m d"
proof -
  assume ok: "date_ok y m d"
  then have m: "1 \<le> m" "1 \<le> d" by (simp_all add: date_ok_def)
  show ?thesis
  proof (cases "m \<le> 2")
    case True
    with m have "m = 1 \<or> m = 2" by auto
    with m show ?thesis by (auto simp: jdn_def)
  next
    case False
    then have "0 \<le> (153 * (m - 3) + 2) div 5" by (simp add: pos_imp_zdiv_nonneg_iff)
    with False m show ?thesis by (simp add: jdn_def leap_step year_days_def)
  qed
qed

lemma jdn_year_mono: "y \<le> y' \<Longrightarrow> jdn y 1 1 \<le> jdn y' 1 1"
proof (induction y' rule: int_ge_induct)
  case (step i)
  have "0 \<le> year_days i" by (simp add: year_days_def)
  with step show ?case by (simp add: jdn_year)
qed simp

text \<open>253402300800 is the first second of the year 10000.\<close>

lemma gmtime_r_fields:
  assumes "0 \<le> s" and "s < 253402300800"
  shows "\<exists>t. gmtime_r s = Inr t \<and> 70 \<le> tm_year t \<and> tm_year t \<le> 8099 \<and> 0 \<le> tm_mon t \<and> tm_mon t \<le> 11 \<and>
    1 \<le> tm_mday t \<and> tm_mday t \<le> 31 \<and> 0 \<le> tm_hour t \<and> tm_hour t \<le> 23 \<and> 0 \<le> tm_min t \<and> tm_min t \<le> 59 \<and>
    0 \<le> tm_sec t \<and> tm_sec t \<le> 59"
proof -
  obtain y m d where c: "civil_of_days (s div 86400) = (y, m, d)" by (cases "civil_of_days (s div 86400)") auto
  note ok = civil_of_days_jdn [OF c]
  have n: "0 \<le> s div 86400" using assms(1) by (simp add: pos_imp_zdiv_nonneg_iff)
  have n': "s div 86400 < 2932897" using assms(2) by (simp add: div_less_int)
  have "0 \<le> s div 86400 div 146097" using n by (simp add: pos_imp_zdiv_nonneg_iff)
  then have y: "1970 \<le> y" using civil_of_days_year(1) [OF c] by simp
  have "y \<le> 9999"
  proof (rule ccontr)
    assume "\<not> y \<le> 9999"
    then have "jdn 10000 1 1 \<le> jdn y m d"
      using jdn_year_mono [of 10000 y] jdn_from_new_year [OF ok(1)] by simp
    moreover have "jdn 10000 1 1 = 5373485" by (simp add: jdn_def march_year_def)
    ultimately show False using ok(2) n' by simp
  qed
  moreover define r where "r = s mod 86400"
  have r: "0 \<le> r" "r < 86400" by (simp_all add: r_def)
  have "r div 3600 < 24" "0 \<le> r div 3600" using r by (simp_all add: div_less_int pos_imp_zdiv_nonneg_iff)
  moreover have "1 \<le> m" "m \<le> 12" "1 \<le> d" "d \<le> 31"
    using ok(1) by (auto simp: date_ok_def month_days_def split: if_splits)
  moreover have "x mod 60 \<le> 59" for x :: int using pos_mod_bound [of 60 x] by linarith
  ultimately show ?thesis
    using y by (simp add: gmtime_r_def c int_range_def Let_def flip: r_def)
qed

lemma toFormattedString_shape:
  assumes "0 \<le> t" and "t < 253402300800000000"
  shows "\<exists>s. toFormattedString True t = Inr s \<and> length s = 24 \<and> NUL \<notin> set s"
proof -
  have s: "0 \<le> t div 1000000" "t div 1000000 < 253402300800"
    using assms by (simp_all add: div_less_int pos_imp_zdiv_nonneg_iff)
  from gmtime_r_fields [OF s] obtain f where f: "gmtime_r (t div 1000000) = Inr f" and
    b: "70 \<le> tm_year f" "tm_year f \<le> 8099" "0 \<le> tm_mon f" "tm_mon f \<le> 11"
    "1 \<le> tm_mday f" "tm_mday f \<le> 31" "0 \<le> tm_hour f" "tm_hour f \<le> 23" "0 \<le> tm_min f" "tm_min f \<le> 59"
    "0 \<le> tm_sec f" "tm_sec f \<le> 59" by blast
  have c: "c_div t kMicroSecondsPerSecond = t div 1000000" "c_mod t kMicroSecondsPerSecond = t mod 1000000"
    using assms(1) by (simp_all add: kMicroSecondsPerSecond_def c_div_nonneg c_mod_nonneg)
  have r: "checked [tm_year f + 1900, tm_mon f + 1] () = Inr ()"
    using b by (simp add: checked_def int_range_def)
  have l: "length (printf_d 4 (tm_year f + 1900)) = 4" using b by (intro length_printf_d) simp_all
  have l2: "0 \<le> i \<and> i \<le> 59 \<Longrightarrow> length (printf_0d 2 i) = 2" for i by (intro length_printf_0d) simp_all
  have l6: "length (printf_0d 6 (t mod 1000000)) = 6" by (intro length_printf_0d) simp_all
  show ?thesis
    using b by (simp add: toFormattedString_def c f r l l2 l6 Let_def snprintf_trunc_id printf_nul_free)
qed

end
