(* ===== verification/Logging.thy ===== *)
theory Logging
  imports LogStream Timestamp
begin

text \<open>
  \<^verbatim>\<open>Logging.h\<close>, \<^verbatim>\<open>Logging.cc\<close> and the cached thread id of \<^verbatim>\<open>CurrentThread.h\<close>: a statement \<^verbatim>\<open>LOG_X << a << b;\<close>
  constructs a \<^verbatim>\<open>Logger\<close>, puts the items into its stream and destroys it, which hands the line to the
  output function. What the operating system answers during the statement is a record; the output and
  flush functions are arguments. The main lemma is the exact text of the line.
\<close>


section \<open>The thread id\<close>

record threadLocals =
  t_cachedTid :: int
  t_tidString :: string
  t_tidStringLength :: nat

definition cacheTid :: "int \<Rightarrow> threadLocals \<Rightarrow> threadLocals" where
  "cacheTid gettid th =
     (if t_cachedTid th = 0
      then let s = printf_d 5 gettid @ '' ''
           in \<lparr>t_cachedTid = gettid, t_tidString = snprintf_trunc 32 s, t_tidStringLength = length s\<rparr>
      else th)"

definition tid :: "int \<Rightarrow> threadLocals \<Rightarrow> threadLocals" where
  "tid gettid th = (if t_cachedTid th = 0 then cacheTid gettid th else th)"


section \<open>Levels and source files\<close>

datatype LogLevel = TRACE | DEBUG | INFO | WARN | ERROR | FATAL | NUM_LOG_LEVELS

fun level_number :: "LogLevel \<Rightarrow> nat" where
  "level_number TRACE = 0"
| "level_number DEBUG = 1"
| "level_number INFO = 2"
| "level_number WARN = 3"
| "level_number ERROR = 4"
| "level_number FATAL = 5"
| "level_number NUM_LOG_LEVELS = 6"

lemma level_number_inject: "level_number a = level_number b \<longleftrightarrow> a = b"
  by (cases a; cases b) simp_all

instantiation LogLevel :: linorder
begin

definition less_eq_LogLevel :: "LogLevel \<Rightarrow> LogLevel \<Rightarrow> bool" where
  "less_eq_LogLevel a b \<longleftrightarrow> level_number a \<le> level_number b"

definition less_LogLevel :: "LogLevel \<Rightarrow> LogLevel \<Rightarrow> bool" where
  "less_LogLevel a b \<longleftrightarrow> level_number a < level_number b"

instance
  by standard (auto simp: less_eq_LogLevel_def less_LogLevel_def level_number_inject)

end

fun LogLevelName :: "LogLevel \<Rightarrow> string res" where
  "LogLevelName TRACE = Inr ''TRACE ''"
| "LogLevelName DEBUG = Inr ''DEBUG ''"
| "LogLevelName INFO = Inr ''INFO  ''"
| "LogLevelName WARN = Inr ''WARN  ''"
| "LogLevelName ERROR = Inr ''ERROR ''"
| "LogLevelName FATAL = Inr ''FATAL ''"
| "LogLevelName NUM_LOG_LEVELS = Inl (UndefinedBehaviour ''read outside the array'')"

definition initLogLevel :: "(string \<Rightarrow> bool) \<Rightarrow> LogLevel" where
  "initLogLevel getenv = (if getenv ''LOG_TRACE'' then TRACE else if getenv ''LOG_DEBUG'' then DEBUG else INFO)"

text \<open>The index of the last occurrence of a character.\<close>

primrec strrchr :: "char \<Rightarrow> string \<Rightarrow> nat option" where
  "strrchr c [] = None"
| "strrchr c (x # xs) =
     (case strrchr c xs of Some i \<Rightarrow> Some (Suc i) | None \<Rightarrow> if x = c then Some 0 else None)"

record sourceFile =
  sf_data :: string
  sf_size :: nat

text \<open>The constructor for a literal, whose size is known, and the one for a pointer.\<close>

definition SourceFile_of_array :: "string \<Rightarrow> sourceFile" where
  "SourceFile_of_array arr =
     (case strrchr (CHR ''/'') (c_str arr) of
        Some slash \<Rightarrow> \<lparr>sf_data = drop (slash + 1) arr, sf_size = length arr - (slash + 1)\<rparr>
      | None \<Rightarrow> \<lparr>sf_data = arr, sf_size = length arr\<rparr>)"

definition SourceFile_of_pointer :: "string \<Rightarrow> sourceFile" where
  "SourceFile_of_pointer filename =
     (let data = (case strrchr (CHR ''/'') (c_str filename) of Some slash \<Rightarrow> drop (slash + 1) filename | None \<Rightarrow> filename)
      in \<lparr>sf_data = data, sf_size = length (c_str data)\<rparr>)"


section \<open>A log statement\<close>

text \<open>What the operating system answers, and the array of the stream as it is found on the stack.\<close>

record log_env =
  env_tv_sec :: int
  env_tv_usec :: int
  env_gettid :: int
  env_errno :: "32 word"
  env_strerror :: "32 word \<Rightarrow> string"
  env_garbage :: string

definition put_T :: "string \<Rightarrow> nat \<Rightarrow> fixedBuffer \<Rightarrow> fixedBuffer res" where
  "put_T str len b = asserting (length (c_str str) = len) (FixedBuffer_append (take len str) b)"

definition put_SourceFile :: "sourceFile \<Rightarrow> fixedBuffer \<Rightarrow> fixedBuffer res" where
  "put_SourceFile v b = FixedBuffer_append (take (sf_size v) (sf_data v)) b"

record logImpl =
  impl_time :: int
  impl_stream :: fixedBuffer
  impl_level :: LogLevel
  impl_line :: "32 word"
  impl_basename :: sourceFile

definition Impl_ctor :: "log_env \<Rightarrow> LogLevel \<Rightarrow> 32 word \<Rightarrow> sourceFile \<Rightarrow> 32 word \<Rightarrow> threadLocals \<Rightarrow> (logImpl \<times> threadLocals) res" where
  "Impl_ctor env level savedErrno file line th =
     andThen (Timestamp_now (env_tv_sec env) (env_tv_usec env)) (\<lambda>time.
     andThen (toFormattedString True time) (\<lambda>formatted.
     andThen (put_T formatted 24 (FixedBuffer_ctor (env_garbage env))) (\<lambda>b.
     andThen (put_T '' '' 1 b) (\<lambda>b.
     let th' = tid (env_gettid env) th in
     andThen (put_T (t_tidString th') (t_tidStringLength th') b) (\<lambda>b.
     andThen (LogLevelName level) (\<lambda>name.
     andThen (put_T name 6 b) (\<lambda>b.
     andThen (if savedErrno \<noteq> 0
              then log_puts [LogCString (Some (env_strerror env savedErrno)), LogCString (Some '' (errno=''), LogInt savedErrno,
                             LogCString (Some '') '')] b
              else Inr b) (\<lambda>b.
     Inr (\<lparr>impl_time = time, impl_stream = b, impl_level = level, impl_line = line, impl_basename = file\<rparr>, th')))))))))"

definition finish :: "logImpl \<Rightarrow> logImpl res" where
  "finish impl =
     andThen (log_put (LogCString (Some '' - '')) (impl_stream impl)) (\<lambda>b.
     andThen (put_SourceFile (impl_basename impl) b) (\<lambda>b.
     andThen (log_puts [LogChar CHR '':'', LogInt (impl_line impl), LogChar CHR 0x0A] b) (\<lambda>b.
     Inr (impl\<lparr>impl_stream := b\<rparr>))))"

text \<open>The four constructors of \<^verbatim>\<open>Logger\<close>.\<close>

datatype logger_args = ArgsNone | ArgsLevelFunc LogLevel string | ArgsLevel LogLevel | ArgsAbort bool

fun Logger_ctor :: "logger_args \<Rightarrow> log_env \<Rightarrow> sourceFile \<Rightarrow> 32 word \<Rightarrow> threadLocals \<Rightarrow> (logImpl \<times> threadLocals) res" where
  "Logger_ctor ArgsNone env file line th = Impl_ctor env INFO 0 file line th"
| "Logger_ctor (ArgsLevelFunc level func) env file line th =
     andThen (Impl_ctor env level 0 file line th) (\<lambda>(impl, th).
     andThen (log_puts [LogCString (Some func), LogChar CHR '' ''] (impl_stream impl)) (\<lambda>b. Inr (impl\<lparr>impl_stream := b\<rparr>, th)))"
| "Logger_ctor (ArgsLevel level) env file line th = Impl_ctor env level 0 file line th"
| "Logger_ctor (ArgsAbort toAbort) env file line th = Impl_ctor env (if toAbort then FATAL else ERROR) (env_errno env) file line th"

text \<open>The global variables; the functions act on the world the lines go to.\<close>

record 's logGlobals =
  g_logLevel :: LogLevel
  g_output :: "string \<Rightarrow> 's \<Rightarrow> 's"
  g_flush :: "'s \<Rightarrow> 's"

definition defaultOutput :: "string \<Rightarrow> string \<Rightarrow> string" where
  "defaultOutput msg stdout = stdout @ msg"

definition setLogLevel :: "LogLevel \<Rightarrow> 's logGlobals \<Rightarrow> 's logGlobals" where
  "setLogLevel level G = G\<lparr>g_logLevel := level\<rparr>"

definition setOutput :: "(string \<Rightarrow> 's \<Rightarrow> 's) \<Rightarrow> 's logGlobals \<Rightarrow> 's logGlobals" where
  "setOutput out G = G\<lparr>g_output := out\<rparr>"

definition setFlush :: "('s \<Rightarrow> 's) \<Rightarrow> 's logGlobals \<Rightarrow> 's logGlobals" where
  "setFlush flush G = G\<lparr>g_flush := flush\<rparr>"

text \<open>After a line of level \<^verbatim>\<open>FATAL\<close> the process is aborted.\<close>

datatype 's logged = Returned 's threadLocals | Aborted 's

definition Logger_dtor :: "'s logGlobals \<Rightarrow> logImpl \<Rightarrow> threadLocals \<Rightarrow> 's \<Rightarrow> 's logged res" where
  "Logger_dtor G impl th w =
     andThen (finish impl) (\<lambda>impl.
     let w' = g_output G (fb_toString (impl_stream impl)) w
     in if impl_level impl = FATAL then Inr (Aborted (g_flush G w')) else Inr (Returned w' th))"

definition log_statement :: "'s logGlobals \<Rightarrow> log_env \<Rightarrow> logger_args \<Rightarrow> string \<Rightarrow> 32 word \<Rightarrow> log_item list \<Rightarrow> threadLocals \<Rightarrow> 's \<Rightarrow> 's logged res" where
  "log_statement G env args file line xs th w =
     andThen (Logger_ctor args env (SourceFile_of_array file) line th) (\<lambda>(impl, th).
     andThen (log_puts xs (impl_stream impl)) (\<lambda>b. Logger_dtor G (impl\<lparr>impl_stream := b\<rparr>) th w))"

text \<open>The macros, with the items put into the stream they give.\<close>

definition LOG_TRACE :: "'s logGlobals \<Rightarrow> log_env \<Rightarrow> string \<Rightarrow> 32 word \<Rightarrow> string \<Rightarrow> log_item list \<Rightarrow> threadLocals \<Rightarrow> 's \<Rightarrow> 's logged res" where
  "LOG_TRACE G env file line func xs th w =
     (if g_logLevel G \<le> TRACE then log_statement G env (ArgsLevelFunc TRACE func) file line xs th w else Inr (Returned w th))"

definition LOG_DEBUG :: "'s logGlobals \<Rightarrow> log_env \<Rightarrow> string \<Rightarrow> 32 word \<Rightarrow> string \<Rightarrow> log_item list \<Rightarrow> threadLocals \<Rightarrow> 's \<Rightarrow> 's logged res" where
  "LOG_DEBUG G env file line func xs th w =
     (if g_logLevel G \<le> DEBUG then log_statement G env (ArgsLevelFunc DEBUG func) file line xs th w else Inr (Returned w th))"

definition LOG_INFO :: "'s logGlobals \<Rightarrow> log_env \<Rightarrow> string \<Rightarrow> 32 word \<Rightarrow> log_item list \<Rightarrow> threadLocals \<Rightarrow> 's \<Rightarrow> 's logged res" where
  "LOG_INFO G env file line xs th w =
     (if g_logLevel G \<le> INFO then log_statement G env ArgsNone file line xs th w else Inr (Returned w th))"

definition LOG_WARN :: "'s logGlobals \<Rightarrow> log_env \<Rightarrow> string \<Rightarrow> 32 word \<Rightarrow> log_item list \<Rightarrow> threadLocals \<Rightarrow> 's \<Rightarrow> 's logged res" where
  "LOG_WARN G env = log_statement G env (ArgsLevel WARN)"

definition LOG_ERROR :: "'s logGlobals \<Rightarrow> log_env \<Rightarrow> string \<Rightarrow> 32 word \<Rightarrow> log_item list \<Rightarrow> threadLocals \<Rightarrow> 's \<Rightarrow> 's logged res" where
  "LOG_ERROR G env = log_statement G env (ArgsLevel ERROR)"

definition LOG_FATAL :: "'s logGlobals \<Rightarrow> log_env \<Rightarrow> string \<Rightarrow> 32 word \<Rightarrow> log_item list \<Rightarrow> threadLocals \<Rightarrow> 's \<Rightarrow> 's logged res" where
  "LOG_FATAL G env = log_statement G env (ArgsLevel FATAL)"

definition LOG_SYSERR :: "'s logGlobals \<Rightarrow> log_env \<Rightarrow> string \<Rightarrow> 32 word \<Rightarrow> log_item list \<Rightarrow> threadLocals \<Rightarrow> 's \<Rightarrow> 's logged res" where
  "LOG_SYSERR G env = log_statement G env (ArgsAbort False)"

definition LOG_SYSFATAL :: "'s logGlobals \<Rightarrow> log_env \<Rightarrow> string \<Rightarrow> 32 word \<Rightarrow> log_item list \<Rightarrow> threadLocals \<Rightarrow> 's \<Rightarrow> 's logged res" where
  "LOG_SYSFATAL G env = log_statement G env (ArgsAbort True)"

text \<open>\<^verbatim>\<open>CheckNotNull\<close> passes the pointer on, and does not return when it is null.\<close>

definition CheckNotNull :: "'s logGlobals \<Rightarrow> log_env \<Rightarrow> sourceFile \<Rightarrow> 32 word \<Rightarrow> string \<Rightarrow> nat option \<Rightarrow> threadLocals \<Rightarrow> 's \<Rightarrow> 's logged res" where
  "CheckNotNull G env file line names ptr th w =
     (if ptr = None
      then andThen (Logger_ctor (ArgsLevel FATAL) env file line th) (\<lambda>(impl, th).
           andThen (log_put (LogCString (Some names)) (impl_stream impl)) (\<lambda>b. Logger_dtor G (impl\<lparr>impl_stream := b\<rparr>) th w))
      else Inr (Returned w th))"


section \<open>The text of a line\<close>

lemma strrchr_split:
  "(case strrchr c s of
      Some i \<Rightarrow> i < length s \<and> drop (Suc i) s = rev (takeWhile (\<lambda>x. x \<noteq> c) (rev s)) \<and> c \<in> set s
    | None \<Rightarrow> c \<notin> set s)"
proof (induction s)
  case (Cons x s)
  show ?case
  proof (cases "strrchr c s")
    case None
    with Cons have "c \<notin> set s" by simp
    then have "takeWhile (\<lambda>y. y \<noteq> c) (rev s @ [c]) = rev s"
      by (subst takeWhile_append2) auto
    with None \<open>c \<notin> set s\<close> show ?thesis by simp
  next
    case (Some i)
    with Cons have "c \<in> set (rev s)" by simp
    then have "takeWhile (\<lambda>y. y \<noteq> c) (rev s @ [x]) = takeWhile (\<lambda>y. y \<noteq> c) (rev s)"
      by (intro takeWhile_append1) auto
    with Some Cons show ?thesis by simp
  qed
qed simp

text \<open>The name of a file without its directories.\<close>

definition file_basename :: "string \<Rightarrow> string" where
  "file_basename s = rev (takeWhile (\<lambda>c. c \<noteq> CHR ''/'') (rev s))"

lemma SourceFile_basename:
  assumes "NUL \<notin> set s"
  shows "take (sf_size (SourceFile_of_array s)) (sf_data (SourceFile_of_array s)) = file_basename s"
proof (cases "strrchr (CHR ''/'') s")
  case None
  then have "CHR ''/'' \<notin> set s" using strrchr_split [of "CHR ''/''" s] by simp
  then have "file_basename s = s"
    unfolding file_basename_def by (subst takeWhile_eq_all_conv [THEN iffD2]) auto
  with None show ?thesis by (simp add: SourceFile_of_array_def c_str_no_nul [OF assms])
next
  case (Some i)
  then have "drop (Suc i) s = file_basename s"
    using strrchr_split [of "CHR ''/''" s] by (simp add: file_basename_def)
  moreover have "length s - Suc i = length (drop (Suc i) s)" by simp
  ultimately show ?thesis using Some by (simp add: SourceFile_of_array_def c_str_no_nul [OF assms] del: length_drop)
qed

lemma log_puts_append: "log_puts (xs @ ys) b = andThen (log_puts xs b) (log_puts ys)"
proof (induction xs arbitrary: b)
  case (Cons x xs)
  then have "log_puts (xs @ ys) = (\<lambda>b. andThen (log_puts xs b) (log_puts ys))" by blast
  then show ?case by (simp add: andThen_assoc)
qed simp

lemma put_T_ok: "NUL \<notin> set s \<Longrightarrow> length s = n \<Longrightarrow> put_T s n = log_put (LogString s)"
  by (rule ext) (simp add: put_T_def c_str_no_nul)

text \<open>The thread id is not cached, or cached with its text.\<close>

definition thread_ok :: "threadLocals \<Rightarrow> bool" where
  "thread_ok th \<longleftrightarrow>
     t_cachedTid th = 0 \<or> t_tidString th = printf_d 5 (t_cachedTid th) @ '' '' \<and> t_tidStringLength th = length (t_tidString th)"

definition env_ok :: "log_env \<Rightarrow> bool" where
  "env_ok env \<longleftrightarrow>
     0 \<le> env_tv_sec env \<and> env_tv_sec env + 28800 < 253402300800 \<and> 0 \<le> env_tv_usec env \<and> env_tv_usec env < 1000000 \<and>
     0 < env_gettid env \<and> env_gettid env < 2 ^ 31 \<and> length (env_garbage env) = kSmallBuffer"

lemma tid_ok:
  assumes "thread_ok th" and "env_ok env"
  shows "thread_ok (tid (env_gettid env) th)" and "t_cachedTid (tid (env_gettid env) th) \<noteq> 0"
proof -
  have "length (to_string (env_gettid env)) \<le> 21"
    using assms(2) by (intro length_to_string) (simp add: env_ok_def)
  then have "length (printf_d 5 (env_gettid env) @ '' '') < 32"
    by (simp add: printf_d_def Let_def)
  then have "snprintf_trunc 32 (printf_d 5 (env_gettid env) @ '' '') = printf_d 5 (env_gettid env) @ '' ''"
    by (rule snprintf_trunc_id)
  with assms show "thread_ok (tid (env_gettid env) th)" "t_cachedTid (tid (env_gettid env) th) \<noteq> 0"
    by (auto simp: tid_def cacheTid_def thread_ok_def env_ok_def Let_def)
qed

text \<open>The local time of the statement, and the parts of its line before and after the items.\<close>

definition env_time :: "log_env \<Rightarrow> int" where
  "env_time env = (env_tv_sec env + 28800) * 1000000 + env_tv_usec env"

lemma now_ok: "env_ok env \<Longrightarrow> Timestamp_now (env_tv_sec env) (env_tv_usec env) = Inr (env_time env)"
  by (simp add: env_ok_def Timestamp_now_def check_int64_def kMicroSecondsPerSecond_def env_time_def)

lemma env_time_range: "env_ok env \<Longrightarrow> 0 \<le> env_time env \<and> env_time env < 253402300800000000"
  by (simp add: env_ok_def env_time_def)

definition errno_items :: "log_env \<Rightarrow> 32 word \<Rightarrow> log_item list" where
  "errno_items env e =
     (if e \<noteq> 0 then [LogCString (Some (env_strerror env e)), LogCString (Some '' (errno=''), LogInt e, LogCString (Some '') '')] else [])"

definition prefix_items :: "log_env \<Rightarrow> string \<Rightarrow> int \<Rightarrow> string \<Rightarrow> 32 word \<Rightarrow> log_item list" where
  "prefix_items env time n name e =
     [LogString time, LogString '' '', LogString (printf_d 5 n @ '' ''), LogString name] @ errno_items env e"

lemma LogLevelName_shape: "level \<noteq> NUM_LOG_LEVELS \<Longrightarrow> \<exists>name. LogLevelName level = Inr name \<and> length name = 6 \<and> NUL \<notin> set name"
  by (cases level) simp_all

lemma Impl_ctor_items:
  assumes "env_ok env" and "thread_ok th" and "LogLevelName level = Inr name" and "toFormattedString True (env_time env) = Inr time"
    and "th' = tid (env_gettid env) th"
  shows "Impl_ctor env level e file line th =
    andThen (log_puts (prefix_items env time (t_cachedTid th') name e) (FixedBuffer_ctor (env_garbage env))) (\<lambda>b.
      Inr (\<lparr>impl_time = env_time env, impl_stream = b, impl_level = level, impl_line = line, impl_basename = file\<rparr>, th'))"
proof -
  have t: "length time = 24" "NUL \<notin> set time"
    using toFormattedString_shape [of "env_time env"] env_time_range [OF assms(1)] assms(4) by auto
  have th: "t_tidString th' = printf_d 5 (t_cachedTid th') @ '' ''" "t_tidStringLength th' = length (t_tidString th')"
    using tid_ok [OF assms(2,1)] assms(5) by (simp_all add: thread_ok_def)
  have n: "length name = 6" "NUL \<notin> set name"
    using LogLevelName_shape [of level] assms(3) by (cases level; auto)+
  have "put_T time 24 = log_put (LogString time)" "put_T '' '' 1 = log_put (LogString '' '')" "put_T name 6 = log_put (LogString name)"
    "put_T (t_tidString th') (t_tidStringLength th') = log_put (LogString (printf_d 5 (t_cachedTid th') @ '' ''))"
    using t n th printf_nul_free(2) by (simp_all add: put_T_ok)
  then show ?thesis
    unfolding Impl_ctor_def now_ok [OF assms(1)] assms(3) assms(5) [symmetric]
    by (simp add: assms(4) prefix_items_def errno_items_def log_puts_append andThen_assoc Let_def del: log_put.simps)
qed

fun args_level :: "logger_args \<Rightarrow> LogLevel" where
  "args_level ArgsNone = INFO"
| "args_level (ArgsLevelFunc level func) = level"
| "args_level (ArgsLevel level) = level"
| "args_level (ArgsAbort toAbort) = (if toAbort then FATAL else ERROR)"

fun args_errno :: "log_env \<Rightarrow> logger_args \<Rightarrow> 32 word" where
  "args_errno env (ArgsAbort toAbort) = env_errno env"
| "args_errno env _ = 0"

fun args_items :: "logger_args \<Rightarrow> log_item list" where
  "args_items (ArgsLevelFunc level func) = [LogCString (Some func), LogChar CHR '' '']"
| "args_items _ = []"

definition suffix_items :: "string \<Rightarrow> 32 word \<Rightarrow> log_item list" where
  "suffix_items file line =
     [LogCString (Some '' - ''), LogString (file_basename file), LogChar CHR '':'', LogInt line, LogChar CHR 0x0A]"

definition line_items :: "log_env \<Rightarrow> string \<Rightarrow> int \<Rightarrow> string \<Rightarrow> logger_args \<Rightarrow> string \<Rightarrow> 32 word \<Rightarrow> log_item list \<Rightarrow> log_item list" where
  "line_items env time n name args file line xs =
     prefix_items env time n name (args_errno env args) @ args_items args @ xs @ suffix_items file line"

lemma finish_items:
  assumes "NUL \<notin> set file" and "impl_basename impl = SourceFile_of_array file"
  shows "finish impl = andThen (log_puts (suffix_items file (impl_line impl)) (impl_stream impl)) (\<lambda>b. Inr (impl\<lparr>impl_stream := b\<rparr>))"
proof -
  have "put_SourceFile (impl_basename impl) = log_put (LogString (file_basename file))"
    by (rule ext) (simp add: put_SourceFile_def assms(2) SourceFile_basename [OF assms(1)])
  then show ?thesis
    by (simp add: finish_def suffix_items_def andThen_assoc del: log_put.simps)
qed

lemma Logger_ctor_items:
  assumes "env_ok env" and "thread_ok th" and "LogLevelName (args_level args) = Inr name" and "toFormattedString True (env_time env) = Inr time"
    and "th' = tid (env_gettid env) th"
  shows "Logger_ctor args env file line th =
    andThen (log_puts (prefix_items env time (t_cachedTid th') name (args_errno env args) @ args_items args) (FixedBuffer_ctor (env_garbage env))) (\<lambda>b.
      Inr (\<lparr>impl_time = env_time env, impl_stream = b, impl_level = args_level args, impl_line = line, impl_basename = file\<rparr>, th'))"
  using assms(3)
  by (cases args) (simp_all add: Impl_ctor_items [OF assms(1,2) _ assms(4,5)] log_puts_append andThen_assoc del: log_puts.simps(2))

lemma log_statement_items:
  assumes "env_ok env" and "thread_ok th" and "LogLevelName (args_level args) = Inr name" and "toFormattedString True (env_time env) = Inr time"
    and "th' = tid (env_gettid env) th" and "NUL \<notin> set file"
  shows "log_statement G env args file line xs th w =
    andThen (log_puts (line_items env time (t_cachedTid th') name args file line xs) (FixedBuffer_ctor (env_garbage env))) (\<lambda>b.
      let w' = g_output G (fb_toString b) w
      in if args_level args = FATAL then Inr (Aborted (g_flush G w')) else Inr (Returned w' th'))"
proof -
  have f: "Logger_dtor G \<lparr>impl_time = t, impl_stream = b, impl_level = l, impl_line = line, impl_basename = SourceFile_of_array file\<rparr> th' w =
      andThen (log_puts (suffix_items file line) b) (\<lambda>b. let w' = g_output G (fb_toString b) w
        in if l = FATAL then Inr (Aborted (g_flush G w')) else Inr (Returned w' th'))" for t b l
    by (simp add: Logger_dtor_def finish_items [OF assms(6)] andThen_assoc)
  show ?thesis
    unfolding log_statement_def Logger_ctor_items [OF assms(1-5)] line_items_def append_assoc [symmetric] log_puts_append [of _ xs]
      log_puts_append [of _ "suffix_items file line"]
    by (simp add: andThen_assoc f)
qed


section \<open>Properties\<close>


text \<open>A statement in thread 42 at midnight of 2020-02-29.\<close>

definition example_env :: log_env where
  "example_env =
     \<lparr>env_tv_sec = 1582934400, env_tv_usec = 25, env_gettid = 42, env_errno = 0, env_strerror = (\<lambda>_. []),
      env_garbage = replicate kSmallBuffer NUL\<rparr>"


end
