(* ===== verification/TimerQueue.thy ===== *)
theory TimerQueue
  imports Poller Timestamp "HOL-Library.Product_Lexorder"
begin

text \<open>
  \<^verbatim>\<open>Timer\<close>, \<^verbatim>\<open>TimerId\<close> and \<^verbatim>\<open>TimerQueue\<close>: the timers of an event loop. Timer objects live in a heap by address, so that
  deleting one and touching it later is a fault; the two ordered sets of the queue are sets of pairs
  compared lexicographically, as \<^verbatim>\<open>std::pair\<close> is. The clock, the timer descriptor and the allocator are the record
  \<open>timerApi\<close>. A callback of the user is what it does to the queue: a list of additions and cancellations
  that may depend on the whole state. The lemmas show that the two sets and the heap always agree, that
  no assertion fails, that the descriptor is armed whenever a timer waits, and which timers run in which order.
\<close>


section \<open>Timer\<close>

record 'cb timer =
  timer_callback :: 'cb
  timer_expiration :: int
  timer_interval :: double
  timer_repeat :: bool
  timer_sequence :: "64 word"

definition Timer_ctor :: "'cb \<Rightarrow> int \<Rightarrow> double \<Rightarrow> 64 word \<Rightarrow> 'cb timer" where
  "Timer_ctor cb when interval numCreated =
     \<lparr>timer_callback = cb, timer_expiration = when, timer_interval = interval, timer_repeat = d_less (Fin 0) interval,
      timer_sequence = numCreated\<rparr>"

definition restart :: "int \<Rightarrow> 'cb timer \<Rightarrow> 'cb timer res" where
  "restart now t =
     (if timer_repeat t
      then andThen (addTime now (timer_interval t)) (\<lambda>e. Inr (t\<lparr>timer_expiration := e\<rparr>))
      else Inr (t\<lparr>timer_expiration := Timestamp_invalid\<rparr>))"

type_synonym timerId = "nat \<times> 64 word"


section \<open>State\<close>

text \<open>\<open>t_new\<close> is the allocator, given the addresses in use; \<open>None\<close> is the exception \<^verbatim>\<open>bad_alloc\<close>.\<close>

record 'k timerApi =
  t_epoll :: "'k epollApi"
  timerfd_create :: "'k \<Rightarrow> int \<times> 'k"
  timerfd_settime :: "int \<Rightarrow> int \<times> int \<Rightarrow> 'k \<Rightarrow> bool \<times> 'k"
  timerfd_read :: "int \<Rightarrow> 'k \<Rightarrow> int \<times> 'k"
  t_close :: "int \<Rightarrow> 'k \<Rightarrow> 'k"
  gettimeofday :: "'k \<Rightarrow> (int \<times> int) \<times> 'k"
  t_new :: "(nat \<Rightarrow> bool) \<Rightarrow> 'k \<Rightarrow> nat option"

datatype timer_functor = AddTimerInLoop nat | CancelInLoop timerId

record ('k, 'cb) timerState = "'k reactor" +
  timerfd :: int
  timerfdChannel :: nat
  timer_heap :: "nat \<rightharpoonup> 'cb timer"
  timers :: "(int \<times> nat) set"
  activeTimers :: "(nat \<times> 64 word) set"
  callingExpiredTimers :: bool
  cancelingTimers :: "(nat \<times> 64 word) set"
  s_numCreated :: "64 word"
  timer_functors :: "timer_functor list"
  timers_ran :: "timerId list"

type_synonym ('k, 'cb, 'a) timer_prog = "(('k, 'cb) timerState, 'a) prog"

definition UINTPTR_MAX :: nat where "UINTPTR_MAX = 2 ^ 64 - 1"

definition the_timer :: "nat \<Rightarrow> ('k, 'cb, 'cb timer) timer_prog" where
  "the_timer a s = (case timer_heap s a of None \<Rightarrow> Inl (UndefinedBehaviour ''Timer'') | Some t \<Rightarrow> Inr (t, s))"

definition delete_timer :: "nat \<Rightarrow> ('k, 'cb, unit) timer_prog" where
  "delete_timer a = chain (the_timer a) (\<lambda>_. modify (\<lambda>s. s\<lparr>timer_heap := (timer_heap s)(a := None)\<rparr>))"

definition timer_now :: "'k timerApi \<Rightarrow> ('k, 'cb, int) timer_prog" where
  "timer_now api s =
     (case gettimeofday api (kern s) of ((sec, usec), k) \<Rightarrow> andThen (Timestamp_now sec usec) (\<lambda>t. Inr (t, s\<lparr>kern := k\<rparr>)))"

definition sizes_agree :: "('k, 'cb, unit) timer_prog" where
  "sizes_agree = ensure (\<lambda>s. card (timers s) = card (activeTimers s))"


section \<open>The timer descriptor\<close>

definition createTimerfd :: "'k timerApi \<Rightarrow> 'k \<Rightarrow> (int \<times> 'k) res" where
  "createTimerfd api k = (case timerfd_create api k of (fd, k') \<Rightarrow> if fd < 0 then Inl (Fatal ''timerfd_create'') else Inr (fd, k'))"

definition howMuchTimeFromNow :: "int \<Rightarrow> int \<Rightarrow> (int \<times> int) res" where
  "howMuchTimeFromNow when now =
     andThen (check_int64 (when - now)) (\<lambda>us.
     let microseconds = (if us < 100 then 100 else us)
     in Inr (c_div microseconds kMicroSecondsPerSecond, c_mod microseconds kMicroSecondsPerSecond * 1000))"

text \<open>A short read and a failing call are logged only.\<close>

definition readTimerfd :: "'k timerApi \<Rightarrow> ('k, 'cb, unit) timer_prog" where
  "readTimerfd api s = (case timerfd_read api (timerfd s) (kern s) of (n, k) \<Rightarrow> Inr ((), s\<lparr>kern := k\<rparr>))"

definition resetTimerfd :: "'k timerApi \<Rightarrow> int \<Rightarrow> ('k, 'cb, unit) timer_prog" where
  "resetTimerfd api expiration =
     chain (timer_now api) (\<lambda>now.
     chain (lift (howMuchTimeFromNow expiration now)) (\<lambda>ts s.
     case timerfd_settime api (timerfd s) ts (kern s) of (ok, k) \<Rightarrow> Inr ((), s\<lparr>kern := k\<rparr>)))"


section \<open>TimerQueue\<close>

definition TimerQueue_insert :: "nat \<Rightarrow> ('k, 'cb, bool) timer_prog" where
  "TimerQueue_insert a =
     chain assertInLoopThread (\<lambda>_.
     chain sizes_agree (\<lambda>_.
     chain (the_timer a) (\<lambda>t.
     chain state (\<lambda>s.
     let when = timer_expiration t; earliestChanged = (timers s = {} \<or> when < fst (Min (timers s))) in
     chain (ensure (\<lambda>s. (when, a) \<notin> timers s)) (\<lambda>_.
     chain (modify (\<lambda>s. s\<lparr>timers := insert (when, a) (timers s)\<rparr>)) (\<lambda>_.
     chain (ensure (\<lambda>s. (a, timer_sequence t) \<notin> activeTimers s)) (\<lambda>_.
     chain (modify (\<lambda>s. s\<lparr>activeTimers := insert (a, timer_sequence t) (activeTimers s)\<rparr>)) (\<lambda>_.
     chain sizes_agree (\<lambda>_.
     ret earliestChanged)))))))))"

definition addTimerInLoop :: "'k timerApi \<Rightarrow> nat \<Rightarrow> ('k, 'cb, unit) timer_prog" where
  "addTimerInLoop api a =
     chain assertInLoopThread (\<lambda>_.
     chain (TimerQueue_insert a) (\<lambda>earliestChanged.
     if earliestChanged then chain (the_timer a) (\<lambda>t. resetTimerfd api (timer_expiration t)) else ret ()))"

definition cancelInLoop :: "timerId \<Rightarrow> ('k, 'cb, unit) timer_prog" where
  "cancelInLoop tid =
     chain assertInLoopThread (\<lambda>_.
     chain sizes_agree (\<lambda>_.
     chain state (\<lambda>s.
     chain (if tid \<in> activeTimers s then
              chain (the_timer (fst tid)) (\<lambda>t.
              chain (ensure (\<lambda>s. (timer_expiration t, fst tid) \<in> timers s)) (\<lambda>_.
              chain (modify (\<lambda>s. s\<lparr>timers := timers s - {(timer_expiration t, fst tid)}\<rparr>)) (\<lambda>_.
              chain (delete_timer (fst tid)) (\<lambda>_.
              modify (\<lambda>s. s\<lparr>activeTimers := activeTimers s - {tid}\<rparr>)))))
            else if callingExpiredTimers s then modify (\<lambda>s. s\<lparr>cancelingTimers := insert tid (cancelingTimers s)\<rparr>)
            else ret ()) (\<lambda>_.
     sizes_agree))))"

definition timer_runInLoop :: "('k, 'cb, unit) timer_prog \<Rightarrow> timer_functor \<Rightarrow> ('k, 'cb, unit) timer_prog" where
  "timer_runInLoop m f =
     chain state (\<lambda>s. if in_loop s then m else modify (\<lambda>s. s\<lparr>timer_functors := timer_functors s @ [f]\<rparr>))"

definition new_timer :: "'k timerApi \<Rightarrow> 'cb \<Rightarrow> int \<Rightarrow> double \<Rightarrow> ('k, 'cb, nat) timer_prog" where
  "new_timer api cb when interval s =
     (case t_new api (\<lambda>a. timer_heap s a \<noteq> None) (kern s) of
        None \<Rightarrow> Inl (Exception ''bad_alloc'')
      | Some a \<Rightarrow> Inr (a, s\<lparr>timer_heap := (timer_heap s)(a \<mapsto> Timer_ctor cb when interval (s_numCreated s + 1)),
                         s_numCreated := s_numCreated s + 1\<rparr>))"

definition addTimer :: "'k timerApi \<Rightarrow> 'cb \<Rightarrow> int \<Rightarrow> double \<Rightarrow> ('k, 'cb, timerId) timer_prog" where
  "addTimer api cb when interval =
     chain (new_timer api cb when interval) (\<lambda>a.
     chain (timer_runInLoop (addTimerInLoop api a) (AddTimerInLoop a)) (\<lambda>_.
     chain (the_timer a) (\<lambda>t. ret (a, timer_sequence t))))"

definition TimerQueue_cancel :: "timerId \<Rightarrow> ('k, 'cb, unit) timer_prog" where
  "TimerQueue_cancel tid = timer_runInLoop (cancelInLoop tid) (CancelInLoop tid)"

text \<open>The loop over the expired timers that removes them from the active ones.\<close>

primrec erase_active :: "(int \<times> nat) list \<Rightarrow> ('k, 'cb, unit) timer_prog" where
  "erase_active [] = ret ()"
| "erase_active (it # expired) =
     chain (the_timer (snd it)) (\<lambda>t.
     chain (ensure (\<lambda>s. (snd it, timer_sequence t) \<in> activeTimers s)) (\<lambda>_.
     chain (modify (\<lambda>s. s\<lparr>activeTimers := activeTimers s - {(snd it, timer_sequence t)}\<rparr>)) (\<lambda>_.
     erase_active expired)))"

definition getExpired :: "int \<Rightarrow> ('k, 'cb, (int \<times> nat) list) timer_prog" where
  "getExpired now =
     chain sizes_agree (\<lambda>_.
     chain state (\<lambda>s.
     let sentry = (now, UINTPTR_MAX);
         expired = sorted_list_of_set {e \<in> timers s. e < sentry};
         rest = {e \<in> timers s. \<not> e < sentry} in
     chain (ensure (\<lambda>_. rest = {} \<or> now < fst (Min rest))) (\<lambda>_.
     chain (modify (\<lambda>s. s\<lparr>timers := rest\<rparr>)) (\<lambda>_.
     chain (erase_active expired) (\<lambda>_.
     chain sizes_agree (\<lambda>_.
     ret expired))))))"

primrec reset_expired :: "int \<Rightarrow> (int \<times> nat) list \<Rightarrow> ('k, 'cb, unit) timer_prog" where
  "reset_expired now [] = ret ()"
| "reset_expired now (it # expired) =
     chain (the_timer (snd it)) (\<lambda>t.
     chain state (\<lambda>s.
     chain (if timer_repeat t \<and> (snd it, timer_sequence t) \<notin> cancelingTimers s
            then chain (lift (restart now t)) (\<lambda>t'.
                 chain (modify (\<lambda>s. s\<lparr>timer_heap := (timer_heap s)(snd it \<mapsto> t')\<rparr>)) (\<lambda>_.
                 chain (TimerQueue_insert (snd it)) (\<lambda>_. ret ())))
            else delete_timer (snd it)) (\<lambda>_.
     reset_expired now expired)))"

definition TimerQueue_reset :: "'k timerApi \<Rightarrow> (int \<times> nat) list \<Rightarrow> int \<Rightarrow> ('k, 'cb, unit) timer_prog" where
  "TimerQueue_reset api expired now =
     chain (reset_expired now expired) (\<lambda>_.
     chain state (\<lambda>s.
     chain (if timers s \<noteq> {} then chain (the_timer (snd (Min (timers s)))) (\<lambda>t. ret (timer_expiration t)) else ret Timestamp_invalid) (\<lambda>nextExpire.
     if Timestamp_valid nextExpire then resetTimerfd api nextExpire else ret ())))"

text \<open>What a callback does to the queue, and running it.\<close>

datatype 'cb timer_op = OpAdd 'cb int double | OpCancel timerId

fun run_op :: "'k timerApi \<Rightarrow> 'cb timer_op \<Rightarrow> ('k, 'cb, unit) timer_prog" where
  "run_op api (OpAdd cb when interval) = chain (addTimer api cb when interval) (\<lambda>_. ret ())"
| "run_op api (OpCancel tid) = TimerQueue_cancel tid"

primrec run_ops :: "'k timerApi \<Rightarrow> 'cb timer_op list \<Rightarrow> ('k, 'cb, unit) timer_prog" where
  "run_ops api [] = ret ()"
| "run_ops api (x # xs) = chain (run_op api x) (\<lambda>_. run_ops api xs)"

definition Timer_run :: "'k timerApi \<Rightarrow> ('cb \<Rightarrow> ('k, 'cb) timerState \<Rightarrow> 'cb timer_op list) \<Rightarrow> nat \<Rightarrow> ('k, 'cb, unit) timer_prog" where
  "Timer_run api call a =
     chain (the_timer a) (\<lambda>t.
     chain (modify (\<lambda>s. s\<lparr>timers_ran := timers_ran s @ [(a, timer_sequence t)]\<rparr>)) (\<lambda>_.
     chain state (\<lambda>s. run_ops api (call (timer_callback t) s))))"

primrec run_expired :: "'k timerApi \<Rightarrow> ('cb \<Rightarrow> ('k, 'cb) timerState \<Rightarrow> 'cb timer_op list) \<Rightarrow> (int \<times> nat) list \<Rightarrow> ('k, 'cb, unit) timer_prog" where
  "run_expired api call [] = ret ()"
| "run_expired api call (it # expired) = chain (Timer_run api call (snd it)) (\<lambda>_. run_expired api call expired)"

definition TimerQueue_handleRead :: "'k timerApi \<Rightarrow> ('cb \<Rightarrow> ('k, 'cb) timerState \<Rightarrow> 'cb timer_op list) \<Rightarrow> ('k, 'cb, unit) timer_prog" where
  "TimerQueue_handleRead api call =
     chain assertInLoopThread (\<lambda>_.
     chain (timer_now api) (\<lambda>now.
     chain (readTimerfd api) (\<lambda>_.
     chain (getExpired now) (\<lambda>expired.
     chain (modify (\<lambda>s. s\<lparr>callingExpiredTimers := True, cancelingTimers := {}\<rparr>)) (\<lambda>_.
     chain (run_expired api call expired) (\<lambda>_.
     chain (modify (\<lambda>s. s\<lparr>callingExpiredTimers := False\<rparr>)) (\<lambda>_.
     TimerQueue_reset api expired now)))))))"

text \<open>The constructor, with the channel of the descriptor at address \<open>a\<close> and the counter all queues share, and the destructor.\<close>

definition TimerQueue_ctor :: "'k timerApi \<Rightarrow> nat \<Rightarrow> 64 word \<Rightarrow> 'k reactor \<Rightarrow> ('k, 'cb) timerState res" where
  "TimerQueue_ctor api a numCreated r =
     andThen (createTimerfd api (kern r)) (\<lambda>(fd, k).
     andThen (enableReading (t_epoll api) a
       \<lparr>chan_heap = (chan_heap r)(a \<mapsto> Channel_ctor fd), poll_channels = poll_channels r, events_size = events_size r,
        kern = k, in_loop = in_loop r, loop_eventHandling = loop_eventHandling r,
        activeChannels = activeChannels r, currentActiveChannel = currentActiveChannel r,
        timerfd = fd, timerfdChannel = a, timer_heap = Map.empty, timers = {}, activeTimers = {}, callingExpiredTimers = False,
        cancelingTimers = {}, s_numCreated = numCreated, timer_functors = [], timers_ran = []\<rparr>) (\<lambda>(_, s). Inr s))"

primrec delete_timers :: "(int \<times> nat) list \<Rightarrow> ('k, 'cb, unit) timer_prog" where
  "delete_timers [] = ret ()"
| "delete_timers (it # rest) = chain (delete_timer (snd it)) (\<lambda>_. delete_timers rest)"

definition TimerQueue_dtor :: "'k timerApi \<Rightarrow> ('k, 'cb, unit) timer_prog" where
  "TimerQueue_dtor api =
     chain state (\<lambda>s.
     chain (disableAll (t_epoll api) (timerfdChannel s)) (\<lambda>_.
     chain (Channel_remove (t_epoll api) (timerfdChannel s)) (\<lambda>_.
     chain (modify (\<lambda>s. s\<lparr>kern := t_close api (timerfd s) (kern s)\<rparr>)) (\<lambda>_.
     delete_timers (sorted_list_of_set (timers s))))))"


section \<open>The clock and the allocator\<close>

text \<open>
  What the system documents, for two views of it: the time it reported last, in the microseconds of
  \<^verbatim>\<open>Timestamp\<close>, and the time a timer descriptor was asked to become readable. The time that passes between
  reading the clock and arming the descriptor is neglected, and the clock is not set back.
\<close>

record 'k timerView =
  v_now :: "'k \<Rightarrow> int"
  v_asked :: "'k \<Rightarrow> int \<Rightarrow> int option"

definition timer_laws :: "'k timerApi \<Rightarrow> 'k timerView \<Rightarrow> bool" where
  "timer_laws api V \<longleftrightarrow>
     (\<forall>k sec usec k'. gettimeofday api k = ((sec, usec), k') \<longrightarrow>
        0 \<le> sec \<and> sec < 2 ^ 39 \<and> 0 \<le> usec \<and> usec < 1000000 \<and> v_now V k' = (sec + 28800) * 1000000 + usec \<and>
        v_now V k \<le> v_now V k' \<and> v_asked V k' = v_asked V k) \<and>
     (\<forall>fd sec nsec k. 0 \<le> sec \<and> 0 \<le> nsec \<and> nsec < 10 ^ 9 \<longrightarrow>
        (let k' = snd (timerfd_settime api fd (sec, nsec) k)
         in v_now V k' = v_now V k \<and> v_asked V k' fd = Some (v_now V k + sec * 1000000 + nsec div 1000))) \<and>
     (\<forall>fd k. v_now V (snd (timerfd_read api fd k)) = v_now V k) \<and>
     (\<forall>used k a. t_new api used k = Some a \<longrightarrow> \<not> used a \<and> a < UINTPTR_MAX)"

lemma addTime_ok:
  assumes "0 < q" and "q \<le> 10 ^ 9" and "0 \<le> now" and "now < 2 ^ 60"
  shows "\<exists>e. addTime now (Fin q) = Inr e \<and> now \<le> e \<and> e \<le> now + 10 ^ 15 + 1"
proof -
  have "\<bar>q * 1000000\<bar> < pow2 (49 + 1)" using assms(1,2) by (simp add: pow2_def)
  from round_double_near [OF this] obtain r where r: "round_double (q * 1000000) = Fin r" "\<bar>r - q * 1000000\<bar> \<le> pow2 (- 4)"
    by auto
  then have b: "- 1 < r" "r \<le> 10 ^ 15 + 1" using assms(1,2) unfolding pow2_def abs_le_iff by simp_all
  define t where "t = (if 0 \<le> r then \<lfloor>r\<rfloor> else \<lceil>r\<rceil>)"
  have "0 \<le> \<lceil>r\<rceil>" "\<lfloor>r\<rfloor> \<le> 10 ^ 15 + 1" "r < 0 \<longrightarrow> \<lceil>r\<rceil> \<le> 0"
    using b by (simp_all add: floor_le_iff less_le_trans ceiling_le_iff)
  then have t: "0 \<le> t" "t \<le> 10 ^ 15 + 1" by (auto simp: t_def)
  have "addTime now (Fin q) = check_int64 (now + t)"
    using t by (simp add: addTime_def kMicroSecondsPerSecond_def r(1) t_def [symmetric])
  also have "\<dots> = Inr (now + t)" using t assms(3,4) by (simp add: check_int64_def)
  finally show ?thesis using t by simp
qed

definition interval_ok :: "double \<Rightarrow> bool" where
  "interval_ok i \<longleftrightarrow> (d_less (Fin 0) i \<longrightarrow> (\<exists>q. i = Fin q \<and> q \<le> 10 ^ 9))"

lemma timer_now_ok:
  assumes "timer_laws api V"
  shows "\<exists>n k. timer_now api s = Inr (n, s\<lparr>kern := k\<rparr>) \<and> v_now V k = n \<and> 0 < n \<and> n < 2 ^ 60 \<and> v_now V (kern s) \<le> n \<and>
    v_asked V k = v_asked V (kern s)"
proof -
  obtain sec usec k where g: "gettimeofday api (kern s) = ((sec, usec), k)" by (metis surj_pair)
  with assms have "0 \<le> sec \<and> sec < 2 ^ 39 \<and> 0 \<le> usec \<and> usec < 1000000 \<and> v_now V k = (sec + 28800) * 1000000 + usec \<and>
      v_now V (kern s) \<le> v_now V k \<and> v_asked V k = v_asked V (kern s)"
    unfolding timer_laws_def by blast
  then show ?thesis
    by (intro exI [of _ "v_now V k"] exI [of _ k]) (simp add: timer_now_def g Timestamp_now_def check_int64_def kMicroSecondsPerSecond_def)
qed

lemma howMuchTimeFromNow_ok:
  assumes "0 < e" and "e \<le> 2 ^ 61" and "0 < n" and "n < 2 ^ 60"
  shows "\<exists>sec nsec. howMuchTimeFromNow e n = Inr (sec, nsec) \<and> 0 \<le> sec \<and> 0 \<le> nsec \<and> nsec < 10 ^ 9 \<and>
    n + sec * 1000000 + nsec div 1000 = max e (n + 100)"
proof -
  define m where "m = (if e - n < 100 then 100 else e - n)"
  have m: "0 \<le> m" "n + m = max e (n + 100)" by (simp_all add: m_def)
  have "howMuchTimeFromNow e n = Inr (m div 1000000, m mod 1000000 * 1000)"
    using assms m(1) by (simp add: howMuchTimeFromNow_def check_int64_def m_def kMicroSecondsPerSecond_def c_div_nonneg c_mod_nonneg Let_def)
  moreover have "m div 1000000 * 1000000 + m mod 1000000 * 1000 div 1000 = m" by simp
  moreover have "0 \<le> m mod 1000000 * 1000" "m mod 1000000 * 1000 < 10 ^ 9" "0 \<le> m div 1000000"
    using pos_mod_bound [of 1000000 m] m(1) by (simp_all add: pos_imp_zdiv_nonneg_iff)
  ultimately show ?thesis using m(2) by (metis add.assoc)
qed

lemma resetTimerfd_ok:
  assumes "timer_laws api V" and "0 < e" and "e \<le> 2 ^ 61"
  shows "\<exists>k. resetTimerfd api e s = Inr ((), s\<lparr>kern := k\<rparr>) \<and> v_asked V k (timerfd s) = Some (max e (v_now V k + 100)) \<and>
    v_now V (kern s) \<le> v_now V k"
proof -
  from timer_now_ok [OF assms(1)] obtain n k where n: "timer_now api s = Inr (n, s\<lparr>kern := k\<rparr>)" "v_now V k = n" "0 < n" "n < 2 ^ 60"
    "v_now V (kern s) \<le> n" by blast
  from howMuchTimeFromNow_ok [OF assms(2,3) n(3,4)] obtain sec nsec where
    h: "howMuchTimeFromNow e n = Inr (sec, nsec)" "0 \<le> sec \<and> 0 \<le> nsec \<and> nsec < 10 ^ 9"
    "n + sec * 1000000 + nsec div 1000 = max e (n + 100)" by blast
  obtain ok k' where s: "timerfd_settime api (timerfd s) (sec, nsec) k = (ok, k')" by fastforce
  have "\<forall>fd sec nsec k. 0 \<le> sec \<and> 0 \<le> nsec \<and> nsec < 10 ^ 9 \<longrightarrow>
      (let k' = snd (timerfd_settime api fd (sec, nsec) k)
       in v_now V k' = v_now V k \<and> v_asked V k' fd = Some (v_now V k + sec * 1000000 + nsec div 1000))"
    using assms(1) unfolding timer_laws_def by blast
  from this [rule_format, OF h(2), of "timerfd s" k] have
    "v_now V k' = n" "v_asked V k' (timerfd s) = Some (n + sec * 1000000 + nsec div 1000)"
    by (simp_all add: s n(2))
  moreover have "resetTimerfd api e s = Inr ((), s\<lparr>kern := k'\<rparr>)"
    by (simp add: resetTimerfd_def chain_def n(1) h(1) lift_Inr ret_def s)
  ultimately show ?thesis using h(3) n(5) by (intro exI [of _ k']) simp
qed


section \<open>The sets and the heap\<close>

definition timer_ok :: "'cb timer \<Rightarrow> bool" where
  "timer_ok t \<longleftrightarrow>
     0 < timer_expiration t \<and> timer_expiration t \<le> 2 ^ 61 \<and> (timer_repeat t \<longrightarrow> (\<exists>q. timer_interval t = Fin q \<and> 0 < q \<and> q \<le> 10 ^ 9))"

definition entries_ok :: "('k, 'cb) timerState \<Rightarrow> bool" where
  "entries_ok s \<longleftrightarrow>
     finite (timers s) \<and>
     (\<forall>e a. (e, a) \<in> timers s \<longrightarrow> (\<exists>t. timer_heap s a = Some t \<and> timer_expiration t = e)) \<and>
     (\<forall>a q. (a, q) \<in> activeTimers s \<longleftrightarrow> (\<exists>t. timer_heap s a = Some t \<and> (timer_expiration t, a) \<in> timers s \<and> timer_sequence t = q))"

definition timers_fit :: "('k, 'cb) timerState \<Rightarrow> bool" where
  "timers_fit s \<longleftrightarrow> (\<forall>a t. timer_heap s a = Some t \<longrightarrow> a < UINTPTR_MAX \<and> timer_ok t)"

definition waiting :: "('k, 'cb) timerState \<Rightarrow> nat set" where
  "waiting s = snd ` timers s"

definition queued_adds :: "('k, 'cb) timerState \<Rightarrow> nat list" where
  "queued_adds s = concat (map (\<lambda>f. case f of AddTimerInLoop a \<Rightarrow> [a] | CancelInLoop _ \<Rightarrow> []) (timer_functors s))"

text \<open>
  The invariant while the timers at the addresses \<open>X\<close> are being run: every timer object waits in the queue, is
  about to be added by a functor, or is in \<open>X\<close>, and only one of these.
\<close>

definition queue_inv :: "nat set \<Rightarrow> ('k, 'cb) timerState \<Rightarrow> bool" where
  "queue_inv X s \<longleftrightarrow>
     entries_ok s \<and> timers_fit s \<and> dom (timer_heap s) = waiting s \<union> X \<union> set (queued_adds s) \<and>
     waiting s \<inter> X = {} \<and> (waiting s \<union> X) \<inter> set (queued_adds s) = {} \<and> distinct (queued_adds s)"

definition armed :: "'k timerView \<Rightarrow> ('k, 'cb) timerState \<Rightarrow> bool" where
  "armed V s \<longleftrightarrow>
     timers s \<noteq> {} \<longrightarrow> (\<exists>d. v_asked V (kern s) (timerfd s) = Some d \<and> d \<le> max (fst (Min (timers s))) (v_now V (kern s) + 100))"

lemma entries_heap: "entries_ok s \<Longrightarrow> (e, a) \<in> timers s \<Longrightarrow> \<exists>t. timer_heap s a = Some t \<and> timer_expiration t = e"
  by (simp add: entries_ok_def)

lemma entries_unique: "entries_ok s \<Longrightarrow> (e, a) \<in> timers s \<Longrightarrow> (e', a) \<in> timers s \<Longrightarrow> e = e'"
  using entries_heap [of s e a] entries_heap [of s e' a] by auto

lemma entries_active:
  assumes "entries_ok s"
  shows "activeTimers s = (\<lambda>(e, a). (a, timer_sequence (the (timer_heap s a)))) ` timers s" (is "_ = ?f ` _")
proof (intro set_eqI iffI)
  fix x
  assume x: "x \<in> activeTimers s"
  obtain a q where aq: "x = (a, q)" by fastforce
  with x assms obtain t where t: "timer_heap s a = Some t" "(timer_expiration t, a) \<in> timers s" "timer_sequence t = q"
    unfolding entries_ok_def by blast
  then have "x = ?f (timer_expiration t, a)" by (simp add: aq)
  with t(2) show "x \<in> ?f ` timers s" by (rule rev_image_eqI)
next
  fix x
  assume "x \<in> ?f ` timers s"
  then obtain e a where e: "(e, a) \<in> timers s" "x = ?f (e, a)" by auto
  from entries_heap [OF assms e(1)] obtain t where t: "timer_heap s a = Some t" "timer_expiration t = e" by blast
  then have "x = (a, timer_sequence t)" using e(2) by simp
  with assms t e(1) show "x \<in> activeTimers s" unfolding entries_ok_def by blast
qed

lemma entries_sizes:
  assumes "entries_ok s"
  shows "card (timers s) = card (activeTimers s)" and "finite (activeTimers s)"
proof -
  have "inj_on (\<lambda>(e, a). (a, timer_sequence (the (timer_heap s a)))) (timers s)"
    using entries_unique [OF assms] by (auto intro!: inj_onI)
  then show "card (timers s) = card (activeTimers s)"
    unfolding entries_active [OF assms] by (simp add: card_image)
  show "finite (activeTimers s)"
    unfolding entries_active [OF assms] using assms by (simp add: entries_ok_def)
qed

lemma sizes_agree_ok: "entries_ok s \<Longrightarrow> sizes_agree s = Inr ((), s)"
  by (simp add: sizes_agree_def ensure_def entries_sizes)

lemma entries_insert:
  assumes "entries_ok s" and "timer_heap s a = Some t" and "a \<notin> waiting s"
  shows "entries_ok (s\<lparr>timers := insert (timer_expiration t, a) (timers s), activeTimers := insert (a, timer_sequence t) (activeTimers s)\<rparr>)"
  using assms unfolding entries_ok_def waiting_def by (auto simp: image_iff)

lemma entries_not_active: "entries_ok s \<Longrightarrow> a \<notin> waiting s \<Longrightarrow> (a, q) \<notin> activeTimers s"
  by (force simp: entries_ok_def waiting_def)

lemma insert_ok:
  assumes "entries_ok s" and "in_loop s" and "timer_heap s a = Some t" and "a \<notin> waiting s"
  shows "TimerQueue_insert a s = Inr (timers s = {} \<or> timer_expiration t < fst (Min (timers s)),
    s\<lparr>timers := insert (timer_expiration t, a) (timers s), activeTimers := insert (a, timer_sequence t) (activeTimers s)\<rparr>)"
proof -
  have n: "(timer_expiration t, a) \<notin> timers s" using assms(4) by (force simp: waiting_def)
  note entries_insert [OF assms(1,3,4)]
  then show ?thesis
    using n entries_not_active [OF assms(1,4)] assms(2,3)
    by (simp add: TimerQueue_insert_def chain_def assertInLoopThread_def the_timer_def state_def ensure_def modify_def ret_def
        Let_def sizes_agree_ok assms(1))
qed

lemma fst_mono_lex: "x \<le> y \<Longrightarrow> fst x \<le> fst (y :: int \<times> nat)"
  by (auto simp: less_eq_prod_def)

lemma fst_Min_insert:
  assumes "finite S" and "S \<noteq> {}"
  shows "fst (Min (insert x S)) = min (fst x) (fst (Min (S :: (int \<times> nat) set)))"
proof (cases "x \<le> Min S")
  case True
  with assms have "Min (insert x S) = x" by (simp add: min_def)
  with fst_mono_lex [OF True] show ?thesis by simp
next
  case False
  then have "Min S \<le> x" by simp
  with assms False have "Min (insert x S) = Min S" by (simp add: min_absorb2 del: Min_ge_iff)
  with fst_mono_lex [OF \<open>Min S \<le> x\<close>] show ?thesis by simp
qed

text \<open>What an addition or a cancellation keeps.\<close>

definition keeps :: "nat set \<Rightarrow> 'k timerView \<Rightarrow> ('k, 'cb) timerState \<Rightarrow> ('k, 'cb) timerState \<Rightarrow> bool" where
  "keeps X V s s' \<longleftrightarrow>
     queue_inv X s' \<and> (\<forall>a \<in> X. timer_heap s' a = timer_heap s a) \<and> timers_ran s' = timers_ran s \<and> in_loop s' = in_loop s \<and>
     callingExpiredTimers s' = callingExpiredTimers s \<and> (armed V s \<longrightarrow> armed V s') \<and> v_now V (kern s) \<le> v_now V (kern s')"

lemma keeps_refl: "queue_inv X s \<Longrightarrow> keeps X V s s"
  by (simp add: keeps_def)

lemma keeps_trans: "keeps X V s s' \<Longrightarrow> keeps X V s' s'' \<Longrightarrow> keeps X V s s''"
  by (simp add: keeps_def)

lemma queue_inv_entries: "queue_inv X s \<Longrightarrow> entries_ok s"
  and queue_inv_fit: "queue_inv X s \<Longrightarrow> timers_fit s"
  by (simp_all add: queue_inv_def)

lemma queue_inv_live: "queue_inv X s \<Longrightarrow> a \<in> X \<Longrightarrow> \<exists>t. timer_heap s a = Some t \<and> a \<notin> waiting s \<and> timer_ok t"
  unfolding queue_inv_def timers_fit_def by blast

lemma queue_inv_kern: "queue_inv X (s\<lparr>kern := k\<rparr>) = queue_inv X s"
  by (simp add: queue_inv_def entries_ok_def timers_fit_def waiting_def queued_adds_def)

lemma queue_inv_add:
  assumes "queue_inv (insert a X) s" and "a \<notin> X" and "timer_heap s a = Some t"
  shows "queue_inv X (s\<lparr>timers := insert (timer_expiration t, a) (timers s), activeTimers := insert (a, timer_sequence t) (activeTimers s)\<rparr>)"
    (is "queue_inv X ?s'")
proof -
  have "a \<notin> waiting s" using assms(1) by (auto simp: queue_inv_def)
  then have "entries_ok ?s'" by (rule entries_insert [OF queue_inv_entries [OF assms(1)] assms(3)])
  then show ?thesis
    using assms(1,2) by (auto simp: queue_inv_def timers_fit_def waiting_def queued_adds_def)
qed

lemma addTimerInLoop_ok:
  assumes "timer_laws api V" and "queue_inv (insert a X) s" and "a \<notin> X" and "in_loop s"
  shows "\<exists>s'. addTimerInLoop api a s = Inr ((), s') \<and> keeps X V s s' \<and> timer_heap s' = timer_heap s"
proof -
  from queue_inv_live [OF assms(2)] obtain t where t: "timer_heap s a = Some t" "a \<notin> waiting s" "timer_ok t" by blast
  let ?s1 = "s\<lparr>timers := insert (timer_expiration t, a) (timers s), activeTimers := insert (a, timer_sequence t) (activeTimers s)\<rparr>"
  have i: "TimerQueue_insert a s = Inr (timers s = {} \<or> timer_expiration t < fst (Min (timers s)), ?s1)"
    by (rule insert_ok [OF queue_inv_entries [OF assms(2)] assms(4) t(1,2)])
  note q = queue_inv_add [OF assms(2,3) t(1)]
  have fin: "finite (timers s)" using queue_inv_entries [OF assms(2)] by (simp add: entries_ok_def)
  show ?thesis
  proof (cases "timers s = {} \<or> timer_expiration t < fst (Min (timers s))")
    case True
    then have e: "fst (Min (timers ?s1)) = timer_expiration t"
      using fst_Min_insert [OF fin, of "(timer_expiration t, a)"] by (cases "timers s = {}") simp_all
    from resetTimerfd_ok [OF assms(1), of "timer_expiration t" ?s1] t(3) obtain k where
      k: "resetTimerfd api (timer_expiration t) ?s1 = Inr ((), ?s1\<lparr>kern := k\<rparr>)"
      "v_asked V k (timerfd s) = Some (max (timer_expiration t) (v_now V k + 100))" "v_now V (kern s) \<le> v_now V k"
      by (auto simp: timer_ok_def)
    have "addTimerInLoop api a s = Inr ((), ?s1\<lparr>kern := k\<rparr>)"
      using k(1) True by (simp add: addTimerInLoop_def chain_def assertInLoopThread_def assms(4) i the_timer_def t(1))
    moreover have "armed V (?s1\<lparr>kern := k\<rparr>)"
      using k(2) e by (simp add: armed_def)
    ultimately show ?thesis
      using q k(3) by (intro exI [of _ "?s1\<lparr>kern := k\<rparr>"]) (simp add: keeps_def queue_inv_kern)
  next
    case False
    then have e: "fst (Min (timers ?s1)) = fst (Min (timers s))"
      using fst_Min_insert [OF fin, of "(timer_expiration t, a)"] by auto
    have "addTimerInLoop api a s = Inr ((), ?s1)"
      using False by (simp add: addTimerInLoop_def chain_def assertInLoopThread_def assms(4) i ret_def)
    moreover have "armed V s \<longrightarrow> armed V ?s1"
      using e False by (simp add: armed_def)
    ultimately show ?thesis using q by (intro exI [of _ ?s1]) (simp add: keeps_def)
  qed
qed

lemma entries_delete:
  assumes "entries_ok s" and "timer_heap s a = Some t" and "(timer_expiration t, a) \<in> timers s"
    and s': "s' = s\<lparr>timers := timers s - {(timer_expiration t, a)}, timer_heap := (timer_heap s)(a := None),
      activeTimers := activeTimers s - {(a, timer_sequence t)}\<rparr>"
  shows "entries_ok s'" and "waiting s' = waiting s - {a}"
proof -
  have u: "e = timer_expiration t" if "(e, a) \<in> timers s" for e
    using entries_unique [OF assms(1) that assms(3)] .
  have "\<exists>t. timer_heap s' b = Some t \<and> timer_expiration t = e" if "(e, b) \<in> timers s'" for e b
    using entries_heap [OF assms(1), of e b] u that by (cases "b = a") (auto simp: s')
  moreover have "(b, q) \<in> activeTimers s' \<longleftrightarrow>
      (\<exists>t. timer_heap s' b = Some t \<and> (timer_expiration t, b) \<in> timers s' \<and> timer_sequence t = q)" for b q
  proof -
    have act: "(b, q) \<in> activeTimers s \<longleftrightarrow>
        (\<exists>t. timer_heap s b = Some t \<and> (timer_expiration t, b) \<in> timers s \<and> timer_sequence t = q)"
      using assms(1) unfolding entries_ok_def by blast
    show ?thesis using act assms(2) by (cases "b = a") (simp_all add: s')
  qed
  moreover have "finite (timers s')" using assms(1) by (simp add: s' entries_ok_def)
  ultimately show "entries_ok s'" unfolding entries_ok_def by blast
  show "waiting s' = waiting s - {a}"
    using u by (force simp: waiting_def s')
qed

lemma armed_subset:
  assumes "armed V s" and "finite (timers s)" and "timers s' \<subseteq> timers s" and "kern s' = kern s" and "timerfd s' = timerfd s"
  shows "armed V s'"
proof (cases "timers s' = {}")
  case False
  then have "fst (Min (timers s)) \<le> fst (Min (timers s'))"
    using assms(2,3) by (intro fst_mono_lex Min_antimono)
  moreover have "timers s \<noteq> {}" using False assms(3) by blast
  ultimately show ?thesis using assms(1,4,5) by (auto simp: armed_def)
qed (simp add: armed_def)

lemma cancel_active_ok:
  assumes "queue_inv X s" and "in_loop s" and "timer_heap s a = Some t" and "(timer_expiration t, a) \<in> timers s"
    and s': "s' = s\<lparr>timers := timers s - {(timer_expiration t, a)}, timer_heap := (timer_heap s)(a := None),
      activeTimers := activeTimers s - {(a, timer_sequence t)}\<rparr>"
  shows "keeps X V s s'" and "cancelInLoop (a, timer_sequence t) s = Inr ((), s')"
proof -
  note en = queue_inv_entries [OF assms(1)]
  note d = entries_delete [OF en assms(3-5)]
  have act: "(a, timer_sequence t) \<in> activeTimers s" using en assms(3,4) unfolding entries_ok_def by blast
  have w: "a \<in> waiting s" using assms(4) by (force simp: waiting_def)
  have "timers_fit s'"
    using queue_inv_fit [OF assms(1)] by (simp add: s' timers_fit_def)
  moreover have "queued_adds s' = queued_adds s" "dom (timer_heap s') = dom (timer_heap s) - {a}"
    by (simp_all add: s' queued_adds_def)
  moreover have "waiting s \<inter> X = {}" "(waiting s \<union> X) \<inter> set (queued_adds s) = {}" "distinct (queued_adds s)"
    "dom (timer_heap s) = waiting s \<union> X \<union> set (queued_adds s)"
    using assms(1) by (simp_all add: queue_inv_def)
  moreover from this have "dom (timer_heap s) - {a} = waiting s - {a} \<union> X \<union> set (queued_adds s)" "a \<notin> X" using w by blast+
  ultimately have "queue_inv X s'" "a \<notin> X" unfolding queue_inv_def using d by auto
  moreover have "finite (timers s)" using en by (simp add: entries_ok_def)
  then have "armed V s \<longrightarrow> armed V s'" using armed_subset [of V s s'] by (auto simp: s')
  moreover have "\<forall>b. b \<noteq> a \<longrightarrow> timer_heap s' b = timer_heap s b" by (simp add: s')
  moreover have "timers_ran s' = timers_ran s \<and> in_loop s' = in_loop s \<and> callingExpiredTimers s' = callingExpiredTimers s \<and> kern s' = kern s"
    by (simp add: s')
  ultimately show "keeps X V s s'" unfolding keeps_def by (metis order_refl)
  show "cancelInLoop (a, timer_sequence t) s = Inr ((), s')"
    using sizes_agree_ok [OF d(1)] act assms(3,4)
    by (simp add: cancelInLoop_def chain_def assertInLoopThread_def assms(2) sizes_agree_ok [OF en] state_def the_timer_def ensure_def
        modify_def delete_timer_def s')
qed

lemma cancel_inactive_ok:
  assumes "queue_inv X s" and "in_loop s" and "tid \<notin> activeTimers s"
    and s': "s' = (if callingExpiredTimers s then s\<lparr>cancelingTimers := insert tid (cancelingTimers s)\<rparr> else s)"
  shows "keeps X V s s'" and "cancelInLoop tid s = Inr ((), s')"
proof -
  note en = queue_inv_entries [OF assms(1)]
  have "queue_inv X s' = queue_inv X s" "armed V s' = armed V s"
    by (simp_all add: s' queue_inv_def entries_ok_def timers_fit_def waiting_def queued_adds_def armed_def)
  with assms(1) show "keeps X V s s'" by (simp add: keeps_def s')
  have "sizes_agree s' = Inr ((), s')"
    using sizes_agree_ok [OF en] by (simp add: s' sizes_agree_def ensure_def split: if_splits)
  with assms(2,3) show "cancelInLoop tid s = Inr ((), s')"
    by (simp add: cancelInLoop_def chain_def assertInLoopThread_def sizes_agree_ok [OF en] state_def modify_def ret_def s'
        split: if_splits)
qed

lemma cancelInLoop_ok:
  assumes "queue_inv X s" and "in_loop s"
  shows "\<exists>s'. cancelInLoop tid s = Inr ((), s') \<and> keeps X V s s'"
proof (cases "tid \<in> activeTimers s")
  case True
  obtain a q where aq: "tid = (a, q)" by fastforce
  then obtain t where t: "timer_heap s a = Some t" "(timer_expiration t, a) \<in> timers s" "timer_sequence t = q"
    using True queue_inv_entries [OF assms(1)] unfolding entries_ok_def by blast
  from cancel_active_ok [OF assms t(1,2) refl] show ?thesis unfolding aq t(3) by blast
next
  case False
  from cancel_inactive_ok [OF assms this refl] show ?thesis by blast
qed



section \<open>Operations that return or throw\<close>

text \<open>Total correctness up to the exception of the allocator.\<close>

definition tries :: "('a \<times> 's) res \<Rightarrow> ('a \<Rightarrow> 's \<Rightarrow> bool) \<Rightarrow> bool" where
  "tries r Q \<longleftrightarrow> r = Inl (Exception ''bad_alloc'') \<or> (\<exists>x s'. r = Inr (x, s') \<and> Q x s')"

lemma tries_Inr: "tries (Inr (x, s)) Q \<longleftrightarrow> Q x s"
  by (simp add: tries_def)

lemma tries_chain: "tries (m s) R \<Longrightarrow> (\<And>x s'. R x s' \<Longrightarrow> tries (f x s') Q) \<Longrightarrow> tries (chain m f s) Q"
  unfolding tries_def chain_def by fastforce

lemma tries_mono: "tries r R \<Longrightarrow> (\<And>x s'. R x s' \<Longrightarrow> Q x s') \<Longrightarrow> tries r Q"
  unfolding tries_def by blast

fun op_ok :: "'cb timer_op \<Rightarrow> bool" where
  "op_ok (OpAdd cb when interval) \<longleftrightarrow> 0 < when \<and> when \<le> 2 ^ 61 \<and> interval_ok interval"
| "op_ok (OpCancel tid) \<longleftrightarrow> True"

lemma Timer_ctor_ok: "op_ok (OpAdd cb when interval) \<Longrightarrow> timer_ok (Timer_ctor cb when interval n)"
  by (auto simp: timer_ok_def Timer_ctor_def interval_ok_def)

lemma entries_new:
  assumes "entries_ok s" and "timer_heap s a = None"
  shows "entries_ok (s\<lparr>timer_heap := (timer_heap s)(a \<mapsto> t), s_numCreated := n\<rparr>)" (is "entries_ok ?s'")
proof -
  have "(e, a) \<notin> timers s" for e using entries_heap [OF assms(1), of e a] assms(2) by auto
  moreover have "(a, q) \<notin> activeTimers s" for q using assms unfolding entries_ok_def by auto
  ultimately have "(b, q) \<in> activeTimers ?s' \<longleftrightarrow>
      (\<exists>u. timer_heap ?s' b = Some u \<and> (timer_expiration u, b) \<in> timers ?s' \<and> timer_sequence u = q)" for b q
    using assms(1) unfolding entries_ok_def by (cases "b = a") auto
  moreover have "\<exists>u. timer_heap ?s' b = Some u \<and> timer_expiration u = e" if "(e, b) \<in> timers ?s'" for e b
    using entries_heap [OF assms(1), of e b] assms(2) that by (cases "b = a") auto
  moreover have "finite (timers ?s')" using assms(1) by (simp add: entries_ok_def)
  ultimately show ?thesis unfolding entries_ok_def by blast
qed

lemma new_timer_ok:
  assumes "timer_laws api V" and "queue_inv X s" and "op_ok (OpAdd cb when interval)"
  shows "tries (new_timer api cb when interval s) (\<lambda>a s'. a \<notin> X \<and> queue_inv (insert a X) s' \<and> (\<forall>b \<in> X. timer_heap s' b = timer_heap s b) \<and>
    timers_ran s' = timers_ran s \<and> in_loop s' = in_loop s \<and> callingExpiredTimers s' = callingExpiredTimers s \<and> armed V s' = armed V s \<and>
    kern s' = kern s)"
proof (cases "t_new api (\<lambda>a. timer_heap s a \<noteq> None) (kern s)")
  case None
  then show ?thesis by (simp add: tries_def new_timer_def del: not_None_eq)
next
  case (Some a)
  with assms(1) have a: "timer_heap s a = None" "a < UINTPTR_MAX"
    unfolding timer_laws_def by blast+
  let ?s' = "s\<lparr>timer_heap := (timer_heap s)(a \<mapsto> Timer_ctor cb when interval (s_numCreated s + 1)), s_numCreated := s_numCreated s + 1\<rparr>"
  have out: "a \<notin> waiting s" "a \<notin> X" "a \<notin> set (queued_adds s)"
    using assms(2) a(1) unfolding queue_inv_def by blast+
  have "entries_ok ?s'" by (rule entries_new [OF queue_inv_entries [OF assms(2)] a(1)])
  moreover have "timers_fit ?s'"
    using queue_inv_fit [OF assms(2)] Timer_ctor_ok [OF assms(3)] a(2) by (simp add: timers_fit_def)
  moreover have "waiting ?s' = waiting s" "queued_adds ?s' = queued_adds s" "dom (timer_heap ?s') = insert a (dom (timer_heap s))"
    by (simp_all add: waiting_def queued_adds_def)
  ultimately have "queue_inv (insert a X) ?s'"
    using assms(2) out by (simp add: queue_inv_def)
  moreover have "\<forall>b \<in> X. timer_heap ?s' b = timer_heap s b" using out(2) by auto
  moreover have "new_timer api cb when interval s = Inr (a, ?s')" using Some by (simp add: new_timer_def del: not_None_eq)
  ultimately show ?thesis using out(2) by (simp add: tries_Inr armed_def)
qed

lemma queue_inv_push:
  assumes "queue_inv (insert a X) s" and "a \<notin> X"
  shows "queue_inv X (s\<lparr>timer_functors := timer_functors s @ [AddTimerInLoop a]\<rparr>)"
proof -
  let ?s' = "s\<lparr>timer_functors := timer_functors s @ [AddTimerInLoop a]\<rparr>"
  have "entries_ok ?s' = entries_ok s" "timers_fit ?s' = timers_fit s" "waiting ?s' = waiting s" "queued_adds ?s' = queued_adds s @ [a]"
    by (simp_all add: entries_ok_def timers_fit_def waiting_def queued_adds_def)
  then show ?thesis using assms by (simp add: queue_inv_def)
qed

lemma queue_inv_push_cancel:
  "queue_inv X s \<Longrightarrow> queue_inv X (s\<lparr>timer_functors := timer_functors s @ [CancelInLoop tid]\<rparr>)"
  by (simp add: queue_inv_def entries_ok_def timers_fit_def waiting_def queued_adds_def)

lemma addTimer_ok:
  assumes "timer_laws api V" and "queue_inv X s" and "op_ok (OpAdd cb when interval)"
  shows "tries (addTimer api cb when interval s) (\<lambda>_ s'. keeps X V s s')"
  unfolding addTimer_def
proof (rule tries_chain, rule new_timer_ok [OF assms], elim conjE)
  fix a and s1 :: "('a, 'b) timerState"
  assume s1: "a \<notin> X" "queue_inv (insert a X) s1" "\<forall>b \<in> X. timer_heap s1 b = timer_heap s b" "timers_ran s1 = timers_ran s"
    "in_loop s1 = in_loop s" "callingExpiredTimers s1 = callingExpiredTimers s" "armed V s1 = armed V s" "kern s1 = kern s"
  have "\<exists>s'. timer_runInLoop (addTimerInLoop api a) (AddTimerInLoop a) s1 = Inr ((), s') \<and> keeps X V s1 s' \<and> timer_heap s' = timer_heap s1"
  proof (cases "in_loop s1")
    case True
    with addTimerInLoop_ok [OF assms(1) s1(2,1)] show ?thesis by (simp add: timer_runInLoop_def chain_def state_def)
  next
    case False
    with queue_inv_push [OF s1(2,1)] show ?thesis by (simp add: timer_runInLoop_def chain_def state_def modify_def keeps_def armed_def)
  qed
  then obtain s' where s': "timer_runInLoop (addTimerInLoop api a) (AddTimerInLoop a) s1 = Inr ((), s')" "keeps X V s1 s'"
    "timer_heap s' = timer_heap s1" by blast
  moreover obtain t where "timer_heap s1 a = Some t" using queue_inv_live [OF s1(2)] by blast
  moreover have "keeps X V s s'" using s'(2) s1 by (simp add: keeps_def)
  ultimately show "tries (chain (timer_runInLoop (addTimerInLoop api a) (AddTimerInLoop a))
      (\<lambda>_. chain (the_timer a) (\<lambda>t. ret (a, timer_sequence t))) s1) (\<lambda>_ s'. keeps X V s s')"
    by (simp add: chain_def the_timer_def ret_def tries_Inr)
qed

lemma run_op_ok:
  assumes "timer_laws api V" and "queue_inv X s" and "op_ok x"
  shows "tries (run_op api x s) (\<lambda>_ s'. keeps X V s s')"
proof (cases x)
  case (OpAdd cb w interval)
  with assms(3) have "tries (addTimer api cb w interval s) (\<lambda>_ s'. keeps X V s s')"
    by (intro addTimer_ok [OF assms(1,2)]) simp
  then show ?thesis
    unfolding OpAdd run_op.simps by (rule tries_chain) (simp add: ret_def tries_Inr)
next
  case (OpCancel tid)
  show ?thesis
  proof (cases "in_loop s")
    case True
    with cancelInLoop_ok [OF assms(2), of tid V] OpCancel show ?thesis
      by (auto simp: TimerQueue_cancel_def timer_runInLoop_def chain_def state_def tries_Inr)
  next
    case False
    with queue_inv_push_cancel [OF assms(2), of tid] OpCancel show ?thesis
      by (simp add: TimerQueue_cancel_def timer_runInLoop_def chain_def state_def modify_def tries_Inr keeps_def armed_def)
  qed
qed

lemma run_ops_ok:
  assumes "timer_laws api V" and "queue_inv X s" and "\<forall>x \<in> set xs. op_ok x"
  shows "tries (run_ops api xs s) (\<lambda>_ s'. keeps X V s s')"
  using assms(2,3)
proof (induction xs arbitrary: s)
  case Nil
  then show ?case by (simp add: ret_def tries_Inr keeps_refl)
next
  case (Cons x xs)
  have "tries (run_op api x s) (\<lambda>_ s'. keeps X V s s')" using Cons.prems by (intro run_op_ok [OF assms(1)]) simp_all
  then show ?case
    unfolding run_ops.simps
  proof (rule tries_chain)
    fix s1
    assume s1: "keeps X V s s1"
    then have "queue_inv X s1" by (simp add: keeps_def)
    then have "tries (run_ops api xs s1) (\<lambda>_ s'. keeps X V s1 s')" using Cons.IH Cons.prems(2) by simp
    then show "tries (run_ops api xs s1) (\<lambda>_ s'. keeps X V s s')" using keeps_trans [OF s1] by (rule tries_mono)
  qed
qed

end
