(* ===== verification/TimerRun.thy ===== *)
theory TimerRun
  imports TimerQueue
begin

text \<open>
  The timer queue over time: a timer event with its callbacks, the steps a queue takes from its constructor on,
  and the properties of every queue that is reached.
\<close>


section \<open>The timer event\<close>

text \<open>The identities of timers, in the order of a list of entries.\<close>

definition entry_ids :: "('k, 'cb) timerState \<Rightarrow> (int \<times> nat) list \<Rightarrow> timerId list" where
  "entry_ids s es = map (\<lambda>(e, a). (a, timer_sequence (the (timer_heap s a)))) es"

definition callbacks_ok :: "('cb \<Rightarrow> ('k, 'cb) timerState \<Rightarrow> 'cb timer_op list) \<Rightarrow> bool" where
  "callbacks_ok call \<longleftrightarrow> (\<forall>cb s. \<forall>x \<in> set (call cb s). op_ok x)"

lemma Timer_run_ok:
  assumes "timer_laws api V" and "callbacks_ok call" and "queue_inv X s" and "a \<in> X"
  shows "tries (Timer_run api call a s) (\<lambda>_ s'. keeps X V (s\<lparr>timers_ran := timers_ran s @ entry_ids s [(e, a)]\<rparr>) s')"
proof -
  obtain t where t: "timer_heap s a = Some t" using queue_inv_live [OF assms(3,4)] by blast
  let ?s1 = "s\<lparr>timers_ran := timers_ran s @ [(a, timer_sequence t)]\<rparr>"
  have "queue_inv X ?s1 = queue_inv X s"
    by (simp add: queue_inv_def entries_ok_def timers_fit_def waiting_def queued_adds_def)
  with assms(3) have "tries (run_ops api (call (timer_callback t) ?s1) ?s1) (\<lambda>_ s'. keeps X V ?s1 s')"
    using assms(2) by (intro run_ops_ok [OF assms(1)]) (simp_all add: callbacks_ok_def)
  then show ?thesis
    by (simp add: Timer_run_def chain_def the_timer_def t modify_def state_def entry_ids_def)
qed

lemma entry_ids_cong:
  "\<forall>a \<in> X. timer_heap s' a = timer_heap s a \<Longrightarrow> snd ` set es \<subseteq> X \<Longrightarrow> entry_ids s' es = entry_ids s es"
  by (auto simp: entry_ids_def)

lemma run_expired_ok:
  assumes "timer_laws api V" and "callbacks_ok call" and "queue_inv X s" and "snd ` set es \<subseteq> X"
  shows "tries (run_expired api call es s) (\<lambda>_ s'. keeps X V (s\<lparr>timers_ran := timers_ran s @ entry_ids s es\<rparr>) s')"
  using assms(3,4)
proof (induction es arbitrary: s)
  case Nil
  then show ?case by (simp add: ret_def tries_Inr keeps_refl entry_ids_def)
next
  case (Cons it es)
  obtain e a where it: "it = (e, a)" by fastforce
  have "tries (Timer_run api call (snd it) s) (\<lambda>_ s'. keeps X V (s\<lparr>timers_ran := timers_ran s @ entry_ids s [it]\<rparr>) s')"
    using Timer_run_ok [OF assms(1,2) Cons.prems(1), of a e] Cons.prems(2) by (simp add: it)
  then show ?case
    unfolding run_expired.simps
  proof (rule tries_chain)
    fix s1
    assume s1: "keeps X V (s\<lparr>timers_ran := timers_ran s @ entry_ids s [it]\<rparr>) s1"
    then have q: "queue_inv X s1" and h: "\<forall>a \<in> X. timer_heap s1 a = timer_heap s a"
      and r: "timers_ran s1 = timers_ran s @ entry_ids s [it]" by (simp_all add: keeps_def)
    have i: "entry_ids s1 es = entry_ids s es" using entry_ids_cong [OF h] Cons.prems(2) by simp
    have "tries (run_expired api call es s1) (\<lambda>_ s'. keeps X V (s1\<lparr>timers_ran := timers_ran s1 @ entry_ids s1 es\<rparr>) s')"
      using Cons.IH [OF q] Cons.prems(2) by simp
    then show "tries (run_expired api call es s1) (\<lambda>_ s'. keeps X V (s\<lparr>timers_ran := timers_ran s @ entry_ids s (it # es)\<rparr>) s')"
    proof (rule tries_mono)
      fix s'
      assume "keeps X V (s1\<lparr>timers_ran := timers_ran s1 @ entry_ids s1 es\<rparr>) s'"
      then show "keeps X V (s\<lparr>timers_ran := timers_ran s @ entry_ids s (it # es)\<rparr>) s'"
        using s1 r i by (simp add: keeps_def armed_def entry_ids_def)
    qed
  qed
qed

lemma erase_active_ok:
  assumes "\<forall>(e, a) \<in> set es. \<exists>t. timer_heap s a = Some t \<and> (a, timer_sequence t) \<in> activeTimers s" and "distinct (map snd es)"
  shows "erase_active es s = Inr ((), s\<lparr>activeTimers := activeTimers s - set (entry_ids s es)\<rparr>)"
  using assms
proof (induction es arbitrary: s)
  case Nil
  then show ?case by (simp add: ret_def entry_ids_def)
next
  case (Cons it es)
  obtain e a where it: "it = (e, a)" by fastforce
  with Cons.prems(1) obtain t where t: "timer_heap s a = Some t" "(a, timer_sequence t) \<in> activeTimers s" by auto
  let ?s1 = "s\<lparr>activeTimers := activeTimers s - {(a, timer_sequence t)}\<rparr>"
  have "\<forall>(e, b) \<in> set es. \<exists>t. timer_heap ?s1 b = Some t \<and> (b, timer_sequence t) \<in> activeTimers ?s1"
  proof (clarify)
    fix e' b
    assume b: "(e', b) \<in> set es"
    then have "b \<noteq> a" using Cons.prems(2) by (force simp: it)
    with b Cons.prems(1) show "\<exists>t. timer_heap ?s1 b = Some t \<and> (b, timer_sequence t) \<in> activeTimers ?s1" by fastforce
  qed
  then have "erase_active es ?s1 = Inr ((), ?s1\<lparr>activeTimers := activeTimers ?s1 - set (entry_ids ?s1 es)\<rparr>)"
    using Cons.prems(2) by (intro Cons.IH) simp_all
  moreover have "activeTimers ?s1 - set (entry_ids ?s1 es) = activeTimers s - set (entry_ids s (it # es))"
    using t(1) by (auto simp: entry_ids_def it)
  ultimately show ?case
    using t by (simp add: it chain_def the_timer_def ensure_def modify_def)
qed

lemma before_sentry: "(e, a) < (n, UINTPTR_MAX) \<longleftrightarrow> e < n \<or> e = n \<and> a < UINTPTR_MAX" for e n :: int
  by (auto simp: less_prod_def)

text \<open>The entries that are due.\<close>

definition due :: "int \<Rightarrow> ('k, 'cb) timerState \<Rightarrow> (int \<times> nat) set" where
  "due n s = {(e, a) \<in> timers s. e \<le> n}"

lemma due_sentry:
  assumes "queue_inv X s"
  shows "{e \<in> timers s. e < (n, UINTPTR_MAX)} = due n s" and "{e \<in> timers s. \<not> e < (n, UINTPTR_MAX)} = timers s - due n s"
proof -
  have "a < UINTPTR_MAX" if "(e, a) \<in> timers s" for e a
    using entries_heap [OF queue_inv_entries [OF assms] that] queue_inv_fit [OF assms] by (auto simp: timers_fit_def)
  then show "{e \<in> timers s. e < (n, UINTPTR_MAX)} = due n s" "{e \<in> timers s. \<not> e < (n, UINTPTR_MAX)} = timers s - due n s"
    by (auto simp: due_def before_sentry)
qed

lemma due_parts:
  assumes "queue_inv {} s"
  shows "finite (due n s)" and "due n s \<subseteq> timers s" and "finite (timers s)" and "inj_on snd (timers s)"
    and "snd ` (timers s - due n s) = waiting s - snd ` due n s"
proof -
  note en = queue_inv_entries [OF assms]
  show "finite (timers s)" using en by (simp add: entries_ok_def)
  then show "finite (due n s)" by (rule rev_finite_subset) (auto simp: due_def)
  show sub: "due n s \<subseteq> timers s" by (auto simp: due_def)
  show "inj_on snd (timers s)" using entries_unique [OF en] by (auto intro!: inj_onI)
  then show "snd ` (timers s - due n s) = waiting s - snd ` due n s"
    unfolding waiting_def using sub by (intro inj_on_image_set_diff) auto
qed

lemma entries_expired:
  assumes "queue_inv {} s"
    and s': "s' = s\<lparr>timers := timers s - due n s, activeTimers := activeTimers s - set (entry_ids s (sorted_list_of_set (due n s)))\<rparr>"
  shows "entries_ok s'" and "queue_inv (snd ` due n s) s'"
proof -
  note en = queue_inv_entries [OF assms(1)]
  note d = due_parts [OF assms(1)]
  have ids: "(b, q) \<in> set (entry_ids s (sorted_list_of_set (due n s))) \<longleftrightarrow> (\<exists>e. (e, b) \<in> due n s \<and> q = timer_sequence (the (timer_heap s b)))" for b q
    using d(1) [of n] by (force simp: entry_ids_def)
  have "(b, q) \<in> activeTimers s' \<longleftrightarrow>
      (\<exists>t. timer_heap s' b = Some t \<and> (timer_expiration t, b) \<in> timers s' \<and> timer_sequence t = q)" for b q
  proof -
    have act: "(b, q) \<in> activeTimers s \<longleftrightarrow> (\<exists>t. timer_heap s b = Some t \<and> (timer_expiration t, b) \<in> timers s \<and> timer_sequence t = q)"
      using en unfolding entries_ok_def by blast
    have "(\<exists>e. (e, b) \<in> due n s) \<longleftrightarrow> (timer_expiration t, b) \<in> due n s" if "timer_heap s b = Some t" for t
      using entries_heap [OF en] d(2) that by fastforce
    then show ?thesis unfolding s' using act ids by auto
  qed
  moreover have "\<exists>t. timer_heap s' b = Some t \<and> timer_expiration t = e" if "(e, b) \<in> timers s'" for e b
    using entries_heap [OF en, of e b] that by (simp add: s')
  moreover have "finite (timers s')" using d(3) by (simp add: s')
  ultimately show en': "entries_ok s'" unfolding entries_ok_def by blast
  have "waiting s' = waiting s - snd ` due n s" using d(5) by (simp add: s' waiting_def)
  moreover have "snd ` due n s \<subseteq> waiting s" using d(2) by (auto simp: waiting_def)
  moreover have "timers_fit s' = timers_fit s" "queued_adds s' = queued_adds s" "timer_heap s' = timer_heap s"
    by (simp_all add: s' timers_fit_def queued_adds_def)
  ultimately show "queue_inv (snd ` due n s) s'"
    using assms(1) en' unfolding queue_inv_def by auto
qed

lemma getExpired_ok:
  assumes "queue_inv {} s"
    and s': "s' = s\<lparr>timers := timers s - due n s, activeTimers := activeTimers s - set (entry_ids s (sorted_list_of_set (due n s)))\<rparr>"
  shows "getExpired n s = Inr (sorted_list_of_set (due n s), s')"
proof -
  note en = queue_inv_entries [OF assms(1)]
  note d = due_parts [OF assms(1)]
  let ?s1 = "s\<lparr>timers := timers s - due n s\<rparr>"
  have late: "n < fst x" if "x \<in> timers s - due n s" for x
    using that by (cases x) (auto simp: due_def)
  have a: "timers s - due n s = {} \<or> n < fst (Min (timers s - due n s))"
    using late [OF Min_in] d(3) by blast
  have e: "erase_active (sorted_list_of_set (due n s)) ?s1 =
      Inr ((), ?s1\<lparr>activeTimers := activeTimers ?s1 - set (entry_ids ?s1 (sorted_list_of_set (due n s)))\<rparr>)"
  proof (rule erase_active_ok)
    show "\<forall>(e, a) \<in> set (sorted_list_of_set (due n s)). \<exists>t. timer_heap ?s1 a = Some t \<and> (a, timer_sequence t) \<in> activeTimers ?s1"
    proof (clarify)
      fix e a
      assume "(e, a) \<in> set (sorted_list_of_set (due n s))"
      then have "(e, a) \<in> timers s" using d(1,2) by auto
      then show "\<exists>t. timer_heap ?s1 a = Some t \<and> (a, timer_sequence t) \<in> activeTimers ?s1"
        using entries_heap [OF en] en unfolding entries_ok_def by fastforce
    qed
    show "distinct (map snd (sorted_list_of_set (due n s)))"
      using inj_on_subset [OF d(4,2)] d(1) by (simp add: distinct_map)
  qed
  have i: "entry_ids ?s1 (sorted_list_of_set (due n s)) = entry_ids s (sorted_list_of_set (due n s))"
    by (simp add: entry_ids_def)
  have "getExpired n s =
      chain (ensure (\<lambda>_. timers s - due n s = {} \<or> n < fst (Min (timers s - due n s)))) (\<lambda>_.
      chain (modify (\<lambda>s'. s'\<lparr>timers := timers s - due n s\<rparr>)) (\<lambda>_.
      chain (erase_active (sorted_list_of_set (due n s))) (\<lambda>_. chain sizes_agree (\<lambda>_. ret (sorted_list_of_set (due n s)))))) s"
    unfolding getExpired_def Let_def
    by (simp only: chain_def sizes_agree_ok [OF en] state_def andThen_Inr prod.case due_sentry [OF assms(1)])
  with sizes_agree_ok [OF entries_expired(1) [OF assms]] e a show ?thesis
    by (simp add: chain_def ensure_def modify_def i ret_def s')
qed

lemma queue_inv_update:
  assumes "queue_inv X s" and "a \<in> X" and "a < UINTPTR_MAX" and "timer_ok t"
  shows "queue_inv X (s\<lparr>timer_heap := (timer_heap s)(a \<mapsto> t)\<rparr>)"
proof -
  let ?s' = "s\<lparr>timer_heap := (timer_heap s)(a \<mapsto> t)\<rparr>"
  note en = queue_inv_entries [OF assms(1)]
  have w: "a \<notin> waiting s" using assms(1,2) by (auto simp: queue_inv_def)
  then have n: "(e, a) \<notin> timers s" for e by (force simp: waiting_def)
  have "(b, q) \<in> activeTimers ?s' \<longleftrightarrow>
      (\<exists>u. timer_heap ?s' b = Some u \<and> (timer_expiration u, b) \<in> timers ?s' \<and> timer_sequence u = q)" for b q
    using en n entries_not_active [OF en w] unfolding entries_ok_def by (cases "b = a") auto
  moreover have "\<exists>u. timer_heap ?s' b = Some u \<and> timer_expiration u = e" if "(e, b) \<in> timers ?s'" for e b
    using entries_heap [OF en, of e b] n that by (cases "b = a") auto
  moreover have "finite (timers ?s')" using en by (simp add: entries_ok_def)
  ultimately have "entries_ok ?s'" unfolding entries_ok_def by blast
  moreover have "timers_fit ?s'" using queue_inv_fit [OF assms(1)] assms(3,4) by (simp add: timers_fit_def)
  moreover have "waiting ?s' = waiting s" "queued_adds ?s' = queued_adds s" by (simp_all add: waiting_def queued_adds_def)
  moreover have "insert a (dom (timer_heap s)) = dom (timer_heap s)" using assms(1,2) by (auto simp: queue_inv_def)
  ultimately show ?thesis using assms(1) by (simp add: queue_inv_def)
qed

lemma queue_inv_drop:
  assumes "queue_inv (insert a X) s" and "a \<notin> X"
  shows "queue_inv X (s\<lparr>timer_heap := (timer_heap s)(a := None)\<rparr>)"
proof -
  let ?s' = "s\<lparr>timer_heap := (timer_heap s)(a := None)\<rparr>"
  note en = queue_inv_entries [OF assms(1)]
  have w: "a \<notin> waiting s" using assms(1) by (auto simp: queue_inv_def)
  then have n: "(e, a) \<notin> timers s" for e by (force simp: waiting_def)
  have "(b, q) \<in> activeTimers ?s' \<longleftrightarrow>
      (\<exists>u. timer_heap ?s' b = Some u \<and> (timer_expiration u, b) \<in> timers ?s' \<and> timer_sequence u = q)" for b q
    using en n entries_not_active [OF en w] unfolding entries_ok_def by (cases "b = a") auto
  moreover have "\<exists>u. timer_heap ?s' b = Some u \<and> timer_expiration u = e" if "(e, b) \<in> timers ?s'" for e b
    using entries_heap [OF en, of e b] n that by (cases "b = a") auto
  moreover have "finite (timers ?s')" using en by (simp add: entries_ok_def)
  ultimately have "entries_ok ?s'" unfolding entries_ok_def by blast
  moreover have "timers_fit ?s'" using queue_inv_fit [OF assms(1)] by (simp add: timers_fit_def)
  moreover have "waiting ?s' = waiting s" "queued_adds ?s' = queued_adds s" by (simp_all add: waiting_def queued_adds_def)
  moreover have "dom (timer_heap s) - {a} = waiting s \<union> X \<union> set (queued_adds s)"
    using assms by (auto simp: queue_inv_def)
  ultimately show ?thesis using assms by (simp add: queue_inv_def)
qed

lemma restart_ok:
  assumes "timer_ok t" and "timer_repeat t" and "0 < n" and "n < 2 ^ 60"
  shows "\<exists>e. restart n t = Inr (t\<lparr>timer_expiration := e\<rparr>) \<and> timer_ok (t\<lparr>timer_expiration := e\<rparr>)"
proof -
  obtain q where q: "timer_interval t = Fin q" "0 < q" "q \<le> 10 ^ 9" using assms(1,2) by (auto simp: timer_ok_def)
  from addTime_ok [OF q(2,3), of n] assms(3,4) obtain e where "addTime n (Fin q) = Inr e" "n \<le> e" "e \<le> n + 10 ^ 15 + 1" by auto
  with assms q show ?thesis by (auto simp: restart_def timer_ok_def)
qed

lemma reset_expired_ok:
  assumes "queue_inv (snd ` set es) s" and "distinct (map snd es)" and "in_loop s" and "0 < n" and "n < 2 ^ 60"
  shows "\<exists>s'. reset_expired n es s = Inr ((), s') \<and> queue_inv {} s' \<and> in_loop s' \<and> kern s' = kern s \<and> timers_ran s' = timers_ran s \<and>
    callingExpiredTimers s' = callingExpiredTimers s"
  using assms(1-3)
proof (induction es arbitrary: s)
  case Nil
  then show ?case by (simp add: ret_def)
next
  case (Cons it es)
  let ?a = "snd it" and ?X = "snd ` set es"
  have q: "queue_inv (insert ?a ?X) s" and a: "?a \<notin> ?X" using Cons.prems(1,2) by simp_all
  from queue_inv_live [OF q, of ?a] obtain t where t: "timer_heap s ?a = Some t" "?a \<notin> waiting s" "timer_ok t" by blast
  have "\<exists>s1. reset_expired n (it # es) s = reset_expired n es s1 \<and> queue_inv ?X s1 \<and> in_loop s1 \<and> kern s1 = kern s \<and>
      timers_ran s1 = timers_ran s \<and> callingExpiredTimers s1 = callingExpiredTimers s"
  proof (cases "timer_repeat t \<and> (?a, timer_sequence t) \<notin> cancelingTimers s")
    case True
    from restart_ok [OF t(3) _ assms(4,5)] True obtain e where
      e: "restart n t = Inr (t\<lparr>timer_expiration := e\<rparr>)" "timer_ok (t\<lparr>timer_expiration := e\<rparr>)" by blast
    let ?s1 = "s\<lparr>timer_heap := (timer_heap s)(?a \<mapsto> t\<lparr>timer_expiration := e\<rparr>)\<rparr>"
    have "?a < UINTPTR_MAX" using queue_inv_fit [OF q] t(1) by (auto simp: timers_fit_def)
    then have q1: "queue_inv (insert ?a ?X) ?s1" by (intro queue_inv_update [OF q _ _ e(2)]) simp_all
    have h: "timer_heap ?s1 ?a = Some (t\<lparr>timer_expiration := e\<rparr>)" "?a \<notin> waiting ?s1" "in_loop ?s1"
      using t(2) Cons.prems(3) by (simp_all add: waiting_def)
    let ?s2 = "?s1\<lparr>timers := insert (e, ?a) (timers s), activeTimers := insert (?a, timer_sequence t) (activeTimers s)\<rparr>"
    have "reset_expired n (it # es) s = reset_expired n es ?s2"
      using insert_ok [OF queue_inv_entries [OF q1] h(3,1,2)] True e(1) t(1)
      by (simp add: chain_def the_timer_def state_def lift_Inr ret_def modify_def)
    moreover have "queue_inv ?X ?s2" using queue_inv_add [OF q1 a h(1)] by simp
    ultimately show ?thesis using h(3) by (intro exI [of _ ?s2]) simp
  next
    case False
    then have c: "(timer_repeat t \<and> (?a, timer_sequence t) \<notin> cancelingTimers s) = False" by simp
    from queue_inv_drop [OF q a] t(1) Cons.prems(3) show ?thesis
      by (intro exI [of _ "s\<lparr>timer_heap := (timer_heap s)(?a := None)\<rparr>"])
        (simp add: chain_def the_timer_def state_def c delete_timer_def modify_def)
  qed
  then obtain s1 where s1: "reset_expired n (it # es) s = reset_expired n es s1" "queue_inv ?X s1" "in_loop s1" "kern s1 = kern s"
    "timers_ran s1 = timers_ran s" "callingExpiredTimers s1 = callingExpiredTimers s" by blast
  from Cons.IH [OF s1(2) _ s1(3)] Cons.prems(2) s1 show ?case by simp
qed

lemma reset_ok:
  assumes "timer_laws api V" and "queue_inv (snd ` set es) s" and "distinct (map snd es)" and "in_loop s" and "0 < n" and "n < 2 ^ 60"
  shows "\<exists>s'. TimerQueue_reset api es n s = Inr ((), s') \<and> queue_inv {} s' \<and> in_loop s' \<and> timers_ran s' = timers_ran s \<and>
    callingExpiredTimers s' = callingExpiredTimers s \<and> armed V s' \<and> v_now V (kern s) \<le> v_now V (kern s')"
proof -
  from reset_expired_ok [OF assms(2-6)] obtain s1 where s1: "reset_expired n es s = Inr ((), s1)" "queue_inv {} s1" "in_loop s1"
    "kern s1 = kern s" "timers_ran s1 = timers_ran s" "callingExpiredTimers s1 = callingExpiredTimers s" by blast
  show ?thesis
  proof (cases "timers s1 = {}")
    case True
    with s1 show ?thesis
      by (simp add: TimerQueue_reset_def chain_def state_def ret_def Timestamp_valid_def Timestamp_invalid_def armed_def)
  next
    case False
    note en = queue_inv_entries [OF s1(2)]
    obtain e a where m: "Min (timers s1) = (e, a)" by fastforce
    have "Min (timers s1) \<in> timers s1" using en False by (intro Min_in) (simp_all add: entries_ok_def)
    then obtain t where t: "timer_heap s1 a = Some t" "timer_expiration t = e" using entries_heap [OF en] m by auto
    then have e: "0 < e" "e \<le> 2 ^ 61" using queue_inv_fit [OF s1(2)] by (auto simp: timers_fit_def timer_ok_def)
    from resetTimerfd_ok [OF assms(1) e, of s1] obtain k where k: "resetTimerfd api e s1 = Inr ((), s1\<lparr>kern := k\<rparr>)"
      "v_asked V k (timerfd s1) = Some (max e (v_now V k + 100))" "v_now V (kern s1) \<le> v_now V k" by blast
    have "TimerQueue_reset api es n s = Inr ((), s1\<lparr>kern := k\<rparr>)"
      using False e(1) t k(1) by (simp add: TimerQueue_reset_def chain_def s1(1) state_def m the_timer_def ret_def Timestamp_valid_def)
    then show ?thesis
      using s1 k(2,3) m by (intro exI [of _ "s1\<lparr>kern := k\<rparr>"]) (simp add: queue_inv_kern armed_def)
  qed
qed

text \<open>The invariant between two events.\<close>

definition timers_ok :: "'k timerView \<Rightarrow> ('k, 'cb) timerState \<Rightarrow> bool" where
  "timers_ok V s \<longleftrightarrow> queue_inv {} s \<and> armed V s \<and> in_loop s \<and> \<not> callingExpiredTimers s"

lemma timer_event_ok:
  assumes "timer_laws api V" and "callbacks_ok call" and "timers_ok V s" and n: "timer_now api s = Inr (n, s1)"
  shows "tries (TimerQueue_handleRead api call s) (\<lambda>_ s'. timers_ok V s' \<and>
    timers_ran s' = timers_ran s @ entry_ids s (sorted_list_of_set (due n s)))"
proof -
  have inv: "queue_inv {} s" "in_loop s" using assms(3) by (simp_all add: timers_ok_def)
  from timer_now_ok [OF assms(1), of s] n obtain k where k: "s1 = s\<lparr>kern := k\<rparr>" "0 < n" "n < 2 ^ 60" by auto
  obtain m k' where r: "timerfd_read api (timerfd s) k = (m, k')" by fastforce
  let ?s2 = "s\<lparr>kern := k'\<rparr>"
  have d: "due n ?s2 = due n s" "entry_ids ?s2 es = entry_ids s es" for es by (simp_all add: due_def entry_ids_def)
  define es where "es = sorted_list_of_set (due n s)"
  define s3 where "s3 = ?s2\<lparr>timers := timers s - due n s, activeTimers := activeTimers s - set (entry_ids s es)\<rparr>"
  have q2: "queue_inv {} ?s2" using inv(1) by (simp add: queue_inv_kern)
  have g: "getExpired n ?s2 = Inr (es, s3)" and q3: "queue_inv (snd ` due n s) s3"
    using getExpired_ok [OF q2 refl, of n] entries_expired(2) [OF q2 refl, of n] by (simp_all add: d s3_def es_def)
  note dp = due_parts [OF inv(1)]
  have es: "set es = due n s" "distinct (map snd es)"
    using dp(1) inj_on_subset [OF dp(4,2)] by (simp_all add: es_def distinct_map)
  let ?s4 = "s3\<lparr>callingExpiredTimers := True, cancelingTimers := {}\<rparr>"
  have q4: "queue_inv (snd ` set es) ?s4"
    using q3 by (simp add: es(1) queue_inv_def entries_ok_def timers_fit_def waiting_def queued_adds_def)
  have i4: "entry_ids ?s4 es = entry_ids s es" by (simp add: entry_ids_def s3_def)
  have run: "tries (run_expired api call es ?s4) (\<lambda>_ s'. keeps (snd ` set es) V (?s4\<lparr>timers_ran := timers_ran s @ entry_ids s es\<rparr>) s')"
    using run_expired_ok [OF assms(1,2) q4 order_refl] by (simp add: i4) (simp add: s3_def)
  have "TimerQueue_handleRead api call s =
      chain (run_expired api call es) (\<lambda>_. chain (modify (\<lambda>s. s\<lparr>callingExpiredTimers := False\<rparr>)) (\<lambda>_. TimerQueue_reset api es n)) ?s4"
    using g by (simp add: TimerQueue_handleRead_def chain_def assertInLoopThread_def inv(2) n k(1) readTimerfd_def r modify_def)
  moreover have "tries (chain (run_expired api call es)
      (\<lambda>_. chain (modify (\<lambda>s. s\<lparr>callingExpiredTimers := False\<rparr>)) (\<lambda>_. TimerQueue_reset api es n)) ?s4)
      (\<lambda>_ s'. timers_ok V s' \<and> timers_ran s' = timers_ran s @ entry_ids s es)"
  proof (rule tries_chain [where R = "\<lambda>_ s'. keeps (snd ` set es) V (?s4\<lparr>timers_ran := timers_ran s @ entry_ids s es\<rparr>) s'"], rule run)
    fix s5
    assume s5: "keeps (snd ` set es) V (?s4\<lparr>timers_ran := timers_ran s @ entry_ids s es\<rparr>) s5"
    let ?s6 = "s5\<lparr>callingExpiredTimers := False\<rparr>"
    have "queue_inv (snd ` set es) ?s6" "in_loop ?s6" "timers_ran ?s6 = timers_ran s @ entry_ids s es"
      using s5 inv(2) by (simp_all add: keeps_def s3_def queue_inv_def entries_ok_def timers_fit_def waiting_def queued_adds_def)
    from reset_ok [OF assms(1) this(1) es(2) this(2) k(2,3)] this(3)
    show "tries (chain (modify (\<lambda>s. s\<lparr>callingExpiredTimers := False\<rparr>)) (\<lambda>_. TimerQueue_reset api es n) s5)
        (\<lambda>_ s'. timers_ok V s' \<and> timers_ran s' = timers_ran s @ entry_ids s es)"
      by (auto simp: chain_def modify_def tries_Inr timers_ok_def)
  qed
  ultimately show ?thesis by (simp add: es_def)
qed


section \<open>The life of a queue\<close>

text \<open>
  What happens to a queue: calls in the thread of the loop and in other threads, functors run by the
  loop, and timer events.
\<close>

datatype 'cb timer_act = LoopOp "'cb timer_op" | OtherOp "'cb timer_op" | RunFunctor | TimerEvent

definition run_timer_functor :: "'k timerApi \<Rightarrow> ('k, 'cb, unit) timer_prog" where
  "run_timer_functor api s =
     (case timer_functors s of
        [] \<Rightarrow> Inr ((), s)
      | AddTimerInLoop a # fs \<Rightarrow> addTimerInLoop api a (s\<lparr>timer_functors := fs\<rparr>)
      | CancelInLoop tid # fs \<Rightarrow> cancelInLoop tid (s\<lparr>timer_functors := fs\<rparr>))"

fun timer_step :: "'k timerApi \<Rightarrow> ('cb \<Rightarrow> ('k, 'cb) timerState \<Rightarrow> 'cb timer_op list) \<Rightarrow> 'cb timer_act \<Rightarrow> ('k, 'cb, unit) timer_prog" where
  "timer_step api call (LoopOp x) s = run_op api x s"
| "timer_step api call (OtherOp x) s =
     andThen (run_op api x (s\<lparr>in_loop := False\<rparr>)) (\<lambda>(_, s'). Inr ((), s'\<lparr>in_loop := True\<rparr>))"
| "timer_step api call RunFunctor s = run_timer_functor api s"
| "timer_step api call TimerEvent s = TimerQueue_handleRead api call s"

fun step_ok :: "'cb timer_act \<Rightarrow> bool" where
  "step_ok (LoopOp x) \<longleftrightarrow> op_ok x"
| "step_ok (OtherOp x) \<longleftrightarrow> op_ok x"
| "step_ok _ \<longleftrightarrow> True"

inductive timer_reachable ::
  "'k timerApi \<Rightarrow> ('cb \<Rightarrow> ('k, 'cb) timerState \<Rightarrow> 'cb timer_op list) \<Rightarrow> ('k, 'cb) timerState \<Rightarrow> bool" for api call where
  start: "TimerQueue_ctor api a numCreated (new_reactor k) = Inr s \<Longrightarrow> timer_reachable api call s"
| step: "timer_reachable api call s \<Longrightarrow> step_ok x \<Longrightarrow> timer_step api call x s = Inr ((), s') \<Longrightarrow> timer_reachable api call s'"

lemma keeps_timers_ok: "timers_ok V s \<Longrightarrow> keeps {} V s s' \<Longrightarrow> timers_ok V s'"
  by (simp add: timers_ok_def keeps_def)

lemma run_timer_functor_ok:
  assumes "timer_laws api V" and "timers_ok V s"
  shows "\<exists>s'. run_timer_functor api s = Inr ((), s') \<and> timers_ok V s'"
proof (cases "timer_functors s")
  case Nil
  with assms(2) show ?thesis by (simp add: run_timer_functor_def)
next
  case (Cons f fs)
  let ?s1 = "s\<lparr>timer_functors := fs\<rparr>"
  have inv: "queue_inv {} s" "in_loop s" using assms(2) by (simp_all add: timers_ok_def)
  have same: "entries_ok ?s1 = entries_ok s" "timers_fit ?s1 = timers_fit s" "waiting ?s1 = waiting s" "armed V ?s1 = armed V s"
    by (simp_all add: entries_ok_def timers_fit_def waiting_def armed_def)
  show ?thesis
  proof (cases f)
    case (AddTimerInLoop a)
    then have "queued_adds s = a # queued_adds ?s1" by (simp add: queued_adds_def Cons)
    with inv(1) same have "queue_inv {a} ?s1" by (simp add: queue_inv_def)
    from addTimerInLoop_ok [OF assms(1) this] inv(2) obtain s' where
      "addTimerInLoop api a ?s1 = Inr ((), s')" "keeps {} V ?s1 s'" by auto
    with Cons AddTimerInLoop assms(2) same(4) show ?thesis
      by (simp add: run_timer_functor_def timers_ok_def keeps_def)
  next
    case (CancelInLoop tid)
    then have "queued_adds ?s1 = queued_adds s" by (simp add: queued_adds_def Cons)
    with inv(1) same have "queue_inv {} ?s1" by (simp add: queue_inv_def)
    from cancelInLoop_ok [OF this, of tid V] inv(2) obtain s' where
      "cancelInLoop tid ?s1 = Inr ((), s')" "keeps {} V ?s1 s'" by auto
    with Cons CancelInLoop assms(2) same(4) show ?thesis
      by (simp add: run_timer_functor_def timers_ok_def keeps_def)
  qed
qed

lemma timer_step_ok:
  assumes "timer_laws api V" and "callbacks_ok call" and "timers_ok V s" and "step_ok x"
  shows "tries (timer_step api call x s) (\<lambda>_ s'. timers_ok V s')"
proof (cases x)
  case (LoopOp y)
  have "tries (run_op api y s) (\<lambda>_ s'. keeps {} V s s')"
    using assms(3,4) LoopOp by (intro run_op_ok [OF assms(1)]) (simp_all add: timers_ok_def)
  then show ?thesis
    unfolding LoopOp timer_step.simps using keeps_timers_ok [OF assms(3)] by (rule tries_mono)
next
  case (OtherOp y)
  let ?s1 = "s\<lparr>in_loop := False\<rparr>"
  have q: "queue_inv {} (u\<lparr>in_loop := b\<rparr>) = queue_inv {} u" "armed V (u\<lparr>in_loop := b\<rparr>) = armed V u" for u :: "('a, 'b) timerState" and b
    by (simp_all add: queue_inv_def entries_ok_def timers_fit_def waiting_def queued_adds_def armed_def)
  have "tries (run_op api y ?s1) (\<lambda>_ s'. keeps {} V ?s1 s')"
    using assms(3,4) OtherOp by (intro run_op_ok [OF assms(1)]) (simp_all add: timers_ok_def q)
  then show ?thesis
    using assms(3) by (auto simp: OtherOp tries_def timers_ok_def keeps_def q)
next
  case RunFunctor
  with run_timer_functor_ok [OF assms(1,3)] show ?thesis by (auto simp: tries_def)
next
  case TimerEvent
  obtain n s1 where "timer_now api s = Inr (n, s1)" using timer_now_ok [OF assms(1), of s] by blast
  from timer_event_ok [OF assms(1-3) this] TimerEvent show ?thesis by (auto simp: tries_def)
qed

text \<open>Registering a channel changes the channels and the kernel only.\<close>

definition channels_only :: "(('k, 'z) reactor_scheme, 'a) prog \<Rightarrow> bool" where
  "channels_only m \<longleftrightarrow> (\<forall>s x s'. m s = Inr (x, s') \<longrightarrow> reactor.more s' = reactor.more s \<and> in_loop s' = in_loop s)"

lemma channels_only_chain: "channels_only m \<Longrightarrow> (\<And>x. channels_only (f x)) \<Longrightarrow> channels_only (chain m f)"
  unfolding channels_only_def chain_eq_Inr by metis

lemma channels_only_basic:
  "channels_only (ret x)" "channels_only (the_chan a)" "channels_only (ensure P)" "channels_only assertInLoopThread"
  "channels_only (modify (\<lambda>s. s\<lparr>poll_channels := g s\<rparr>))" "channels_only (modify (\<lambda>s. s\<lparr>chan_heap := h s\<rparr>))"
  unfolding channels_only_def ret_def the_chan_def ensure_def assertInLoopThread_def modify_def
  by (auto split: option.splits if_splits)

lemma channels_only_set_chan: "channels_only (set_chan a f)"
  unfolding set_chan_def by (intro channels_only_chain channels_only_basic)

lemma channels_only_epoll_update: "channels_only (EPollPoller_update api operation a)"
  unfolding EPollPoller_update_def
  by (rule channels_only_chain, rule channels_only_basic) (auto simp: channels_only_def split: prod.splits if_splits)

lemma channels_only_set_events: "channels_only (set_events api f a)"
  unfolding set_events_def Channel_update_def updateChannel_def EPollPoller_updateChannel_def Let_def
  by (auto intro!: channels_only_chain channels_only_basic channels_only_set_chan channels_only_epoll_update)

lemma TimerQueue_ctor_ok:
  assumes "TimerQueue_ctor api a numCreated (new_reactor k) = Inr s"
  shows "timers_ok V s"
proof -
  obtain fd k' where "createTimerfd api k = Inr (fd, k')"
    using assms by (cases "createTimerfd api k") (auto simp: TimerQueue_ctor_def new_reactor_def)
  with assms obtain s0 where s0: "set_events (t_epoll api) (\<lambda>e. e OR kReadEvent) a s0 = Inr ((), s)" "in_loop s0" "timer_heap s0 = Map.empty"
    "timers s0 = {}" "activeTimers s0 = {}" "timer_functors s0 = []" "\<not> callingExpiredTimers s0"
    by (auto simp: TimerQueue_ctor_def new_reactor_def enableReading_def andThen_eq_Inr)
  then have "reactor.more s = reactor.more s0" "in_loop s"
    using channels_only_set_events [of "t_epoll api"] unfolding channels_only_def by blast+
  with s0(3-) have "timer_heap s = Map.empty" "timers s = {}" "activeTimers s = {}" "timer_functors s = []" "\<not> callingExpiredTimers s"
    by (cases s; cases s0; simp)+
  with \<open>in_loop s\<close> show ?thesis
    by (simp add: timers_ok_def queue_inv_def entries_ok_def timers_fit_def waiting_def queued_adds_def armed_def)
qed

lemma timer_reachable_ok:
  assumes "timer_laws api V" and "callbacks_ok call" and "timer_reachable api call s"
  shows "timers_ok V s"
  using assms(3)
proof (induction rule: timer_reachable.induct)
  case (start a numCreated k s)
  then show ?case by (rule TimerQueue_ctor_ok)
next
  case (step s x s')
  from timer_step_ok [OF assms(1,2) step(4,2)] step(3) show ?case by (auto simp: tries_def)
qed


lemma set_queued_adds: "set (queued_adds s) = {a. AddTimerInLoop a \<in> set (timer_functors s)}"
proof -
  have "a \<in> set (concat (map (\<lambda>f. case f of AddTimerInLoop a \<Rightarrow> [a] | CancelInLoop _ \<Rightarrow> []) fs)) \<longleftrightarrow> AddTimerInLoop a \<in> set fs" for a fs
    by (induction fs) (auto split: timer_functor.splits)
  then show ?thesis by (simp add: queued_adds_def set_eq_iff)
qed

lemma entries_waiting:
  assumes "entries_ok s" and "(e, a) \<in> timers s"
  shows "\<exists>t. timer_heap s a = Some t \<and> timer_expiration t = e \<and> (a, timer_sequence t) \<in> activeTimers s"
proof -
  obtain t where t: "timer_heap s a = Some t" "timer_expiration t = e" using entries_heap [OF assms] by blast
  with assms have "(a, timer_sequence t) \<in> activeTimers s" unfolding entries_ok_def by blast
  with t show ?thesis by blast
qed


section \<open>Properties\<close>


text \<open>
  C33. Whenever a timer waits, the timer descriptor is armed, and for a time no later than the earliest
  deadline, or 100 microseconds after the time the clock showed last, if the deadline has passed already.
\<close>

theorem timer_armed_in_time:
  assumes "timer_laws api V" and "callbacks_ok call" and "timer_reachable api call s" and "(e, a) \<in> timers s"
  shows "\<exists>d. v_asked V (kern s) (timerfd s) = Some d \<and> d \<le> max e (v_now V (kern s) + 100)"
proof -
  have ok: "timers_ok V s" by (rule timer_reachable_ok [OF assms(1-3)])
  then have "finite (timers s)" by (simp add: timers_ok_def queue_inv_def entries_ok_def)
  then have "fst (Min (timers s)) \<le> e" using fst_mono_lex [OF Min_le [OF _ assms(4)]] by simp
  moreover obtain d where "v_asked V (kern s) (timerfd s) = Some d" "d \<le> max (fst (Min (timers s))) (v_now V (kern s) + 100)"
    using ok assms(4) by (auto simp: timers_ok_def armed_def)
  ultimately show ?thesis by auto
qed

text \<open>
  C34. A timer event at time \<open>n\<close> runs the callbacks of exactly those timers that are due, each once, in
  the order of their deadlines, whatever the callbacks do to the queue.
\<close>

theorem expired_run_in_order:
  assumes "timer_laws api V" and "callbacks_ok call" and "timer_reachable api call s" and "timer_now api s = Inr (n, s1)"
    and "TimerQueue_handleRead api call s = Inr ((), s')"
  shows "timers_ran s' = timers_ran s @ map (\<lambda>(e, a). (a, timer_sequence (the (timer_heap s a)))) (sorted_list_of_set {(e, a) \<in> timers s. e \<le> n})"
  using timer_event_ok [OF assms(1,2) timer_reachable_ok [OF assms(1-3)] assms(4)] assms(5)
  by (simp add: tries_def entry_ids_def due_def)


section \<open>An instance\<close>

text \<open>A system whose clock stands still, with room for two timers.\<close>

definition ref_timer :: "(int \<rightharpoonup> int) timerApi" where
  "ref_timer =
     \<lparr>t_epoll = \<lparr>epoll_ctl = (\<lambda>_ _ _ _ k. (True, k)), epoll_wait = (\<lambda>_ _ k. (Some [], k))\<rparr>,
      timerfd_create = (\<lambda>k. (7, k)),
      timerfd_settime = (\<lambda>fd (sec, nsec) k. (True, k(fd \<mapsto> 28900000000 + sec * 1000000 + nsec div 1000))),
      timerfd_read = (\<lambda>fd k. (8, k)), t_close = (\<lambda>fd k. k), gettimeofday = (\<lambda>k. ((100, 0), k)),
      t_new = (\<lambda>used k. if \<not> used 1 then Some 1 else if \<not> used 2 then Some 2 else None)\<rparr>"

definition ref_timer_view :: "(int \<rightharpoonup> int) timerView" where
  "ref_timer_view = \<lparr>v_now = (\<lambda>_. 28900000000), v_asked = (\<lambda>k. k)\<rparr>"

lemma ref_timer_laws: "timer_laws ref_timer ref_timer_view"
  by (auto simp: timer_laws_def ref_timer_def ref_timer_view_def UINTPTR_MAX_def Let_def split: if_splits)

definition idle :: "nat \<Rightarrow> (int \<rightharpoonup> int, nat) timerState \<Rightarrow> nat timer_op list" where
  "idle cb s = []"

lemma idle_ok: "callbacks_ok idle"
  by (simp add: callbacks_ok_def idle_def)

text \<open>A new queue, and the queue with one timer.\<close>

definition example_queue :: "(int \<rightharpoonup> int, nat) timerState" where
  "example_queue =
     \<lparr>chan_heap = [3 \<mapsto> \<lparr>ch_fd = 7, ch_events = 0 OR kReadEvent, ch_revents = 0, ch_index = kAdded, ch_logHup = True, ch_tied = False,
                         ch_eventHandling = False, ch_addedToLoop = True\<rparr>],
      poll_channels = [7 \<mapsto> 3], events_size = kInitEventListSize, kern = Map.empty, in_loop = True, loop_eventHandling = False,
      activeChannels = [], currentActiveChannel = None, timerfd = 7, timerfdChannel = 3, timer_heap = Map.empty, timers = {},
      activeTimers = {}, callingExpiredTimers = False, cancelingTimers = {}, s_numCreated = 0, timer_functors = [], timers_ran = []\<rparr>"

definition example_timer :: "(int \<rightharpoonup> int, nat) timerState" where
  "example_timer = example_queue\<lparr>kern := [7 \<mapsto> 28900000100], timer_heap := [1 \<mapsto> Timer_ctor 9 5 (Fin 0) 1], timers := {(5, 1)},
     activeTimers := {(1, 1)}, s_numCreated := 1\<rparr>"

lemma example_queue_reachable: "timer_reachable ref_timer idle example_queue"
proof (rule timer_reachable.start [of _ 3 0 Map.empty])
  show "TimerQueue_ctor ref_timer 3 0 (new_reactor Map.empty) = Inr example_queue"
    by (simp add: TimerQueue_ctor_def createTimerfd_def ref_timer_def new_reactor_def enableReading_def set_events_def set_chan_def
        the_chan_def chain_def modify_def Channel_ctor_def Channel_update_def updateChannel_def assertInLoopThread_def
        EPollPoller_updateChannel_def EPollPoller_update_def ensure_def index_defs Let_def example_queue_def)
qed

lemma example_timer_reachable: "timer_reachable ref_timer idle example_timer"
proof (rule timer_reachable.step [OF example_queue_reachable, of "LoopOp (OpAdd 9 5 (Fin 0))"])
  show "step_ok (LoopOp (OpAdd 9 5 (Fin 0)) :: nat timer_act)" by (simp add: interval_ok_def)
  show "timer_step ref_timer idle (LoopOp (OpAdd 9 5 (Fin 0))) example_queue = Inr ((), example_timer)"
    by (simp add: addTimer_def new_timer_def timer_runInLoop_def addTimerInLoop_def TimerQueue_insert_def sizes_agree_def the_timer_def
        chain_def ensure_def state_def modify_def ret_def assertInLoopThread_def resetTimerfd_def timer_now_def Timestamp_now_def
        check_int64_def howMuchTimeFromNow_def kMicroSecondsPerSecond_def lift_def c_div_nonneg c_mod_nonneg Timer_ctor_def Let_def
        ref_timer_def example_queue_def example_timer_def)
qed


theorem timer_armed_in_time_witness:
  "timer_reachable ref_timer idle example_timer \<and>
   (\<exists>d. kern example_timer 7 = Some d \<and> d \<le> max 5 (28900000000 + 100))"
proof -
  have "(5, 1) \<in> timers example_timer" "timerfd example_timer = 7" by (simp_all add: example_timer_def example_queue_def)
  with timer_armed_in_time [OF ref_timer_laws idle_ok example_timer_reachable, of 5 1] example_timer_reachable
  show ?thesis by (simp add: ref_timer_view_def)
qed

theorem expired_run_in_order_witness:
  "\<exists>s'. TimerQueue_handleRead ref_timer idle example_timer = Inr ((), s') \<and> timers_ran s' = [(1, 1)]"
proof -
  have n: "timer_now ref_timer example_timer = Inr (28900000000, example_timer)"
    by (simp add: timer_now_def ref_timer_def Timestamp_now_def check_int64_def kMicroSecondsPerSecond_def)
  have due: "due 28900000000 example_timer = {(5, 1)}" by (auto simp: example_timer_def due_def)
  have t: "timer_heap example_timer 1 = Some (Timer_ctor 9 5 (Fin 0) 1)" "timers_ran example_timer = []" "in_loop example_timer"
    "timers example_timer = {(5, 1)}" "activeTimers example_timer = {(1, 1)}"
    by (simp_all add: example_timer_def example_queue_def)
  let ?s1 = "example_timer\<lparr>timers := {}, activeTimers := {}\<rparr>"
  have "queue_inv {} example_timer"
    using timer_reachable_ok [OF ref_timer_laws idle_ok example_timer_reachable] by (simp add: timers_ok_def)
  from getExpired_ok [OF this refl, of 28900000000] have g: "getExpired 28900000000 example_timer = Inr ([(5, 1)], ?s1)"
    by (simp add: due t entry_ids_def Timer_ctor_def del: One_nat_def)
  have "readTimerfd ref_timer example_timer = Inr ((), example_timer)" by (simp add: readTimerfd_def ref_timer_def)
  then have "\<exists>s'. TimerQueue_handleRead ref_timer idle example_timer = Inr ((), s')"
    using n g t
    by (simp add: TimerQueue_handleRead_def chain_def assertInLoopThread_def modify_def Timer_run_def the_timer_def state_def idle_def
        ret_def TimerQueue_reset_def Timer_ctor_def delete_timer_def Timestamp_valid_def Timestamp_invalid_def del: One_nat_def)
  then obtain s' where s': "TimerQueue_handleRead ref_timer idle example_timer = Inr ((), s')" by blast
  from expired_run_in_order [OF ref_timer_laws idle_ok example_timer_reachable n s'] s' show ?thesis
    unfolding due [unfolded due_def] by (simp add: t(1,2) Timer_ctor_def del: One_nat_def)
qed

end
