(* ===== verification/EventLoop.thy ===== *)
theory EventLoop
  imports TimerQueue
begin

text \<open>
  \<^verbatim>\<open>EventLoop\<close>: the loop thread and the threads that hand functors to it. The loop is a machine that steps from
  statement to statement, so that calls of other threads can fall between any two; a call of \<^verbatim>\<open>queueInLoop\<close>
  or \<^verbatim>\<open>quit\<close> in another thread is itself two steps, the change under the mutex and the wake-up. What a
  functor or the handler of a channel does is the list of calls it makes to the loop. The lemmas show that no
  wake-up is lost and that every functor runs once, in the order of the queue.
\<close>


section \<open>Construction\<close>

record 'k loopApi = "'k timerApi" +
  sys_eventfd :: "'k \<Rightarrow> int \<times> 'k"

definition createEventfd :: "'k loopApi \<Rightarrow> 'k \<Rightarrow> (int \<times> 'k) res" where
  "createEventfd api k = (case sys_eventfd api k of (fd, k') \<Rightarrow> if fd < 0 then Inl (Fatal ''eventfd'') else Inr (fd, k'))"

definition kPollTimeMs :: int where "kPollTimeMs = 10000"

text \<open>The channels of the timer queue and of the wake-up descriptor are at the addresses \<open>ta\<close> and \<open>wa\<close>.\<close>

definition EventLoop_ctor :: "'k loopApi \<Rightarrow> bool \<Rightarrow> nat \<Rightarrow> nat \<Rightarrow> 64 word \<Rightarrow> 'k \<Rightarrow> (int \<times> ('k, 'cb) timerState) res" where
  "EventLoop_ctor api loopInThisThread ta wa numCreated k =
     andThen (TimerQueue_ctor (timerApi.truncate api) ta numCreated (new_reactor k)) (\<lambda>s.
     andThen (createEventfd api (kern s)) (\<lambda>(wakeupFd, k).
     if loopInThisThread then Inl (Fatal ''Another EventLoop'')
     else andThen (enableReading (t_epoll api) wa (s\<lparr>kern := k, chan_heap := (chan_heap s)(wa \<mapsto> Channel_ctor wakeupFd)\<rparr>)) (\<lambda>(_, s).
          Inr (wakeupFd, s))))"

definition EventLoop_dtor :: "'k loopApi \<Rightarrow> nat \<Rightarrow> int \<Rightarrow> ('k, 'cb, unit) timer_prog" where
  "EventLoop_dtor api wa wakeupFd =
     chain (disableAll (t_epoll api) wa) (\<lambda>_.
     chain (Channel_remove (t_epoll api) wa) (\<lambda>_.
     modify (\<lambda>s. s\<lparr>kern := t_close api wakeupFd (kern s)\<rparr>)))"

definition EventLoop_hasChannel :: "nat \<Rightarrow> (('k, 'z) reactor_scheme, bool) prog" where
  "EventLoop_hasChannel a = chain assertInLoopThread (\<lambda>_. hasChannel a)"

text \<open>The timers of the loop.\<close>

definition runAt :: "'k timerApi \<Rightarrow> int \<Rightarrow> 'cb \<Rightarrow> ('k, 'cb, timerId) timer_prog" where
  "runAt api time cb = addTimer api cb time (Fin 0)"

definition runAfter :: "'k timerApi \<Rightarrow> double \<Rightarrow> 'cb \<Rightarrow> ('k, 'cb, timerId) timer_prog" where
  "runAfter api delay cb = chain (timer_now api) (\<lambda>now. chain (lift (addTime now delay)) (\<lambda>time. runAt api time cb))"

definition runEvery :: "'k timerApi \<Rightarrow> double \<Rightarrow> 'cb \<Rightarrow> ('k, 'cb, timerId) timer_prog" where
  "runEvery api interval cb = chain (timer_now api) (\<lambda>now. chain (lift (addTime now interval)) (\<lambda>time. addTimer api cb time interval))"

definition EventLoop_cancel :: "timerId \<Rightarrow> ('k, 'cb, unit) timer_prog" where
  "EventLoop_cancel tid = TimerQueue_cancel tid"


section \<open>The machine\<close>

datatype 'f loop_op = QueueOp 'f | RunOp 'f | QuitOp

datatype 'c active = WakeChannel | OtherChannel 'c

text \<open>Where the loop thread is; in the two loops, what is left to do and the calls left of the current callback.\<close>

datatype ('f, 'c) loop_pc =
    Outside
  | AtWhile
  | AtPoll
  | Handling "'c active list" "'f loop_op list"
  | AtPending
  | Running "'f list" "'f loop_op list"

text \<open>
  \<open>wakeup_counter\<close> is the counter of the event descriptor; \<open>posters\<close> counts the calls in other threads that have made their
  change and not yet written to it. \<open>lp_queued\<close> and \<open>lp_ran\<close> record the functors queued and run.
\<close>

record ('f, 'c) evLoop =
  looping :: bool
  quit_flag :: bool
  eventHandling :: bool
  callingPendingFunctors :: bool
  iteration :: nat
  pendingFunctors :: "'f list"
  lp_pc :: "('f, 'c) loop_pc"
  wakeup_counter :: nat
  posters :: nat
  lp_queued :: "'f list"
  lp_ran :: "'f list"

definition new_loop :: "('f, 'c) evLoop" where
  "new_loop =
     \<lparr>looping = False, quit_flag = False, eventHandling = False, callingPendingFunctors = False, iteration = 0, pendingFunctors = [],
      lp_pc = Outside, wakeup_counter = 0, posters = 0, lp_queued = [], lp_ran = []\<rparr>"

text \<open>Writing one to the descriptor fails, and is logged, when the counter is at its maximum.\<close>

definition wakeup :: "('f, 'c) evLoop \<Rightarrow> ('f, 'c) evLoop" where
  "wakeup s = (if wakeup_counter s < 2 ^ 64 - 2 then s\<lparr>wakeup_counter := wakeup_counter s + 1\<rparr> else s)"

definition EventLoop_handleRead :: "('f, 'c) evLoop \<Rightarrow> ('f, 'c) evLoop" where
  "EventLoop_handleRead s = s\<lparr>wakeup_counter := 0\<rparr>"

definition push_functor :: "'f \<Rightarrow> ('f, 'c) evLoop \<Rightarrow> ('f, 'c) evLoop" where
  "push_functor f s = s\<lparr>pendingFunctors := pendingFunctors s @ [f], lp_queued := lp_queued s @ [f]\<rparr>"

definition queueSize :: "('f, 'c) evLoop \<Rightarrow> nat" where
  "queueSize s = length (pendingFunctors s)"

text \<open>In the thread of the loop.\<close>

definition EventLoop_queueInLoop :: "'f \<Rightarrow> ('f, 'c) evLoop \<Rightarrow> ('f, 'c) evLoop" where
  "EventLoop_queueInLoop f s =
     (let s' = push_functor f s in if callingPendingFunctors s' then wakeup s' else s')"

text \<open>One call of a callback; \<^verbatim>\<open>runInLoop\<close> runs its functor at once, so the calls of the functor come first.\<close>

fun do_op :: "('f \<Rightarrow> ('f, 'c) evLoop \<Rightarrow> 'f loop_op list) \<Rightarrow> 'f loop_op \<Rightarrow> ('f, 'c) evLoop \<Rightarrow> 'f loop_op list \<times> ('f, 'c) evLoop" where
  "do_op script (QueueOp f) s = ([], EventLoop_queueInLoop f s)"
| "do_op script (RunOp f) s = (script f s, s)"
| "do_op script QuitOp s = ([], s\<lparr>quit_flag := True\<rparr>)"

text \<open>\<^verbatim>\<open>doPendingFunctors\<close> up to its loop: the queue is swapped out under the mutex.\<close>

definition doPendingFunctors :: "('f, 'c) evLoop \<Rightarrow> ('f, 'c) evLoop" where
  "doPendingFunctors s = s\<lparr>callingPendingFunctors := True, pendingFunctors := [], lp_pc := Running (pendingFunctors s) []\<rparr>"

text \<open>The next statement of \<^verbatim>\<open>loop()\<close>; \<open>as\<close> are the channels that \<^verbatim>\<open>poll\<close> reports.\<close>

definition loop_thread ::
  "('f \<Rightarrow> ('f, 'c) evLoop \<Rightarrow> 'f loop_op list) \<Rightarrow> ('c \<Rightarrow> ('f, 'c) evLoop \<Rightarrow> 'f loop_op list) \<Rightarrow> 'c active list \<Rightarrow> ('f, 'c) evLoop \<Rightarrow> ('f, 'c) evLoop res" where
  "loop_thread script handler as s =
     (case lp_pc s of
        Outside \<Rightarrow> asserting (\<not> looping s) (Inr (s\<lparr>looping := True, quit_flag := False, lp_pc := AtWhile\<rparr>))
      | AtWhile \<Rightarrow> Inr (if quit_flag s then s\<lparr>looping := False, lp_pc := Outside\<rparr> else s\<lparr>lp_pc := AtPoll\<rparr>)
      | AtPoll \<Rightarrow> Inr (s\<lparr>iteration := iteration s + 1, eventHandling := True, lp_pc := Handling as []\<rparr>)
      | Handling [] [] \<Rightarrow> Inr (s\<lparr>eventHandling := False, lp_pc := AtPending\<rparr>)
      | Handling (WakeChannel # cs) [] \<Rightarrow> Inr (EventLoop_handleRead (s\<lparr>lp_pc := Handling cs []\<rparr>))
      | Handling (OtherChannel c # cs) [] \<Rightarrow> Inr (s\<lparr>lp_pc := Handling cs (handler c s)\<rparr>)
      | Handling cs (x # xs) \<Rightarrow> Inr (case do_op script x s of (ys, s') \<Rightarrow> s'\<lparr>lp_pc := Handling cs (ys @ xs)\<rparr>)
      | AtPending \<Rightarrow> Inr (doPendingFunctors s)
      | Running [] [] \<Rightarrow> Inr (s\<lparr>callingPendingFunctors := False, lp_pc := AtWhile\<rparr>)
      | Running (f # fs) [] \<Rightarrow> Inr (s\<lparr>lp_ran := lp_ran s @ [f], lp_pc := Running fs (script f s)\<rparr>)
      | Running fs (x # xs) \<Rightarrow> Inr (case do_op script x s of (ys, s') \<Rightarrow> s'\<lparr>lp_pc := Running fs (ys @ xs)\<rparr>))"

text \<open>The other threads: \<^verbatim>\<open>queueInLoop\<close> and \<^verbatim>\<open>quit\<close> up to the wake-up, and the wake-up.\<close>

datatype ('f, 'c) loop_act = LoopThread "'c active list" | Post 'f | PostQuit | Wake

definition post :: "'f \<Rightarrow> ('f, 'c) evLoop \<Rightarrow> ('f, 'c) evLoop" where
  "post f s = (push_functor f s)\<lparr>posters := posters s + 1\<rparr>"

definition post_quit :: "('f, 'c) evLoop \<Rightarrow> ('f, 'c) evLoop" where
  "post_quit s = s\<lparr>quit_flag := True, posters := posters s + 1\<rparr>"

fun loop_action ::
  "('f \<Rightarrow> ('f, 'c) evLoop \<Rightarrow> 'f loop_op list) \<Rightarrow> ('c \<Rightarrow> ('f, 'c) evLoop \<Rightarrow> 'f loop_op list) \<Rightarrow> ('f, 'c) loop_act \<Rightarrow> ('f, 'c) evLoop \<Rightarrow> ('f, 'c) evLoop res" where
  "loop_action script handler (LoopThread as) s = loop_thread script handler as s"
| "loop_action script handler (Post f) s = Inr (post f s)"
| "loop_action script handler PostQuit s = Inr (post_quit s)"
| "loop_action script handler Wake s = Inr (if posters s = 0 then s else (wakeup s)\<lparr>posters := posters s - 1\<rparr>)"

text \<open>The descriptor is reported only when it is readable.\<close>

fun act_ok :: "('f, 'c) loop_act \<Rightarrow> ('f, 'c) evLoop \<Rightarrow> bool" where
  "act_ok (LoopThread as) s \<longleftrightarrow> (lp_pc s = AtPoll \<and> WakeChannel \<in> set as \<longrightarrow> 0 < wakeup_counter s)"
| "act_ok _ s \<longleftrightarrow> True"

inductive loop_reachable ::
  "('f \<Rightarrow> ('f, 'c) evLoop \<Rightarrow> 'f loop_op list) \<Rightarrow> ('c \<Rightarrow> ('f, 'c) evLoop \<Rightarrow> 'f loop_op list) \<Rightarrow> ('f, 'c) evLoop \<Rightarrow> bool" for script handler where
  start: "loop_reachable script handler new_loop"
| step: "loop_reachable script handler s \<Longrightarrow> act_ok x s \<Longrightarrow> loop_action script handler x s = Inr s' \<Longrightarrow> loop_reachable script handler s'"


section \<open>The invariant\<close>

text \<open>What is left of the functors that were swapped out.\<close>

fun swapped :: "('f, 'c) loop_pc \<Rightarrow> 'f list" where
  "swapped (Running fs xs) = fs"
| "swapped _ = []"

text \<open>In these places a functor in the queue is seen only if the loop is woken.\<close>

fun needs_wakeup :: "('f, 'c) loop_pc \<Rightarrow> bool" where
  "needs_wakeup AtWhile \<longleftrightarrow> True"
| "needs_wakeup AtPoll \<longleftrightarrow> True"
| "needs_wakeup (Running fs xs) \<longleftrightarrow> True"
| "needs_wakeup _ \<longleftrightarrow> False"

definition woken :: "('f, 'c) evLoop \<Rightarrow> bool" where
  "woken s \<longleftrightarrow> 0 < wakeup_counter s \<or> 0 < posters s"

definition loop_inv :: "('f, 'c) evLoop \<Rightarrow> bool" where
  "loop_inv s \<longleftrightarrow>
     (lp_pc s \<noteq> Outside \<longleftrightarrow> looping s) \<and>
     (callingPendingFunctors s \<longleftrightarrow> (\<exists>fs xs. lp_pc s = Running fs xs)) \<and>
     (needs_wakeup (lp_pc s) \<and> pendingFunctors s \<noteq> [] \<longrightarrow> woken s) \<and>
     (lp_pc s = AtPoll \<and> quit_flag s \<longrightarrow> woken s) \<and>
     (lp_pc s = Outside \<and> pendingFunctors s \<noteq> [] \<longrightarrow> woken s) \<and>
     lp_queued s = lp_ran s @ swapped (lp_pc s) @ pendingFunctors s"

lemma wakeup_fields [simp]:
  "looping (wakeup s) = looping s" "quit_flag (wakeup s) = quit_flag s" "callingPendingFunctors (wakeup s) = callingPendingFunctors s"
  "pendingFunctors (wakeup s) = pendingFunctors s" "lp_pc (wakeup s) = lp_pc s" "posters (wakeup s) = posters s"
  "lp_queued (wakeup s) = lp_queued s" "lp_ran (wakeup s) = lp_ran s" "0 < wakeup_counter (wakeup s)"
  by (simp_all add: wakeup_def)

text \<open>A call in a callback keeps what the loop has left to do, and wakes the loop if that is needed.\<close>

lemma do_op_ok:
  assumes "do_op script x s = (ys, s')" and "callingPendingFunctors s \<longleftrightarrow> needs_wakeup (lp_pc s)"
    and "needs_wakeup (lp_pc s) \<and> pendingFunctors s \<noteq> [] \<longrightarrow> woken s"
    and "lp_queued s = lp_ran s @ swapped (lp_pc s) @ pendingFunctors s"
  shows "looping s' = looping s \<and> callingPendingFunctors s' = callingPendingFunctors s \<and> lp_pc s' = lp_pc s \<and>
    (needs_wakeup (lp_pc s) \<and> pendingFunctors s' \<noteq> [] \<longrightarrow> woken s') \<and> lp_queued s' = lp_ran s' @ swapped (lp_pc s) @ pendingFunctors s'"
proof (cases x)
  case (QueueOp f)
  with assms(1) have s': "s' = EventLoop_queueInLoop f s" by simp
  show ?thesis
  proof (cases "callingPendingFunctors s")
    case True
    then have "s' = wakeup (push_functor f s)" by (simp add: s' EventLoop_queueInLoop_def push_functor_def)
    then show ?thesis using assms(4) by (simp add: push_functor_def woken_def)
  next
    case False
    then have "s' = push_functor f s" by (simp add: s' EventLoop_queueInLoop_def push_functor_def)
    with False assms(2,4) show ?thesis by (simp add: push_functor_def)
  qed
next
  case (RunOp f)
  with assms show ?thesis by simp
next
  case QuitOp
  with assms(1) have "s' = s\<lparr>quit_flag := True\<rparr>" by simp
  with assms(3,4) show ?thesis by (simp add: woken_def)
qed

lemma loop_thread_inv:
  assumes "loop_inv s"
  shows "\<exists>s'. loop_thread script handler as s = Inr s' \<and> loop_inv s'"
proof (cases "lp_pc s")
  case Outside
  with assms show ?thesis by (simp add: loop_thread_def loop_inv_def woken_def)
next
  case AtWhile
  with assms show ?thesis by (auto simp: loop_thread_def loop_inv_def woken_def)
next
  case AtPoll
  with assms show ?thesis by (simp add: loop_thread_def loop_inv_def)
next
  case (Handling cs xs)
  show ?thesis
  proof (cases xs)
    case Nil
    with Handling assms show ?thesis
      by (auto simp: loop_thread_def loop_inv_def EventLoop_handleRead_def split: list.splits active.splits)
  next
    case (Cons x xs')
    obtain ys s' where d: "do_op script x s = (ys, s')" by fastforce
    from do_op_ok [OF d] Handling Cons assms d show ?thesis
      by (auto simp: loop_thread_def loop_inv_def split: list.splits active.splits)
  qed
next
  case AtPending
  with assms show ?thesis by (simp add: loop_thread_def doPendingFunctors_def loop_inv_def)
next
  case (Running fs xs)
  show ?thesis
  proof (cases xs)
    case Nil
    with Running assms show ?thesis by (auto simp: loop_thread_def loop_inv_def woken_def split: list.splits)
  next
    case (Cons x xs')
    obtain ys s' where d: "do_op script x s = (ys, s')" by fastforce
    from do_op_ok [OF d] Running Cons assms d show ?thesis
      by (auto simp: loop_thread_def loop_inv_def woken_def split: list.splits)
  qed
qed

lemma loop_action_inv:
  assumes "loop_inv s"
  shows "\<exists>s'. loop_action script handler x s = Inr s' \<and> loop_inv s'"
proof (cases x)
  case (LoopThread as)
  with loop_thread_inv [OF assms] show ?thesis by simp
next
  case (Post f)
  with assms show ?thesis by (auto simp: post_def push_functor_def loop_inv_def woken_def)
next
  case PostQuit
  with assms show ?thesis by (auto simp: post_quit_def loop_inv_def woken_def)
next
  case Wake
  with assms show ?thesis by (auto simp: loop_inv_def woken_def)
qed

lemma loop_reachable_inv: "loop_reachable script handler s \<Longrightarrow> loop_inv s"
proof (induction rule: loop_reachable.induct)
  case start
  show ?case by (simp add: loop_inv_def new_loop_def woken_def)
next
  case (step s x s')
  with loop_action_inv [OF step.IH, of script handler x] show ?case by auto
qed


section \<open>Properties\<close>


text \<open>
  C36. The functors that ran, those swapped out of the queue and still to run, and those in the queue are
  together exactly the functors that were queued, in the order in which they were queued: each runs
  once, none is lost or overtaken.
\<close>

theorem functors_run_once_in_order:
  assumes "loop_reachable script handler s"
  shows "lp_queued s = lp_ran s @ swapped (lp_pc s) @ pendingFunctors s"
  using loop_reachable_inv [OF assms] by (simp add: loop_inv_def)


section \<open>An instance\<close>

text \<open>A functor 0 that queues the functor 1 while it runs.\<close>

definition example_script :: "nat \<Rightarrow> (nat, nat) evLoop \<Rightarrow> nat loop_op list" where
  "example_script f s = (if f = 0 then [QueueOp 1] else [])"

definition example_handler :: "nat \<Rightarrow> (nat, nat) evLoop \<Rightarrow> nat loop_op list" where
  "example_handler c s = []"

primrec loop_actions :: "(nat, nat) loop_act list \<Rightarrow> (nat, nat) evLoop \<Rightarrow> (nat, nat) evLoop res" where
  "loop_actions [] s = Inr s"
| "loop_actions (x # xs) s =
     andThen (loop_action example_script example_handler x s) (loop_actions xs)"

primrec acts_ok :: "(nat, nat) loop_act list \<Rightarrow> (nat, nat) evLoop \<Rightarrow> bool" where
  "acts_ok [] s \<longleftrightarrow> True"
| "acts_ok (x # xs) s \<longleftrightarrow> act_ok x s \<and> (\<forall>s' \<in> set_option (case loop_action example_script example_handler x s of Inl _ \<Rightarrow> None | Inr s' \<Rightarrow> Some s'). acts_ok xs s')"

lemma loop_actions_reachable:
  "loop_reachable example_script example_handler s \<Longrightarrow> acts_ok xs s \<Longrightarrow> loop_actions xs s = Inr s' \<Longrightarrow> loop_reachable example_script example_handler s'"
proof (induction xs arbitrary: s)
  case (Cons x xs)
  then obtain s1 where s1: "loop_action example_script example_handler x s = Inr s1" "loop_actions xs s1 = Inr s'"
    by (auto simp: andThen_eq_Inr)
  with Cons.prems have "act_ok x s" "acts_ok xs s1" by simp_all
  with Cons.IH [OF loop_reachable.step [OF Cons.prems(1) _ s1(1)]] s1(2) show ?case by blast
qed simp

definition example_acts :: "(nat, nat) loop_act list" where
  "example_acts =
     [LoopThread [], LoopThread [], Post 0, Wake, LoopThread [WakeChannel], LoopThread [], LoopThread [], LoopThread [], LoopThread [],
      LoopThread [], LoopThread [], LoopThread []]"

definition example_loop :: "(nat, nat) evLoop" where
  "example_loop =
     \<lparr>looping = True, quit_flag = False, eventHandling = False, callingPendingFunctors = False, iteration = 1, pendingFunctors = [1],
      lp_pc = AtPoll, wakeup_counter = 1, posters = 0, lp_queued = [0, 1], lp_ran = [0]\<rparr>"

lemma example_loop_reachable: "loop_reachable example_script example_handler example_loop"
proof (rule loop_actions_reachable [OF loop_reachable.start, of example_acts])
  show "acts_ok example_acts new_loop"
    by (simp add: example_acts_def new_loop_def loop_thread_def post_def push_functor_def wakeup_def EventLoop_handleRead_def
        example_script_def EventLoop_queueInLoop_def doPendingFunctors_def Let_def)
  show "loop_actions example_acts new_loop = Inr example_loop"
    by (simp add: example_acts_def new_loop_def loop_thread_def post_def push_functor_def wakeup_def EventLoop_handleRead_def
        example_script_def EventLoop_queueInLoop_def doPendingFunctors_def Let_def example_loop_def)
qed


theorem functors_run_once_in_order_witness:
  "loop_reachable example_script example_handler example_loop \<and>
   lp_queued example_loop = lp_ran example_loop @ pendingFunctors example_loop \<and> lp_queued example_loop = [0, 1]"
proof -
  have "swapped (lp_pc example_loop) = []" "lp_queued example_loop = [0, 1]" by (simp_all add: example_loop_def)
  with functors_run_once_in_order [OF example_loop_reachable] example_loop_reachable show ?thesis by simp
qed

end
