(* ===== verification/Sockets.thy ===== *)
theory Sockets
  imports Poller
begin

text \<open>
  Internet addresses (\<^verbatim>\<open>InetAddress\<close>), the wrappers of the socket calls (\<^verbatim>\<open>SocketsOps\<close>, \<^verbatim>\<open>Socket\<close>) and the listening
  socket of a server (\<^verbatim>\<open>Acceptor\<close>). The two members of a \<^verbatim>\<open>sockaddr_in\<close> in network order are their object
  representations, strings of bytes. A system call gives its result, the value \<^verbatim>\<open>errno\<close> gets when the result is
  negative, and the next state of the kernel; what else a statement that logs does to \<^verbatim>\<open>errno\<close> is the argument
  \<open>errno_after_log\<close>. The texts of non-fatal log statements are left out.

  The lemmas show the text form of addresses with its round trip, that an accepted socket is
  non-blocking and reaches the callback, and that a failed \<^verbatim>\<open>accept\<close> ends the process.
\<close>

section \<open>Addresses\<close>

abbreviation AF_INET :: nat where "AF_INET \<equiv> 2"

record sockaddr_in =
  sin_family :: nat
  sin_port :: string
  sin_addr :: string

definition zero_sockaddr :: sockaddr_in where
  "zero_sockaddr = \<lparr>sin_family = 0, sin_port = replicate 2 NUL, sin_addr = replicate 4 NUL\<rparr>"

text \<open>\<^verbatim>\<open>inet_ntop\<close> and \<^verbatim>\<open>inet_pton\<close> for \<^verbatim>\<open>AF_INET\<close>: four decimal numerals without leading zeros.\<close>

fun join_dots :: "string list \<Rightarrow> string" where
  "join_dots [] = []"
| "join_dots [s] = s"
| "join_dots (s # t # ss) = s @ CHR ''.'' # join_dots (t # ss)"

fun split_dots :: "string \<Rightarrow> string list" where
  "split_dots [] = [[]]"
| "split_dots (c # s) =
     (if c = CHR ''.'' then [] # split_dots s
      else case split_dots s of [] \<Rightarrow> [[c]] | t # ts \<Rightarrow> (c # t) # ts)"

definition inet_ntop :: "string \<Rightarrow> string" where
  "inet_ntop a = join_dots (map (\<lambda>c. show_nat (of_char c)) a)"

definition octet :: "string \<Rightarrow> char option" where
  "octet s = map_option char_of (find (\<lambda>n. show_nat n = s) [0..<256])"

definition inet_pton :: "string \<Rightarrow> string option" where
  "inet_pton s = (let os = map octet (split_dots s) in if length os = 4 \<and> None \<notin> set os then Some (map the os) else None)"

definition fromIpPort :: "string \<Rightarrow> 16 word \<Rightarrow> sockaddr_in \<Rightarrow> sockaddr_in" where
  "fromIpPort ip port addr =
     (let addr = addr\<lparr>sin_family := AF_INET, sin_port := be_bytes 2 (unat port)\<rparr>
      in case inet_pton ip of Some a \<Rightarrow> addr\<lparr>sin_addr := a\<rparr> | None \<Rightarrow> addr)"

text \<open>\<^verbatim>\<open>toIp\<close> on a buffer with the text \<open>b\<close> leaves the text of another family as it is.\<close>

definition sockets_toIp :: "nat \<Rightarrow> sockaddr_in \<Rightarrow> string \<Rightarrow> string res" where
  "sockets_toIp bufsize addr b =
     (if sin_family addr = AF_INET then asserting (bufsize \<ge> 16) (Inr (inet_ntop (sin_addr addr))) else Inr b)"

definition sockets_toIpPort :: "nat \<Rightarrow> sockaddr_in \<Rightarrow> string \<Rightarrow> string res" where
  "sockets_toIpPort bufsize addr b =
     andThen (sockets_toIp bufsize addr b) (\<lambda>b.
     let n = length b; port = be_val (sin_port addr)
     in asserting (bufsize > n) (Inr (b @ snprintf_trunc (bufsize - n) (CHR '':'' # show_nat port))))"

definition InetAddress_ctor :: "16 word \<Rightarrow> bool \<Rightarrow> sockaddr_in" where
  "InetAddress_ctor port loopbackOnly =
     (let ip = (if loopbackOnly then 0x7f000001 else 0)
      in \<lparr>sin_family = AF_INET, sin_port = be_bytes 2 (unat port), sin_addr = be_bytes 4 ip\<rparr>)"

definition InetAddress_ip :: "string \<Rightarrow> 16 word \<Rightarrow> sockaddr_in" where
  "InetAddress_ip ip port = fromIpPort (c_str ip) port zero_sockaddr"

definition setIpPort :: "string \<Rightarrow> 16 word \<Rightarrow> sockaddr_in \<Rightarrow> sockaddr_in" where
  "setIpPort ip port addr = fromIpPort (c_str ip) port zero_sockaddr"

definition toIpPort :: "sockaddr_in \<Rightarrow> string res" where
  "toIpPort addr = sockets_toIpPort 64 addr []"

definition toIp :: "sockaddr_in \<Rightarrow> string res" where
  "toIp addr = sockets_toIp 64 addr []"

text \<open>On a little-endian host the members as integers have their bytes swapped.\<close>

definition ipNetEndian :: "sockaddr_in \<Rightarrow> nat res" where
  "ipNetEndian addr = asserting (sin_family addr = AF_INET) (Inr (be_val (rev (sin_addr addr))))"

definition portNetEndian :: "sockaddr_in \<Rightarrow> nat" where
  "portNetEndian addr = be_val (rev (sin_port addr))"

definition toPort :: "sockaddr_in \<Rightarrow> nat" where
  "toPort addr = be_val (rev (be_bytes 2 (portNetEndian addr)))"


section \<open>System calls\<close>

abbreviation EPERM :: int where "EPERM \<equiv> 1"
abbreviation EINTR :: int where "EINTR \<equiv> 4"
abbreviation EBADF :: int where "EBADF \<equiv> 9"
abbreviation EAGAIN :: int where "EAGAIN \<equiv> 11"
abbreviation EMFILE :: int where "EMFILE \<equiv> 24"
abbreviation EPROTO :: int where "EPROTO \<equiv> 71"
abbreviation ECONNABORTED :: int where "ECONNABORTED \<equiv> 103"

abbreviation O_NONBLOCK :: int where "O_NONBLOCK \<equiv> 0x800"
abbreviation FD_CLOEXEC :: int where "FD_CLOEXEC \<equiv> 1"

datatype fcntl_cmd = F_GETFL | F_SETFL int | F_GETFD | F_SETFD int

datatype sock_option = TCP_NODELAY | SO_REUSEADDR | SO_REUSEPORT | SO_KEEPALIVE

type_synonym 'k syscall_fun = "'k \<Rightarrow> (int \<times> int) \<times> 'k"
type_synonym 'k addr_fun = "'k \<Rightarrow> (int \<times> int \<times> sockaddr_in) \<times> 'k"

record 'k netApi =
  n_epoll :: "'k epollApi"
  n_socket :: "nat \<Rightarrow> 'k syscall_fun"
  n_fcntl :: "int \<Rightarrow> fcntl_cmd \<Rightarrow> 'k syscall_fun"
  n_bind :: "int \<Rightarrow> sockaddr_in \<Rightarrow> 'k syscall_fun"
  n_listen :: "int \<Rightarrow> 'k syscall_fun"
  n_accept :: "int \<Rightarrow> 'k addr_fun"
  n_connect :: "int \<Rightarrow> sockaddr_in \<Rightarrow> 'k syscall_fun"
  n_close :: "int \<Rightarrow> 'k syscall_fun"
  n_shutdown_wr :: "int \<Rightarrow> 'k syscall_fun"
  n_so_error :: "int \<Rightarrow> 'k \<Rightarrow> (int \<times> int \<times> int) \<times> 'k"
  n_setsockopt :: "int \<Rightarrow> sock_option \<Rightarrow> bool \<Rightarrow> 'k syscall_fun"
  n_getsockname :: "int \<Rightarrow> 'k addr_fun"
  n_getpeername :: "int \<Rightarrow> 'k addr_fun"
  n_open_null :: "'k syscall_fun"
  errno_after_log :: "int \<Rightarrow> int"

record 'k netState = "'k reactor" +
  net_errno :: int

type_synonym ('k, 'z, 'a) net_prog = "(('k, 'z) netState_scheme, 'a) prog"

definition syscall :: "'k syscall_fun \<Rightarrow> ('k, 'z, int) net_prog" where
  "syscall f s = (case f (kern s) of ((r, e), k) \<Rightarrow> Inr (r, s\<lparr>kern := k, net_errno := if r < 0 then e else net_errno s\<rparr>))"

text \<open>A call that fails leaves the address it was given.\<close>

definition syscall_addr :: "sockaddr_in \<Rightarrow> 'k addr_fun \<Rightarrow> ('k, 'z, int \<times> sockaddr_in) net_prog" where
  "syscall_addr addr f s =
     (case f (kern s) of
        ((r, e, a), k) \<Rightarrow>
          Inr ((r, if r < 0 then addr else a), s\<lparr>kern := k, net_errno := if r < 0 then e else net_errno s\<rparr>))"

definition logging :: "'k netApi \<Rightarrow> ('k, 'z, unit) net_prog" where
  "logging api = modify (\<lambda>s. s\<lparr>net_errno := errno_after_log api (net_errno s)\<rparr>)"


section \<open>SocketsOps\<close>

definition setNonBlockAndCloseOnExec :: "'k netApi \<Rightarrow> int \<Rightarrow> ('k, 'z, unit) net_prog" where
  "setNonBlockAndCloseOnExec api sockfd =
     chain (syscall (n_fcntl api sockfd F_GETFL)) (\<lambda>flags.
     chain (syscall (n_fcntl api sockfd (F_SETFL (flags OR O_NONBLOCK)))) (\<lambda>_.
     chain (syscall (n_fcntl api sockfd F_GETFD)) (\<lambda>flags.
     chain (syscall (n_fcntl api sockfd (F_SETFD (flags OR FD_CLOEXEC)))) (\<lambda>_.
     ret ()))))"

definition createNonblockingOrDie :: "'k netApi \<Rightarrow> nat \<Rightarrow> ('k, 'z, int) net_prog" where
  "createNonblockingOrDie api family =
     chain (syscall (n_socket api family)) (\<lambda>sockfd.
     chain (if sockfd < 0 then fail (Fatal ''sockets::createNonblockingOrDie'') else ret ()) (\<lambda>_.
     chain (setNonBlockAndCloseOnExec api sockfd) (\<lambda>_.
     ret sockfd)))"

definition bindOrDie :: "'k netApi \<Rightarrow> int \<Rightarrow> sockaddr_in \<Rightarrow> ('k, 'z, unit) net_prog" where
  "bindOrDie api sockfd addr =
     chain (syscall (n_bind api sockfd addr)) (\<lambda>r. if r < 0 then fail (Fatal ''sockets::bindOrDie'') else ret ())"

definition listenOrDie :: "'k netApi \<Rightarrow> int \<Rightarrow> ('k, 'z, unit) net_prog" where
  "listenOrDie api sockfd =
     chain (syscall (n_listen api sockfd)) (\<lambda>r. if r < 0 then fail (Fatal ''sockets::listenOrDie'') else ret ())"

text \<open>The errors \<^verbatim>\<open>accept\<close> expects; every other one is logged as fatal, under one of two texts.\<close>

definition accept_expected :: "int \<Rightarrow> bool" where
  "accept_expected e \<longleftrightarrow> e \<in> {EAGAIN, ECONNABORTED, EINTR, EPROTO, EPERM, EMFILE}"

definition accept_unexpected :: "int \<Rightarrow> bool" where
  "accept_unexpected e \<longleftrightarrow> e \<in> {EBADF, 14, 22, 23, 105, 12, 88, 95}"

definition sockets_accept :: "'k netApi \<Rightarrow> int \<Rightarrow> sockaddr_in \<Rightarrow> ('k, 'z, int \<times> sockaddr_in) net_prog" where
  "sockets_accept api sockfd addr =
     chain (syscall_addr addr (n_accept api sockfd)) (\<lambda>(connfd, addr).
     chain (setNonBlockAndCloseOnExec api connfd) (\<lambda>_.
     if connfd < 0 then
       chain state (\<lambda>s.
       let savedErrno = net_errno s in
       chain (logging api) (\<lambda>_.
       if accept_expected savedErrno then chain (modify (\<lambda>s. s\<lparr>net_errno := savedErrno\<rparr>)) (\<lambda>_. ret (connfd, addr))
       else if accept_unexpected savedErrno then fail (Fatal (''unexpected error of ::accept '' @ to_string savedErrno))
       else fail (Fatal (''unknown error of ::accept '' @ to_string savedErrno))))
     else ret (connfd, addr)))"

definition sockets_connect :: "'k netApi \<Rightarrow> int \<Rightarrow> sockaddr_in \<Rightarrow> ('k, 'z, int) net_prog" where
  "sockets_connect api sockfd addr = syscall (n_connect api sockfd addr)"

definition sockets_close :: "'k netApi \<Rightarrow> int \<Rightarrow> ('k, 'z, unit) net_prog" where
  "sockets_close api sockfd = chain (syscall (n_close api sockfd)) (\<lambda>r. if r < 0 then logging api else ret ())"

definition sockets_shutdownWrite :: "'k netApi \<Rightarrow> int \<Rightarrow> ('k, 'z, unit) net_prog" where
  "sockets_shutdownWrite api sockfd = chain (syscall (n_shutdown_wr api sockfd)) (\<lambda>r. if r < 0 then logging api else ret ())"

definition getSocketError :: "'k netApi \<Rightarrow> int \<Rightarrow> ('k, 'z, int) net_prog" where
  "getSocketError api sockfd s =
     (case n_so_error api sockfd (kern s) of
        ((r, e, optval), k) \<Rightarrow> if r < 0 then Inr (e, s\<lparr>kern := k, net_errno := e\<rparr>) else Inr (optval, s\<lparr>kern := k\<rparr>))"

definition getLocalAddr :: "'k netApi \<Rightarrow> int \<Rightarrow> ('k, 'z, sockaddr_in) net_prog" where
  "getLocalAddr api sockfd = chain (syscall_addr zero_sockaddr (n_getsockname api sockfd)) (\<lambda>(_, localaddr). ret localaddr)"

definition getPeerAddr :: "'k netApi \<Rightarrow> int \<Rightarrow> ('k, 'z, sockaddr_in) net_prog" where
  "getPeerAddr api sockfd = chain (syscall_addr zero_sockaddr (n_getpeername api sockfd)) (\<lambda>(_, peeraddr). ret peeraddr)"

definition isSelfConnect :: "'k netApi \<Rightarrow> int \<Rightarrow> ('k, 'z, bool) net_prog" where
  "isSelfConnect api sockfd =
     chain (getLocalAddr api sockfd) (\<lambda>localaddr.
     chain (getPeerAddr api sockfd) (\<lambda>peeraddr.
     ret (sin_family localaddr = AF_INET \<and> sin_port localaddr = sin_port peeraddr \<and> sin_addr localaddr = sin_addr peeraddr)))"


section \<open>Socket\<close>

text \<open>A \<^verbatim>\<open>Socket\<close> is its descriptor.\<close>

definition Socket_dtor :: "'k netApi \<Rightarrow> int \<Rightarrow> ('k, 'z, unit) net_prog" where
  "Socket_dtor api sockfd = sockets_close api sockfd"

definition bindAddress :: "'k netApi \<Rightarrow> int \<Rightarrow> sockaddr_in \<Rightarrow> ('k, 'z, unit) net_prog" where
  "bindAddress api sockfd addr = bindOrDie api sockfd addr"

definition Socket_listen :: "'k netApi \<Rightarrow> int \<Rightarrow> ('k, 'z, unit) net_prog" where
  "Socket_listen api sockfd = listenOrDie api sockfd"

definition Socket_accept :: "'k netApi \<Rightarrow> int \<Rightarrow> sockaddr_in \<Rightarrow> ('k, 'z, int \<times> sockaddr_in) net_prog" where
  "Socket_accept api sockfd peeraddr =
     chain (sockets_accept api sockfd zero_sockaddr) (\<lambda>(connfd, addr).
     ret (connfd, if connfd \<ge> 0 then addr else peeraddr))"

definition Socket_shutdownWrite :: "'k netApi \<Rightarrow> int \<Rightarrow> ('k, 'z, unit) net_prog" where
  "Socket_shutdownWrite api sockfd = sockets_shutdownWrite api sockfd"

definition set_option :: "'k netApi \<Rightarrow> int \<Rightarrow> sock_option \<Rightarrow> bool \<Rightarrow> ('k, 'z, unit) net_prog" where
  "set_option api sockfd opt on = chain (syscall (n_setsockopt api sockfd opt on)) (\<lambda>_. ret ())"

definition Socket_setTcpNoDelay :: "'k netApi \<Rightarrow> int \<Rightarrow> bool \<Rightarrow> ('k, 'z, unit) net_prog" where
  "Socket_setTcpNoDelay api sockfd = set_option api sockfd TCP_NODELAY"

definition setReuseAddr :: "'k netApi \<Rightarrow> int \<Rightarrow> bool \<Rightarrow> ('k, 'z, unit) net_prog" where
  "setReuseAddr api sockfd = set_option api sockfd SO_REUSEADDR"

definition setReusePort :: "'k netApi \<Rightarrow> int \<Rightarrow> bool \<Rightarrow> ('k, 'z, unit) net_prog" where
  "setReusePort api sockfd on =
     chain (syscall (n_setsockopt api sockfd SO_REUSEPORT on)) (\<lambda>r. if r < 0 \<and> on then logging api else ret ())"

definition setKeepAlive :: "'k netApi \<Rightarrow> int \<Rightarrow> bool \<Rightarrow> ('k, 'z, unit) net_prog" where
  "setKeepAlive api sockfd = set_option api sockfd SO_KEEPALIVE"


section \<open>Acceptor\<close>

record 'k acceptor = "'k netState" +
  acc_fd :: int
  acc_channel :: nat
  acc_listenning :: bool
  acc_idleFd :: int

type_synonym ('k, 'z, 'a) acc_prog = "(('k, 'z) acceptor_scheme, 'a) prog"

text \<open>The members are initialised in their order; the channel is at address \<open>a\<close>.\<close>

definition Acceptor_ctor :: "'k netApi \<Rightarrow> nat \<Rightarrow> sockaddr_in \<Rightarrow> bool \<Rightarrow> 'k netState \<Rightarrow> 'k acceptor res" where
  "Acceptor_ctor api a listenAddr reuseport s =
     andThen (createNonblockingOrDie api (sin_family listenAddr) s) (\<lambda>(fd, s).
     andThen (syscall (n_open_null api) (s\<lparr>chan_heap := (chan_heap s)(a \<mapsto> Channel_ctor fd)\<rparr>)) (\<lambda>(idleFd, s).
     asserting (idleFd \<ge> 0)
       (andThen (chain (setReuseAddr api fd True) (\<lambda>_. chain (setReusePort api fd reuseport) (\<lambda>_. bindAddress api fd listenAddr)) s) (\<lambda>(_, s).
        Inr (netState.extend s \<lparr>acc_fd = fd, acc_channel = a, acc_listenning = False, acc_idleFd = idleFd\<rparr>)))))"

definition Acceptor_dtor :: "'k netApi \<Rightarrow> ('k, 'z, unit) acc_prog" where
  "Acceptor_dtor api =
     chain state (\<lambda>s.
     chain (disableAll (n_epoll api) (acc_channel s)) (\<lambda>_.
     chain (Channel_remove (n_epoll api) (acc_channel s)) (\<lambda>_.
     chain (syscall (n_close api (acc_idleFd s))) (\<lambda>_.
     ret ()))))"

definition Acceptor_listen :: "'k netApi \<Rightarrow> ('k, 'z, unit) acc_prog" where
  "Acceptor_listen api =
     chain assertInLoopThread (\<lambda>_.
     chain (modify (\<lambda>s. s\<lparr>acc_listenning := True\<rparr>)) (\<lambda>_.
     chain state (\<lambda>s.
     chain (Socket_listen api (acc_fd s)) (\<lambda>_.
     enableReading (n_epoll api) (acc_channel s)))))"

text \<open>Giving up the spare descriptor to accept a connection and close it.\<close>

definition use_idleFd :: "'k netApi \<Rightarrow> ('k, 'z, unit) acc_prog" where
  "use_idleFd api =
     chain state (\<lambda>s.
     chain (syscall (n_close api (acc_idleFd s))) (\<lambda>_.
     chain (syscall_addr zero_sockaddr (n_accept api (acc_fd s))) (\<lambda>(fd, _).
     chain (syscall (n_close api fd)) (\<lambda>_.
     chain (syscall (n_open_null api)) (\<lambda>idleFd.
     modify (\<lambda>s. s\<lparr>acc_idleFd := idleFd\<rparr>))))))"

definition Acceptor_handleRead :: "'k netApi \<Rightarrow> (int \<Rightarrow> sockaddr_in \<Rightarrow> ('k, 'z, unit) acc_prog) option \<Rightarrow> ('k, 'z, unit) acc_prog" where
  "Acceptor_handleRead api newConnectionCallback =
     chain assertInLoopThread (\<lambda>_.
     chain state (\<lambda>s.
     chain (Socket_accept api (acc_fd s) (InetAddress_ctor 0 False)) (\<lambda>(connfd, peerAddr).
     if connfd \<ge> 0 then
       (case newConnectionCallback of Some cb \<Rightarrow> cb connfd peerAddr | None \<Rightarrow> sockets_close api connfd)
     else
       chain (logging api) (\<lambda>_.
       chain state (\<lambda>s.
       if net_errno s = EMFILE then use_idleFd api else ret ())))))"


section \<open>The text of an address\<close>

lemma split_join_dots: "ss \<noteq> [] \<Longrightarrow> \<forall>s \<in> set ss. CHR ''.'' \<notin> set s \<Longrightarrow> split_dots (join_dots ss) = ss"
proof (induction ss rule: join_dots.induct)
  case (2 s)
  then have "CHR ''.'' \<notin> set s" by simp
  then show ?case by (induction s) auto
next
  case (3 s t ss)
  then have "split_dots (join_dots (t # ss)) = t # ss" and "CHR ''.'' \<notin> set s" by simp_all
  then show ?case by (induction s) auto
qed simp

lemma split_dots_not_Nil [simp]: "split_dots s \<noteq> []"
  by (induction s) (auto split: list.splits)

lemma join_split_dots: "join_dots (split_dots s) = s"
proof (induction s)
  case (Cons c s)
  obtain t ts where t: "split_dots s = t # ts" by (cases "split_dots s") simp_all
  with Cons show ?case by (cases ts) simp_all
qed simp

lemma octet_show: "octet (show_nat (of_char c)) = Some c"
proof -
  have "find (\<lambda>n. show_nat n = show_nat (of_char c)) [0..<256] = Some (of_char c)"
    unfolding find_Some_iff
  proof (intro exI conjI allI impI)
    show "(of_char c :: nat) < length [0..<256]" using of_char_less [of c] by simp
    then show "of_char c = [0..<256] ! of_char c" by simp
    fix j assume "j < (of_char c :: nat)"
    moreover from this have "[0..<256] ! j = j" using of_char_less [of c] by (subst nth_upt) linarith+
    ultimately show "show_nat ([0..<256] ! j) \<noteq> show_nat (of_char c)" by simp
  qed simp
  then show ?thesis by (simp add: octet_def)
qed

lemma octet_Some: "octet s = Some c \<Longrightarrow> s = show_nat (of_char c)"
  by (auto simp: octet_def find_Some_iff)

lemma show_nat_no_dot: "CHR ''.'' \<notin> set (show_nat n)"
  using show_nat_digits [of n] by (auto simp: is_digit_def)

lemma inet_pton_ntop:
  assumes "length a = 4"
  shows "inet_pton (inet_ntop a) = Some a"
proof -
  have "split_dots (inet_ntop a) = map (\<lambda>c. show_nat (of_char c)) a"
    unfolding inet_ntop_def using assms by (intro split_join_dots) (auto simp: show_nat_no_dot)
  moreover have "map octet (map (\<lambda>c. show_nat (of_char c)) a) = map Some a" by (simp add: octet_show)
  ultimately have "map octet (split_dots (inet_ntop a)) = map Some a" by simp
  then show ?thesis using assms by (simp add: inet_pton_def Let_def comp_def)
qed

lemma inet_ntop_pton:
  assumes "inet_pton s = Some a"
  shows "inet_ntop a = s" and "length a = 4"
proof -
  let ?os = "map octet (split_dots s)"
  have os: "length ?os = 4" "None \<notin> set ?os" "a = map the ?os"
    using assms by (auto simp: inet_pton_def Let_def split: if_splits)
  then show "length a = 4" by simp
  have "map (\<lambda>c. show_nat (of_char c)) a = split_dots s"
  proof (rule nth_equalityI)
    fix i assume "i < length (map (\<lambda>c. show_nat (of_char c)) a)"
    then have i: "i < length (split_dots s)" using os by simp
    then have "octet (split_dots s ! i) \<in> set ?os" by simp
    then have "octet (split_dots s ! i) \<noteq> None" using os(2) by metis
    then obtain c where "octet (split_dots s ! i) = Some c" by blast
    with i os(3) octet_Some [OF this] show "map (\<lambda>c. show_nat (of_char c)) a ! i = split_dots s ! i" by simp
  qed (use os in simp)
  then show "inet_ntop a = s" by (simp add: inet_ntop_def join_split_dots)
qed

lemma length_octet: "length (show_nat (of_char c)) \<le> 3"
  by (rule length_show_nat, rule less_le_trans [OF of_char_less]) simp_all

lemma length_inet_ntop:
  assumes "length a = 4"
  shows "length (inet_ntop a) \<le> 15"
proof -
  obtain c1 c2 c3 c4 where "a = [c1, c2, c3, c4]" using assms by (auto simp: numeral_eq_Suc length_Suc_conv)
  then show ?thesis using length_octet [of c1] length_octet [of c2] length_octet [of c3] length_octet [of c4]
    by (simp add: inet_ntop_def)
qed

lemma inet_ntop_nul_free: "length a = 4 \<Longrightarrow> NUL \<notin> set (inet_ntop a)"
proof -
  assume "length a = 4"
  then obtain c1 c2 c3 c4 where "a = [c1, c2, c3, c4]" by (auto simp: numeral_eq_Suc length_Suc_conv)
  moreover have "NUL \<notin> set (show_nat n)" for n using show_nat_digits [of n] digit_not_special by auto
  ultimately show ?thesis by (simp add: inet_ntop_def)
qed

text \<open>An address as the constructors make it.\<close>

definition sockaddr_ok :: "sockaddr_in \<Rightarrow> bool" where
  "sockaddr_ok addr \<longleftrightarrow> sin_family addr = AF_INET \<and> length (sin_port addr) = 2 \<and> length (sin_addr addr) = 4"

lemma be_val_port: "length s = 2 \<Longrightarrow> be_val s < 65536"
proof -
  assume "length s = 2"
  then have "be_val s = be_val s mod 256 ^ 2"
    using be_bytes_be_val [of s] be_val_be_bytes [of 2 "be_val s"] by simp
  also have "\<dots> < 256 ^ 2" by (rule mod_less_divisor) simp
  finally show ?thesis by simp
qed

lemma toIpPort_text:
  assumes "sockaddr_ok addr"
  shows "toIpPort addr = Inr (inet_ntop (sin_addr addr) @ CHR '':'' # show_nat (be_val (sin_port addr)))"
    and "length (inet_ntop (sin_addr addr) @ CHR '':'' # show_nat (be_val (sin_port addr))) \<le> 21"
proof -
  have ip: "length (inet_ntop (sin_addr addr)) \<le> 15" using assms by (simp add: sockaddr_ok_def length_inet_ntop)
  have port: "length (show_nat (be_val (sin_port addr))) \<le> 5"
    by (rule length_show_nat) (use assms be_val_port [of "sin_port addr"] in \<open>simp_all add: sockaddr_ok_def\<close>)
  show "length (inet_ntop (sin_addr addr) @ CHR '':'' # show_nat (be_val (sin_port addr))) \<le> 21" using ip port by simp
  show "toIpPort addr = Inr (inet_ntop (sin_addr addr) @ CHR '':'' # show_nat (be_val (sin_port addr)))"
    using assms ip port by (simp add: toIpPort_def sockets_toIpPort_def sockets_toIp_def sockaddr_ok_def snprintf_trunc_id Let_def)
qed

lemma fromIpPort_ok: "length (sin_addr addr) = 4 \<Longrightarrow> sockaddr_ok (fromIpPort ip port addr)"
  using inet_ntop_pton(2) [of ip] by (auto simp: fromIpPort_def sockaddr_ok_def Let_def split: option.splits)

lemma InetAddress_ok: "sockaddr_ok (InetAddress_ip ip port)" "sockaddr_ok (InetAddress_ctor port loopbackOnly)"
  by (simp_all add: InetAddress_ip_def fromIpPort_ok zero_sockaddr_def, simp add: InetAddress_ctor_def sockaddr_ok_def)


section \<open>Accepting\<close>

text \<open>
  What is documented of \<^verbatim>\<open>fcntl\<close> and \<^verbatim>\<open>accept\<close>, for a view \<open>fl\<close> of the kernel: the status flags and the descriptor
  flags of every open descriptor. \<^verbatim>\<open>fcntl\<close> on a descriptor that is not open fails with \<^verbatim>\<open>EBADF\<close>.
\<close>

definition fcntl_law :: "'k netApi \<Rightarrow> ('k \<Rightarrow> int \<rightharpoonup> int \<times> int) \<Rightarrow> bool" where
  "fcntl_law api fl \<longleftrightarrow>
     (\<forall>k fd. fd < 0 \<longrightarrow> fl k fd = None) \<and>
     (\<forall>k fd cmd. fl k fd = None \<longrightarrow> fst (n_fcntl api fd cmd k) = (- 1, EBADF) \<and> fl (snd (n_fcntl api fd cmd k)) = fl k) \<and>
     (\<forall>k fd a b. fl k fd = Some (a, b) \<longrightarrow>
        fst (fst (n_fcntl api fd F_GETFL k)) = a \<and> fl (snd (n_fcntl api fd F_GETFL k)) = fl k \<and>
        fst (fst (n_fcntl api fd F_GETFD k)) = b \<and> fl (snd (n_fcntl api fd F_GETFD k)) = fl k \<and>
        (\<forall>v. fst (fst (n_fcntl api fd (F_SETFL v) k)) = 0 \<and> fl (snd (n_fcntl api fd (F_SETFL v) k)) = (fl k)(fd \<mapsto> (v, b))) \<and>
        (\<forall>v. fst (fst (n_fcntl api fd (F_SETFD v) k)) = 0 \<and> fl (snd (n_fcntl api fd (F_SETFD v) k)) = (fl k)(fd \<mapsto> (a, v))))"

definition accept_law :: "'k netApi \<Rightarrow> ('k \<Rightarrow> int \<rightharpoonup> int \<times> int) \<Rightarrow> bool" where
  "accept_law api fl \<longleftrightarrow>
     (\<forall>k fd connfd e addr k'. n_accept api fd k = ((connfd, e, addr), k') \<longrightarrow>
        (if connfd < 0 then fl k' = fl k
         else fl k connfd = None \<and> (\<exists>a b. 0 \<le> a \<and> 0 \<le> b \<and> fl k' = (fl k)(connfd \<mapsto> (a, b)))))"

lemmas net_prog_defs = syscall_def syscall_addr_def chain_def ret_def state_def modify_def logging_def fail_def

lemma errno_kept: "\<exists>e. s\<lparr>kern := k\<rparr> = s\<lparr>kern := k, net_errno := e\<rparr>"
  by (rule exI [of _ "net_errno s"]) simp

lemma set_flags_open:
  assumes "fcntl_law api fl" and "fl (kern s) fd = Some (a, b)"
  shows "\<exists>k e. setNonBlockAndCloseOnExec api fd s = Inr ((), s\<lparr>kern := k, net_errno := e\<rparr>) \<and>
    fl k = (fl (kern s))(fd \<mapsto> (a OR O_NONBLOCK, b OR FD_CLOEXEC))"
proof -
  have law: "fst (fst (n_fcntl api fd F_GETFL k)) = a" "fl (snd (n_fcntl api fd F_GETFL k)) = fl k"
    "fst (fst (n_fcntl api fd F_GETFD k)) = b" "fl (snd (n_fcntl api fd F_GETFD k)) = fl k"
    "fl (snd (n_fcntl api fd (F_SETFL v) k)) = (fl k)(fd \<mapsto> (v, b))"
    "fl (snd (n_fcntl api fd (F_SETFD v) k)) = (fl k)(fd \<mapsto> (a, v))"
    if "fl k fd = Some (a, b)" for k a b v
    using assms(1) that unfolding fcntl_law_def by blast+
  define k1 where "k1 = snd (n_fcntl api fd F_GETFL (kern s))"
  define k2 where "k2 = snd (n_fcntl api fd (F_SETFL (a OR O_NONBLOCK)) k1)"
  define k3 where "k3 = snd (n_fcntl api fd F_GETFD k2)"
  define k4 where "k4 = snd (n_fcntl api fd (F_SETFD (b OR FD_CLOEXEC)) k3)"
  have k1: "fl k1 = fl (kern s)" using law(2) [OF assms(2)] by (simp add: k1_def)
  have k2: "fl k2 = (fl (kern s))(fd \<mapsto> (a OR O_NONBLOCK, b))" using law(5) [of k1 a b] assms(2) by (simp add: k2_def k1)
  have k3: "fl k3 = fl k2" using law(4) [of k2 "a OR O_NONBLOCK" b] by (simp add: k3_def k2)
  have k4: "fl k4 = (fl (kern s))(fd \<mapsto> (a OR O_NONBLOCK, b OR FD_CLOEXEC))"
    using law(6) [of k3 "a OR O_NONBLOCK" b] by (simp add: k4_def k3 k2)
  have "\<exists>e. setNonBlockAndCloseOnExec api fd s = Inr ((), s\<lparr>kern := k4, net_errno := e\<rparr>)"
    using law(1) [OF assms(2)] law(3) [of k2 "a OR O_NONBLOCK" b] k2
    by (auto simp: setNonBlockAndCloseOnExec_def net_prog_defs k1_def k2_def k3_def k4_def errno_kept split: prod.splits)
  with k4 show ?thesis by blast
qed

lemma set_flags_closed:
  assumes "fcntl_law api fl" and "fd < 0"
  shows "\<exists>k. setNonBlockAndCloseOnExec api fd s = Inr ((), s\<lparr>kern := k, net_errno := EBADF\<rparr>)"
proof -
  have "fst (n_fcntl api fd cmd k) = (- 1, EBADF)" for cmd k
    using assms unfolding fcntl_law_def by blast
  then have "\<exists>k'. n_fcntl api fd cmd k = ((- 1, EBADF), k')" for cmd k
    by (cases "n_fcntl api fd cmd k") (metis fst_conv)
  then obtain K where "\<And>cmd k. n_fcntl api fd cmd k = ((- 1, EBADF), K cmd k)" by metis
  then show ?thesis by (auto simp: setNonBlockAndCloseOnExec_def net_prog_defs)
qed

lemma accept_ok:
  assumes "fcntl_law api fl" and "accept_law api fl" and "n_accept api fd (kern s) = ((connfd, e, addr), k)" and "0 \<le> connfd"
  shows "\<exists>k' e' a b. sockets_accept api fd zero s = Inr ((connfd, addr), s\<lparr>kern := k', net_errno := e'\<rparr>) \<and>
    fl k' = (fl (kern s))(connfd \<mapsto> (a OR O_NONBLOCK, b OR FD_CLOEXEC))"
proof -
  obtain a b where fl: "fl k = (fl (kern s))(connfd \<mapsto> (a, b))"
    using assms(2-4) unfolding accept_law_def by (metis not_less)
  have "fl (kern (s\<lparr>kern := k\<rparr>)) connfd = Some (a, b)" using fl by simp
  from set_flags_open [OF assms(1) this] obtain k' e' where
    "setNonBlockAndCloseOnExec api connfd (s\<lparr>kern := k\<rparr>) = Inr ((), s\<lparr>kern := k', net_errno := e'\<rparr>)"
    "fl k' = (fl k)(connfd \<mapsto> (a OR O_NONBLOCK, b OR FD_CLOEXEC))"
    by auto
  moreover from this(2) have "fl k' = (fl (kern s))(connfd \<mapsto> (a OR O_NONBLOCK, b OR FD_CLOEXEC))" by (simp only: fl fun_upd_upd)
  ultimately have "\<exists>k' e'. setNonBlockAndCloseOnExec api connfd (s\<lparr>kern := k\<rparr>) = Inr ((), s\<lparr>kern := k', net_errno := e'\<rparr>) \<and>
    fl k' = (fl (kern s))(connfd \<mapsto> (a OR O_NONBLOCK, b OR FD_CLOEXEC))" by blast
  then show ?thesis using assms(3,4) by (fastforce simp: sockets_accept_def net_prog_defs)
qed

lemma accept_fails:
  assumes "fcntl_law api fl" and "n_accept api fd (kern s) = ((connfd, e, addr), k)" and "connfd < 0"
  shows "sockets_accept api fd zero s = Inl (Fatal ''unexpected error of ::accept 9'')"
proof -
  obtain k' where "setNonBlockAndCloseOnExec api connfd (s\<lparr>kern := k, net_errno := e\<rparr>) = Inr ((), s\<lparr>kern := k', net_errno := EBADF\<rparr>)"
    using set_flags_closed [OF assms(1,3), of "s\<lparr>kern := k, net_errno := e\<rparr>"] by auto
  moreover have "to_string EBADF = ''9''" by code_simp
  ultimately show ?thesis
    using assms(2,3) by (simp add: sockets_accept_def net_prog_defs Let_def accept_expected_def accept_unexpected_def)
qed


section \<open>Properties\<close>

text \<open>
  C40. An address that is given in the dotted form is printed again as it was given, with its port;
  any other text gives the address 0.0.0.0.
\<close>

theorem address_roundtrip:
  "toIpPort (InetAddress_ip ip port) =
     Inr ((if inet_pton (c_str ip) = None then ''0.0.0.0'' else c_str ip) @ '':'' @ show_nat (unat port)) \<and>
   toIp (InetAddress_ip ip port) = Inr (if inet_pton (c_str ip) = None then ''0.0.0.0'' else c_str ip) \<and>
   toPort (InetAddress_ip ip port) = unat port"
proof -
  let ?a = "InetAddress_ip ip port"
  have port: "sin_port ?a = be_bytes 2 (unat port)" "unat port < 65536"
    using unsigned_less [of port, where ?'a = nat] by (simp_all add: InetAddress_ip_def fromIpPort_def Let_def split: option.splits)
  have zero: "inet_ntop (replicate 4 NUL) = ''0.0.0.0''" by code_simp
  have ip: "inet_ntop (sin_addr ?a) = (if inet_pton (c_str ip) = None then ''0.0.0.0'' else c_str ip)"
  proof (cases "inet_pton (c_str ip)")
    case None
    then show ?thesis using zero by (simp add: InetAddress_ip_def fromIpPort_def Let_def zero_sockaddr_def)
  next
    case (Some a)
    then show ?thesis using inet_ntop_pton(1) [OF Some] by (simp add: InetAddress_ip_def fromIpPort_def Let_def)
  qed
  have "be_val (sin_port ?a) = unat port" using port by (simp add: be_val_be_bytes)
  with toIpPort_text(1) [OF InetAddress_ok(1), of ip port] ip have 1: "toIpPort ?a =
     Inr ((if inet_pton (c_str ip) = None then ''0.0.0.0'' else c_str ip) @ '':'' @ show_nat (unat port))" by simp
  have 2: "toIp ?a = Inr (inet_ntop (sin_addr ?a))"
    using InetAddress_ok(1) [of ip port] by (simp add: toIp_def sockets_toIp_def sockaddr_ok_def)
  have "length (rev (sin_port ?a)) = 2" using port by simp
  from be_bytes_be_val [of "rev (sin_port ?a)"] this have "be_bytes 2 (be_val (rev (sin_port ?a))) = rev (sin_port ?a)" by simp
  then have 3: "toPort ?a = unat port" using port by (simp add: toPort_def portNetEndian_def be_val_be_bytes)
  from 1 2 3 ip show ?thesis by simp
qed

text \<open>
  C39. What the listening socket does with a connection. When \<^verbatim>\<open>accept\<close> succeeds, the callback gets the new
  descriptor, which is non-blocking and close-on-exec, and the address of the peer, and no other descriptor changes; without a
  callback the descriptor is closed. When \<^verbatim>\<open>accept\<close> fails, for whatever reason, the process ends: the calls of
  \<^verbatim>\<open>fcntl\<close> on the descriptor -1 replace \<^verbatim>\<open>errno\<close> by \<^verbatim>\<open>EBADF\<close> before it is read, so that the expected errors,
  and the spare descriptor kept for \<^verbatim>\<open>EMFILE\<close>, are never reached.
\<close>

theorem acceptor_outcomes:
  assumes "fcntl_law api fl" and "accept_law api fl" and "in_loop s"
    and "n_accept api (acc_fd s) (kern s) = ((connfd, e, addr), k)"
  shows "if connfd < 0 then Acceptor_handleRead api cb s = Inl (Fatal ''unexpected error of ::accept 9'')
    else (\<exists>k' e' a b. fl k' = (fl (kern s))(connfd \<mapsto> (a OR O_NONBLOCK, b OR FD_CLOEXEC)) \<and>
      Acceptor_handleRead api cb s =
        (case cb of Some f \<Rightarrow> f connfd addr | None \<Rightarrow> sockets_close api connfd) (s\<lparr>kern := k', net_errno := e'\<rparr>))"
proof (cases "connfd < 0")
  case True
  with assms(3) accept_fails [OF assms(1,4), of zero_sockaddr] show ?thesis
    by (simp add: Acceptor_handleRead_def Socket_accept_def assertInLoopThread_def net_prog_defs)
next
  case False
  then obtain k' e' a b where k': "sockets_accept api (acc_fd s) zero_sockaddr s = Inr ((connfd, addr), s\<lparr>kern := k', net_errno := e'\<rparr>)"
    "fl k' = (fl (kern s))(connfd \<mapsto> (a OR O_NONBLOCK, b OR FD_CLOEXEC))"
    using accept_ok [OF assms(1,2,4), of zero_sockaddr] by auto
  then have "Acceptor_handleRead api cb s =
      (case cb of Some f \<Rightarrow> f connfd addr | None \<Rightarrow> sockets_close api connfd) (s\<lparr>kern := k', net_errno := e'\<rparr>)"
    using False assms(3) by (simp add: Acceptor_handleRead_def Socket_accept_def assertInLoopThread_def net_prog_defs split: option.split)
  with k'(2) False show ?thesis by auto
qed

text \<open>A kernel with a table of descriptors and a queue of connections that wait to be accepted.\<close>

record small_kernel =
  sk_flags :: "int \<rightharpoonup> int \<times> int"
  sk_next :: int
  sk_waiting :: "sockaddr_in list"

fun small_fcntl :: "int \<Rightarrow> fcntl_cmd \<Rightarrow> small_kernel \<Rightarrow> (int \<times> int) \<times> small_kernel" where
  "small_fcntl fd cmd k =
     (if fd < 0 then ((- 1, EBADF), k)
      else case sk_flags k fd of
        None \<Rightarrow> ((- 1, EBADF), k)
      | Some (a, b) \<Rightarrow>
          (case cmd of
             F_GETFL \<Rightarrow> ((a, 0), k)
           | F_GETFD \<Rightarrow> ((b, 0), k)
           | F_SETFL v \<Rightarrow> ((0, 0), k\<lparr>sk_flags := (sk_flags k)(fd \<mapsto> (v, b))\<rparr>)
           | F_SETFD v \<Rightarrow> ((0, 0), k\<lparr>sk_flags := (sk_flags k)(fd \<mapsto> (a, v))\<rparr>)))"

definition small_accept :: "small_kernel \<Rightarrow> (int \<times> int \<times> sockaddr_in) \<times> small_kernel" where
  "small_accept k =
     (case sk_waiting k of
        addr # rest \<Rightarrow>
          if 0 \<le> sk_next k \<and> sk_flags k (sk_next k) = None
          then ((sk_next k, 0, addr),
                k\<lparr>sk_flags := (sk_flags k)(sk_next k \<mapsto> (0, 0)), sk_next := sk_next k + 1, sk_waiting := rest\<rparr>)
          else ((- 1, EMFILE, zero_sockaddr), k)
      | [] \<Rightarrow> ((- 1, EAGAIN, zero_sockaddr), k))"

definition small_api :: "small_kernel netApi" where
  "small_api =
     \<lparr>n_epoll = \<lparr>epoll_ctl = \<lambda>_ _ _ _ k. (True, k), epoll_wait = \<lambda>_ _ k. (None, k)\<rparr>, n_socket = \<lambda>_ k. ((0, 0), k), n_fcntl = small_fcntl,
      n_bind = \<lambda>_ _ k. ((0, 0), k), n_listen = \<lambda>_ k. ((0, 0), k), n_accept = \<lambda>_. small_accept, n_connect = \<lambda>_ _ k. ((0, 0), k),
      n_close = \<lambda>fd k. ((0, 0), k\<lparr>sk_flags := (sk_flags k)(fd := None)\<rparr>), n_shutdown_wr = \<lambda>_ k. ((0, 0), k),
      n_so_error = \<lambda>_ k. ((0, 0, 0), k), n_setsockopt = \<lambda>_ _ _ k. ((0, 0), k), n_getsockname = \<lambda>_ k. ((0, 0, zero_sockaddr), k),
      n_getpeername = \<lambda>_ k. ((0, 0, zero_sockaddr), k), n_open_null = \<lambda>k. ((0, 0), k), errno_after_log = id\<rparr>"

definition small_view :: "small_kernel \<Rightarrow> int \<rightharpoonup> int \<times> int" where
  "small_view k fd = (if fd < 0 then None else sk_flags k fd)"

lemma small_fcntl_law: "fcntl_law small_api small_view"
  unfolding fcntl_law_def by (auto simp: small_api_def small_view_def fun_eq_iff split: if_splits)

lemma small_accept_law: "accept_law small_api small_view"
  unfolding accept_law_def
  by (auto simp: small_api_def small_view_def small_accept_def fun_eq_iff split: list.splits if_splits intro!: exI [of _ "0 :: int"])

definition small_acceptor :: "small_kernel acceptor" where
  "small_acceptor =
     \<lparr>chan_heap = Map.empty, poll_channels = Map.empty, events_size = 16,
      kern = \<lparr>sk_flags = [3 \<mapsto> (0, 0)], sk_next = 4, sk_waiting = [InetAddress_ctor 80 True]\<rparr>, in_loop = True, loop_eventHandling = False,
      activeChannels = [], currentActiveChannel = None, net_errno = 0, acc_fd = 3, acc_channel = 0, acc_listenning = True, acc_idleFd = 3\<rparr>"

theorem acceptor_outcomes_witness:
  "(\<exists>k' e' a b. small_view k' = (small_view (kern small_acceptor))(4 \<mapsto> (a OR O_NONBLOCK, b OR FD_CLOEXEC)) \<and>
     Acceptor_handleRead small_api (Some (\<lambda>fd addr. ret ())) small_acceptor = Inr ((), small_acceptor\<lparr>kern := k', net_errno := e'\<rparr>))"
proof -
  have 1: "in_loop small_acceptor" by (simp add: small_acceptor_def)
  have 2: "n_accept small_api (acc_fd small_acceptor) (kern small_acceptor) =
      ((4, 0, InetAddress_ctor 80 True), \<lparr>sk_flags = [3 \<mapsto> (0, 0), 4 \<mapsto> (0, 0)], sk_next = 5, sk_waiting = []\<rparr>)"
    by (simp add: small_api_def small_accept_def small_acceptor_def)
  from acceptor_outcomes [OF small_fcntl_law small_accept_law 1 2, of "Some (\<lambda>fd addr. ret ())"] show ?thesis
    by (simp add: ret_def)
qed

end
