(* ===== verification/ThreadPool.thy ===== *)
theory ThreadPool
  imports Text "HOL-Library.Multiset"
begin

text \<open>
  \<^verbatim>\<open>ThreadPool\<close>, \<^verbatim>\<open>CountDownLatch\<close> and \<^verbatim>\<open>Thread\<close>. A pool is a monitor: a method that waits for a condition gives up
  the mutex, so it is split where it waits, and the parts are the steps that threads interleave. A
  waiting thread is in the state \<open>WWaiting\<close> or \<open>PWaiting\<close> until it is notified; it may also wake up
  spuriously. Which of several waiting threads a notification reaches is an argument, and so is which
  tasks throw: \<open>throws\<close>. The lemmas show that tasks are taken in order and once, that the queue stays within its bound, and that no task is
  left while every worker sleeps.
\<close>


section \<open>ThreadPool\<close>

datatype 't worker = WStarting | WReady | WWaiting | WNotified | WHas "'t option" | WExited

datatype 't producer = PAdding 't | PWaiting 't | PDone

text \<open>
  The workers are \<^verbatim>\<open>threads_\<close>, \<open>tp_threadNames\<close> their names, and \<open>tp_joined\<close> says that they have been
  joined. \<open>tp_initRuns\<close> counts the calls of the init callback; \<open>tp_added\<close>, \<open>tp_taken\<close> and \<open>tp_done\<close> record
  the tasks queued, taken from the queue, and run.
\<close>

record 't threadPool =
  tp_name :: string
  tp_threadInitCallback :: bool
  tp_maxQueueSize :: nat
  tp_running :: bool
  tp_queue :: "'t list"
  tp_workers :: "'t worker list"
  tp_threadNames :: "string list"
  tp_joined :: bool
  tp_initRuns :: nat
  tp_producers :: "'t producer list"
  tp_added :: "'t list"
  tp_taken :: "'t list"
  tp_done :: "'t list"

definition ThreadPool_ctor :: "string \<Rightarrow> 't threadPool" where
  "ThreadPool_ctor nameArg =
     \<lparr>tp_name = nameArg, tp_threadInitCallback = False, tp_maxQueueSize = 0, tp_running = False, tp_queue = [], tp_workers = [],
      tp_threadNames = [], tp_joined = False, tp_initRuns = 0, tp_producers = [], tp_added = [], tp_taken = [], tp_done = []\<rparr>"

definition setThreadInitCallback :: "'t threadPool \<Rightarrow> 't threadPool" where
  "setThreadInitCallback p = p\<lparr>tp_threadInitCallback := True\<rparr>"

text \<open>The argument is an \<^verbatim>\<open>int\<close>, the member a \<^verbatim>\<open>size_t\<close>.\<close>

definition setMaxQueueSize :: "int \<Rightarrow> 't threadPool \<Rightarrow> 't threadPool" where
  "setMaxQueueSize maxSize p = p\<lparr>tp_maxQueueSize := nat (maxSize mod 2 ^ 64)\<rparr>"

text \<open>A negative number is a huge argument of \<^verbatim>\<open>reserve\<close>, which throws.\<close>

definition ThreadPool_start :: "int \<Rightarrow> 't threadPool \<Rightarrow> 't threadPool res" where
  "ThreadPool_start numThreads p =
     asserting (tp_workers p = [])
       (if numThreads < 0 then Inl (Exception ''length_error'')
        else Inr (p\<lparr>tp_running := True, tp_workers := replicate (nat numThreads) WStarting,
                    tp_threadNames := map (\<lambda>i. tp_name p @ snprintf_trunc 32 (to_string (i + 1))) [0..numThreads - 1],
                    tp_initRuns := tp_initRuns p + (if numThreads = 0 \<and> tp_threadInitCallback p then 1 else 0)\<rparr>))"

definition ThreadPool_queueSize :: "'t threadPool \<Rightarrow> nat" where
  "ThreadPool_queueSize p = length (tp_queue p)"

definition isFull :: "'t threadPool \<Rightarrow> bool" where
  "isFull p \<longleftrightarrow> tp_maxQueueSize p > 0 \<and> length (tp_queue p) \<ge> tp_maxQueueSize p"

text \<open>The conditions; \<open>k\<close> selects one of the waiting threads.\<close>

definition waiting_indices :: "('a \<Rightarrow> bool) \<Rightarrow> 'a list \<Rightarrow> nat list" where
  "waiting_indices P xs = filter (\<lambda>i. P (xs ! i)) [0..<length xs]"

definition select :: "nat \<Rightarrow> nat list \<Rightarrow> nat option" where
  "select k ns = (if ns = [] then None else Some (ns ! (k mod length ns)))"

fun is_PWaiting :: "'t producer \<Rightarrow> bool" where
  "is_PWaiting (PWaiting t) \<longleftrightarrow> True"
| "is_PWaiting _ \<longleftrightarrow> False"

fun wake_producer :: "'t producer \<Rightarrow> 't producer" where
  "wake_producer (PWaiting t) = PAdding t"
| "wake_producer x = x"

definition notify_notEmpty :: "nat \<Rightarrow> 't threadPool \<Rightarrow> 't threadPool" where
  "notify_notEmpty k p =
     (case select k (waiting_indices (\<lambda>w. w = WWaiting) (tp_workers p)) of
        None \<Rightarrow> p
      | Some i \<Rightarrow> p\<lparr>tp_workers := (tp_workers p)[i := WNotified]\<rparr>)"

definition notify_notFull :: "nat \<Rightarrow> 't threadPool \<Rightarrow> 't threadPool" where
  "notify_notFull k p =
     (case select k (waiting_indices is_PWaiting (tp_producers p)) of
        None \<Rightarrow> p
      | Some i \<Rightarrow> p\<lparr>tp_producers := (tp_producers p)[i := wake_producer (tp_producers p ! i)]\<rparr>)"

definition notifyAll_notEmpty :: "'t threadPool \<Rightarrow> 't threadPool" where
  "notifyAll_notEmpty p = p\<lparr>tp_workers := map (\<lambda>w. if w = WWaiting then WNotified else w) (tp_workers p)\<rparr>"

text \<open>\<^verbatim>\<open>stop\<close> up to the joins, and the joins: they wait for the workers, and a thread is joined once.\<close>

definition ThreadPool_stop :: "'t threadPool \<Rightarrow> 't threadPool" where
  "ThreadPool_stop p = notifyAll_notEmpty (p\<lparr>tp_running := False\<rparr>)"

definition stop_joins :: "'t threadPool \<Rightarrow> 't threadPool res" where
  "stop_joins p =
     (if tp_workers p = [] then Inr p
      else asserting (\<not> tp_joined p)
        (if \<forall>w \<in> set (tp_workers p). w = WExited then Inr (p\<lparr>tp_joined := True\<rparr>) else Inl Blocked))"

definition ThreadPool_dtor :: "'t threadPool \<Rightarrow> 't threadPool res" where
  "ThreadPool_dtor p = (if tp_running p then stop_joins (ThreadPool_stop p) else Inr p)"

text \<open>A pool without threads runs the task at once; otherwise the caller is a producer from here on.\<close>

definition addTask :: "('t \<Rightarrow> bool) \<Rightarrow> 't \<Rightarrow> 't threadPool \<Rightarrow> 't threadPool res" where
  "addTask throws task p =
     (if tp_workers p = [] then
        if throws task then Inl (Exception ''task'')
        else Inr (p\<lparr>tp_added := tp_added p @ [task], tp_taken := tp_taken p @ [task], tp_done := tp_done p @ [task]\<rparr>)
      else Inr (p\<lparr>tp_producers := tp_producers p @ [PAdding task]\<rparr>))"

definition addTask_locked :: "nat \<Rightarrow> nat \<Rightarrow> 't threadPool \<Rightarrow> 't threadPool res" where
  "addTask_locked k i p =
     (case tp_producers p ! i of
        PAdding task \<Rightarrow>
          if isFull p then Inr (p\<lparr>tp_producers := (tp_producers p)[i := PWaiting task]\<rparr>)
          else asserting (\<not> isFull p)
            (Inr (notify_notEmpty k (p\<lparr>tp_queue := tp_queue p @ [task], tp_added := tp_added p @ [task],
                                         tp_producers := (tp_producers p)[i := PDone]\<rparr>)))
      | _ \<Rightarrow> Inr p)"

text \<open>\<^verbatim>\<open>take\<close> from the test of the loop on, by the worker \<open>i\<close>.\<close>

definition ThreadPool_take :: "nat \<Rightarrow> nat \<Rightarrow> 't threadPool \<Rightarrow> 't threadPool" where
  "ThreadPool_take k i p =
     (if tp_queue p = [] \<and> tp_running p then p\<lparr>tp_workers := (tp_workers p)[i := WWaiting]\<rparr>
      else case tp_queue p of
        [] \<Rightarrow> p\<lparr>tp_workers := (tp_workers p)[i := WHas None]\<rparr>
      | task # rest \<Rightarrow>
          (let p' = p\<lparr>tp_queue := rest, tp_taken := tp_taken p @ [task], tp_workers := (tp_workers p)[i := WHas (Some task)]\<rparr>
           in if tp_maxQueueSize p > 0 then notify_notFull k p' else p'))"

text \<open>
  The rest of the loop body of \<^verbatim>\<open>runInThread\<close>: the task, and the test whether to leave. Every handler
  of the \<^verbatim>\<open>try\<close> ends the process.
\<close>

definition worker_run :: "('t \<Rightarrow> bool) \<Rightarrow> nat \<Rightarrow> 't option \<Rightarrow> 't threadPool \<Rightarrow> 't threadPool res" where
  "worker_run throws i task p =
     (let exit = \<lambda>p. p\<lparr>tp_workers := (tp_workers p)[i := if \<not> tp_running p \<and> tp_queue p = [] then WExited else WReady]\<rparr>
      in case task of
           None \<Rightarrow> Inr (exit p)
         | Some t \<Rightarrow>
             if throws t then Inl (Fatal ''exception caught in ThreadPool'')
             else Inr (exit (p\<lparr>tp_done := tp_done p @ [t]\<rparr>)))"

definition runInThread :: "('t \<Rightarrow> bool) \<Rightarrow> nat \<Rightarrow> nat \<Rightarrow> 't threadPool \<Rightarrow> 't threadPool res" where
  "runInThread throws k i p =
     (case tp_workers p ! i of
        WStarting \<Rightarrow>
          Inr (p\<lparr>tp_initRuns := tp_initRuns p + (if tp_threadInitCallback p then 1 else 0),
                 tp_workers := (tp_workers p)[i := WReady]\<rparr>)
      | WReady \<Rightarrow> Inr (ThreadPool_take k i p)
      | WNotified \<Rightarrow> Inr (ThreadPool_take k i p)
      | WHas task \<Rightarrow> worker_run throws i task p
      | _ \<Rightarrow> Inr p)"


section \<open>CountDownLatch and Thread\<close>

text \<open>A latch is its count and the number of threads that wait on it.\<close>

record latch =
  latch_count :: int
  latch_waiting :: nat

definition CountDownLatch_ctor :: "int \<Rightarrow> latch" where
  "CountDownLatch_ctor n = \<lparr>latch_count = n, latch_waiting = 0\<rparr>"

text \<open>\<open>True\<close> when the call returns, \<open>False\<close> when the caller sleeps.\<close>

definition latch_wait :: "latch \<Rightarrow> bool \<times> latch" where
  "latch_wait l = (if latch_count l > 0 then (False, l\<lparr>latch_waiting := latch_waiting l + 1\<rparr>) else (True, l))"

definition countDown :: "latch \<Rightarrow> latch res" where
  "countDown l =
     andThen (check_int (latch_count l - 1)) (\<lambda>c.
     Inr (if c = 0 then \<lparr>latch_count = c, latch_waiting = 0\<rparr> else l\<lparr>latch_count := c\<rparr>))"

definition getCount :: "latch \<Rightarrow> int" where
  "getCount l = latch_count l"

record thread =
  th_started :: bool
  th_joined :: bool
  th_tid :: int
  th_name :: string
  th_latch :: latch
  th_sequence :: int

definition setDefaultName :: "thread \<Rightarrow> thread" where
  "setDefaultName t =
     (if th_name t = [] then t\<lparr>th_name := snprintf_trunc 32 (''Thread'' @ to_string (th_sequence t))\<rparr> else t)"

text \<open>\<open>numCreated\<close> is the counter after the increment.\<close>

definition Thread_ctor :: "string \<Rightarrow> int \<Rightarrow> thread" where
  "Thread_ctor n numCreated =
     setDefaultName
       \<lparr>th_started = False, th_joined = False, th_tid = 0, th_name = n, th_latch = CountDownLatch_ctor 1, th_sequence = numCreated\<rparr>"

text \<open>The new thread up to the point where it counts the latch down.\<close>

definition thread_begins :: "int \<Rightarrow> thread \<Rightarrow> thread res" where
  "thread_begins gettid t = andThen (countDown (th_latch t)) (\<lambda>l. Inr (t\<lparr>th_tid := gettid, th_latch := l\<rparr>))"

text \<open>\<open>created\<close> is the answer of \<^verbatim>\<open>pthread_create\<close>; \<^verbatim>\<open>start\<close> waits for the new thread.\<close>

definition Thread_start :: "int \<Rightarrow> bool \<Rightarrow> thread \<Rightarrow> thread res" where
  "Thread_start gettid created t =
     asserting (\<not> th_started t)
       (if created then
          andThen (thread_begins gettid (t\<lparr>th_started := True\<rparr>)) (\<lambda>t.
          if fst (latch_wait (th_latch t)) then asserting (th_tid t > 0) (Inr t) else Inl Blocked)
        else Inl (Fatal ''Failed in pthread_create''))"

definition Thread_join :: "thread \<Rightarrow> thread res" where
  "Thread_join t = asserting (th_started t) (asserting (\<not> th_joined t) (Inr (t\<lparr>th_joined := True\<rparr>)))"

text \<open>Whether the destructor detaches the thread.\<close>

definition Thread_dtor :: "thread \<Rightarrow> bool" where
  "Thread_dtor t \<longleftrightarrow> th_started t \<and> \<not> th_joined t"

text \<open>The thread function: the name of the thread at the end, or how the process ends.\<close>

definition Thread_runInThread :: "(string \<Rightarrow> unit res) \<Rightarrow> string res" where
  "Thread_runInThread func =
     (case func ''finished'' of
        Inr _ \<Rightarrow> Inr ''finished''
      | Inl (Exception e) \<Rightarrow> Inl (Fatal ''exception caught in Thread'')
      | Inl f \<Rightarrow> Inl f)"

lemma thread_start_returns:
  "0 < gettid \<Longrightarrow> \<exists>t. Thread_start gettid True (Thread_ctor n c) = Inr t \<and> th_started t \<and> th_tid t = gettid \<and> \<not> th_joined t"
  by (simp add: Thread_start_def Thread_ctor_def setDefaultName_def thread_begins_def CountDownLatch_ctor_def countDown_def check_int_def
      latch_wait_def)


section \<open>The steps of a pool\<close>

datatype 't pool_act =
    StartPool int | AddTask 't | ProducerStep nat nat | WorkerStep nat nat | StopPool | JoinPool | SpuriousWorker nat | SpuriousProducer nat

fun pool_step :: "('t \<Rightarrow> bool) \<Rightarrow> 't pool_act \<Rightarrow> 't threadPool \<Rightarrow> 't threadPool res" where
  "pool_step throws (StartPool n) p = ThreadPool_start n p"
| "pool_step throws (AddTask t) p = addTask throws t p"
| "pool_step throws (ProducerStep k i) p = addTask_locked k i p"
| "pool_step throws (WorkerStep k i) p = runInThread throws k i p"
| "pool_step throws StopPool p = Inr (ThreadPool_stop p)"
| "pool_step throws JoinPool p = stop_joins p"
| "pool_step throws (SpuriousWorker i) p =
     Inr (if tp_workers p ! i = WWaiting then p\<lparr>tp_workers := (tp_workers p)[i := WNotified]\<rparr> else p)"
| "pool_step throws (SpuriousProducer i) p = Inr (p\<lparr>tp_producers := (tp_producers p)[i := wake_producer (tp_producers p ! i)]\<rparr>)"

fun pool_step_ok :: "('t \<Rightarrow> bool) \<Rightarrow> 't pool_act \<Rightarrow> 't threadPool \<Rightarrow> bool" where
  "pool_step_ok throws (StartPool n) p \<longleftrightarrow> tp_workers p = [] \<and> 0 \<le> n"
| "pool_step_ok throws (AddTask t) p \<longleftrightarrow> (tp_workers p = [] \<longrightarrow> \<not> throws t)"
| "pool_step_ok throws (ProducerStep k i) p \<longleftrightarrow> i < length (tp_producers p)"
| "pool_step_ok throws (WorkerStep k i) p \<longleftrightarrow>
     i < length (tp_workers p) \<and> (case tp_workers p ! i of WHas (Some t) \<Rightarrow> \<not> throws t | _ \<Rightarrow> True)"
| "pool_step_ok throws JoinPool p \<longleftrightarrow> \<not> tp_joined p \<and> (\<forall>w \<in> set (tp_workers p). w = WExited)"
| "pool_step_ok throws (SpuriousWorker i) p \<longleftrightarrow> i < length (tp_workers p)"
| "pool_step_ok throws (SpuriousProducer i) p \<longleftrightarrow> i < length (tp_producers p)"
| "pool_step_ok throws _ p \<longleftrightarrow> True"

inductive pool_reachable :: "('t \<Rightarrow> bool) \<Rightarrow> 't threadPool \<Rightarrow> bool" for throws where
  start: "pool_reachable throws (setMaxQueueSize m (ThreadPool_ctor n))"
| start_callback: "pool_reachable throws (setThreadInitCallback (setMaxQueueSize m (ThreadPool_ctor n)))"
| step: "pool_reachable throws p \<Longrightarrow> pool_step_ok throws x p \<Longrightarrow> pool_step throws x p = Inr p' \<Longrightarrow> pool_reachable throws p'"


section \<open>The invariant\<close>

fun held_task :: "'t worker \<Rightarrow> 't multiset" where
  "held_task (WHas (Some t)) = {#t#}"
| "held_task _ = {#}"

definition held :: "'t worker list \<Rightarrow> 't multiset" where
  "held ws = (\<Sum>w \<in># mset ws. held_task w)"

definition waiters :: "'t worker list \<Rightarrow> nat" where
  "waiters ws = count (mset ws) WWaiting"

definition notified :: "'t worker list \<Rightarrow> nat" where
  "notified ws = count (mset ws) WNotified"

definition pool_inv :: "'t threadPool \<Rightarrow> bool" where
  "pool_inv p \<longleftrightarrow>
     (0 < tp_maxQueueSize p \<longrightarrow> length (tp_queue p) \<le> tp_maxQueueSize p) \<and>
     tp_added p = tp_taken p @ tp_queue p \<and>
     mset (tp_taken p) = mset (tp_done p) + held (tp_workers p) \<and>
     (0 < waiters (tp_workers p) \<longrightarrow> length (tp_queue p) \<le> notified (tp_workers p)) \<and>
     (\<not> tp_running p \<longrightarrow> waiters (tp_workers p) = 0) \<and>
     (tp_running p \<longrightarrow> WExited \<notin> set (tp_workers p)) \<and>
     (tp_workers p = [] \<longrightarrow> tp_queue p = [] \<and> tp_producers p = [])"

text \<open>What changing the state of one worker does to the counts.\<close>

lemma mset_one: "i < length xs \<Longrightarrow> \<exists>M. mset xs = add_mset (xs ! i) M \<and> mset (xs[i := y]) = add_mset y M"
  by (rule exI [of _ "mset xs - {#xs ! i#}"]) (simp add: mset_update)

lemma one_worker:
  assumes "i < length ws"
  shows "held (ws[i := w]) + held_task (ws ! i) = held ws + held_task w"
    and "waiters (ws[i := w]) + (if ws ! i = WWaiting then 1 else 0) = waiters ws + (if w = WWaiting then 1 else 0)"
    and "notified (ws[i := w]) + (if ws ! i = WNotified then 1 else 0) = notified ws + (if w = WNotified then 1 else 0)"
proof -
  obtain M where M: "mset ws = add_mset (ws ! i) M" "mset (ws[i := w]) = add_mset w M"
    using mset_one [OF assms] by blast
  show "held (ws[i := w]) + held_task (ws ! i) = held ws + held_task w" unfolding held_def M by simp
  show "waiters (ws[i := w]) + (if ws ! i = WWaiting then 1 else 0) = waiters ws + (if w = WWaiting then 1 else 0)"
    unfolding waiters_def M by simp
  show "notified (ws[i := w]) + (if ws ! i = WNotified then 1 else 0) = notified ws + (if w = WNotified then 1 else 0)"
    unfolding notified_def M by simp
qed

lemma select_Some: "select k (waiting_indices P xs) = Some i \<Longrightarrow> i < length xs \<and> P (xs ! i)"
proof -
  assume s: "select k (waiting_indices P xs) = Some i"
  then have "waiting_indices P xs \<noteq> []" "i = waiting_indices P xs ! (k mod length (waiting_indices P xs))"
    by (simp_all add: select_def split: if_splits)
  then have "i \<in> set (waiting_indices P xs)" by simp
  then show ?thesis by (simp add: waiting_indices_def)
qed

lemma select_None: "select k (waiting_indices P xs) = None \<Longrightarrow> x \<in> set xs \<Longrightarrow> \<not> P x"
  by (auto simp: select_def waiting_indices_def filter_empty_conv in_set_conv_nth split: if_splits)

lemma waiters_0: "waiters ws = 0 \<longleftrightarrow> WWaiting \<notin> set ws"
  by (simp add: waiters_def not_in_iff)

lemma notified_0: "notified ws = 0 \<longleftrightarrow> WNotified \<notin> set ws"
  by (simp add: notified_def not_in_iff)

lemma notify_notEmpty_ok:
  assumes "p' = notify_notEmpty k p"
  shows "held (tp_workers p') = held (tp_workers p)" and "length (tp_workers p') = length (tp_workers p)"
    and "0 < waiters (tp_workers p') \<longrightarrow> notified (tp_workers p') = notified (tp_workers p) + 1 \<and> 0 < waiters (tp_workers p)"
    and "waiters (tp_workers p') \<le> waiters (tp_workers p)" and "WExited \<in> set (tp_workers p') \<longrightarrow> WExited \<in> set (tp_workers p)"
proof -
  let ?s = "select k (waiting_indices (\<lambda>w. w = WWaiting) (tp_workers p))"
  have "held (tp_workers p') = held (tp_workers p) \<and> length (tp_workers p') = length (tp_workers p) \<and>
    (0 < waiters (tp_workers p') \<longrightarrow> notified (tp_workers p') = notified (tp_workers p) + 1 \<and> 0 < waiters (tp_workers p)) \<and>
    waiters (tp_workers p') \<le> waiters (tp_workers p) \<and> (WExited \<in> set (tp_workers p') \<longrightarrow> WExited \<in> set (tp_workers p))"
  proof (cases ?s)
    case None
    with select_None [OF None] have "waiters (tp_workers p) = 0" by (auto simp: waiters_0)
    with None show ?thesis by (simp add: assms notify_notEmpty_def)
  next
    case (Some i)
    from select_Some [OF this] have i: "i < length (tp_workers p)" "tp_workers p ! i = WWaiting" by simp_all
    have "set ((tp_workers p)[i := WNotified]) \<subseteq> insert WNotified (set (tp_workers p))" by (rule set_update_subset_insert)
    then have "WExited \<in> set ((tp_workers p)[i := WNotified]) \<longrightarrow> WExited \<in> set (tp_workers p)" by blast
    with one_worker [OF i(1), of WNotified] i(2) Some show ?thesis by (simp add: assms notify_notEmpty_def)
  qed
  then show "held (tp_workers p') = held (tp_workers p)" "length (tp_workers p') = length (tp_workers p)"
    "0 < waiters (tp_workers p') \<longrightarrow> notified (tp_workers p') = notified (tp_workers p) + 1 \<and> 0 < waiters (tp_workers p)"
    "waiters (tp_workers p') \<le> waiters (tp_workers p)" "WExited \<in> set (tp_workers p') \<longrightarrow> WExited \<in> set (tp_workers p)"
    by blast+
qed

lemma one_worker_exited: "WExited \<in> set (ws[i := w]) \<Longrightarrow> w \<noteq> WExited \<Longrightarrow> WExited \<in> set ws"
  using set_update_subset_insert [of ws i w] by auto

lemma start_pool_inv:
  assumes "pool_inv p" and "tp_workers p = []" and "0 \<le> n"
  shows "\<exists>p'. ThreadPool_start n p = Inr p' \<and> pool_inv p'"
proof -
  have "held (replicate (nat n) WStarting :: 'a worker list) = {#}" "waiters (replicate (nat n) WStarting :: 'a worker list) = 0"
    by (simp_all add: held_def waiters_def)
  moreover have "held ([] :: 'a worker list) = {#}" by (simp add: held_def)
  ultimately show ?thesis using assms by (auto simp: ThreadPool_start_def pool_inv_def)
qed

lemma add_task_inv:
  "pool_inv p \<Longrightarrow> tp_workers p = [] \<longrightarrow> \<not> throws t \<Longrightarrow> \<exists>p'. addTask throws t p = Inr p' \<and> pool_inv p'"
  by (auto simp: addTask_def pool_inv_def waiters_0)

lemma producer_inv:
  assumes "pool_inv p" and "i < length (tp_producers p)"
  shows "\<exists>p'. addTask_locked k i p = Inr p' \<and> pool_inv p'"
proof (cases "tp_producers p ! i")
  case (PAdding task)
  have ws: "tp_workers p \<noteq> []" using assms by (auto simp: pool_inv_def)
  show ?thesis
  proof (cases "isFull p")
    case True
    with PAdding assms(1) ws show ?thesis by (simp add: addTask_locked_def pool_inv_def)
  next
    case False
    let ?p1 = "p\<lparr>tp_queue := tp_queue p @ [task], tp_added := tp_added p @ [task], tp_producers := (tp_producers p)[i := PDone]\<rparr>"
    define p' where "p' = notify_notEmpty k ?p1"
    note n = notify_notEmpty_ok [OF p'_def]
    have same: "tp_maxQueueSize p' = tp_maxQueueSize p" "tp_queue p' = tp_queue p @ [task]" "tp_added p' = tp_added p @ [task]"
      "tp_taken p' = tp_taken p" "tp_done p' = tp_done p" "tp_running p' = tp_running p"
      by (simp_all add: p'_def notify_notEmpty_def split: option.splits)
    have "tp_workers p' \<noteq> []" using n(2) ws by auto
    moreover have "0 < tp_maxQueueSize p \<longrightarrow> length (tp_queue p) < tp_maxQueueSize p" using False by (auto simp: isFull_def)
    ultimately have "pool_inv p'" using assms(1) n same by (auto simp: pool_inv_def)
    moreover have "addTask_locked k i p = Inr p'" using PAdding False by (simp add: addTask_locked_def p'_def)
    ultimately show ?thesis by blast
  qed
qed (use assms in \<open>simp_all add: addTask_locked_def\<close>)

lemma notify_notFull_inv: "pool_inv (notify_notFull k p) = pool_inv p"
  by (auto simp: notify_notFull_def pool_inv_def split: option.splits)

lemma take_inv:
  assumes "pool_inv p" and "i < length (tp_workers p)" and "tp_workers p ! i = WReady \<or> tp_workers p ! i = WNotified"
  shows "pool_inv (ThreadPool_take k i p)"
proof -
  note o = one_worker [OF assms(2)]
  have h: "held_task (tp_workers p ! i) = {#}" using assms(3) by auto
  have ws: "tp_workers p \<noteq> []" using assms(2) by auto
  show ?thesis
  proof (cases "tp_queue p")
    case Nil
    show ?thesis
    proof (cases "tp_running p")
      case True
      with Nil assms(1) ws o [of WWaiting] h one_worker_exited [of "tp_workers p" i WWaiting] show ?thesis
        by (auto simp: ThreadPool_take_def pool_inv_def)
    next
      case False
      with Nil assms(1,3) ws o [of "WHas None"] h show ?thesis
        by (auto simp: ThreadPool_take_def pool_inv_def split: if_splits)
    qed
  next
    case (Cons task rest)
    let ?p' = "p\<lparr>tp_queue := rest, tp_taken := tp_taken p @ [task], tp_workers := (tp_workers p)[i := WHas (Some task)]\<rparr>"
    have "held (tp_workers ?p') = add_mset task (held (tp_workers p))" using o(1) [of "WHas (Some task)"] h by simp
    moreover have "waiters (tp_workers ?p') = waiters (tp_workers p)" "notified (tp_workers p) \<le> notified (tp_workers ?p') + 1"
      using o(2,3) [of "WHas (Some task)"] assms(3) by (auto split: if_splits)
    moreover have "WExited \<in> set (tp_workers ?p') \<longrightarrow> WExited \<in> set (tp_workers p)"
      using one_worker_exited [of "tp_workers p" i "WHas (Some task)"] by auto
    ultimately have "pool_inv ?p'" using assms(1) Cons ws by (auto simp: pool_inv_def)
    then show ?thesis using Cons by (simp add: ThreadPool_take_def Let_def notify_notFull_inv)
  qed
qed

lemma worker_run_inv:
  assumes "pool_inv p" and "i < length (tp_workers p)" and "tp_workers p ! i = WHas task" and "\<forall>t. task = Some t \<longrightarrow> \<not> throws t"
  shows "\<exists>p'. worker_run throws i task p = Inr p' \<and> pool_inv p'"
proof -
  define w :: "'a worker" where "w = (if \<not> tp_running p \<and> tp_queue p = [] then WExited else WReady)"
  note o = one_worker [OF assms(2), of w]
  have w: "held_task w = {#}" "w \<noteq> WWaiting" "w \<noteq> WNotified" "tp_running p \<longrightarrow> w \<noteq> WExited" by (simp_all add: w_def)
  have "waiters ((tp_workers p)[i := w]) = waiters (tp_workers p)" "notified ((tp_workers p)[i := w]) = notified (tp_workers p)"
    using o(2,3) w assms(3) by simp_all
  moreover have "tp_running p \<longrightarrow> WExited \<notin> set ((tp_workers p)[i := w])"
    using assms(1) w(4) one_worker_exited [of "tp_workers p" i w] by (auto simp: pool_inv_def)
  moreover have "held ((tp_workers p)[i := w]) + (case task of None \<Rightarrow> {#} | Some t \<Rightarrow> {#t#}) = held (tp_workers p)"
    using o(1) w(1) assms(3) by (cases task) simp_all
  moreover have "tp_workers p \<noteq> []" using assms(2) by auto
  ultimately show ?thesis
    using assms(1,4) by (cases task) (auto simp: worker_run_def w_def [symmetric] pool_inv_def Let_def)
qed

lemma starting_inv:
  assumes "pool_inv p" and "i < length (tp_workers p)" and "tp_workers p ! i = WStarting"
  shows "pool_inv (p\<lparr>tp_initRuns := c, tp_workers := (tp_workers p)[i := WReady]\<rparr>)"
proof -
  have "tp_workers p \<noteq> []" using assms(2) by auto
  with one_worker [OF assms(2), of WReady] assms one_worker_exited [of "tp_workers p" i WReady] show ?thesis
    by (auto simp: pool_inv_def)
qed

lemma run_in_thread_inv:
  assumes "pool_inv p" and "i < length (tp_workers p)" and "case tp_workers p ! i of WHas (Some t) \<Rightarrow> \<not> throws t | _ \<Rightarrow> True"
  shows "\<exists>p'. runInThread throws k i p = Inr p' \<and> pool_inv p'"
proof (cases "tp_workers p ! i")
  case (WHas task)
  with worker_run_inv [OF assms(1,2) WHas, of throws] assms(3) show ?thesis by (simp add: runInThread_def split: option.splits)
qed (use assms in \<open>simp_all add: runInThread_def take_inv starting_inv\<close>)

lemma join_inv:
  "pool_inv p \<Longrightarrow> \<not> tp_joined p \<Longrightarrow> \<forall>w \<in> set (tp_workers p). w = WExited \<Longrightarrow> \<exists>p'. stop_joins p = Inr p' \<and> pool_inv p'"
  by (auto simp: stop_joins_def pool_inv_def)

lemma stop_inv:
  assumes "pool_inv p"
  shows "pool_inv (ThreadPool_stop p)"
proof -
  let ?ws = "map (\<lambda>w. if w = WWaiting then WNotified else w) (tp_workers p)"
  have "waiters ?ws = 0" by (auto simp: waiters_0)
  moreover have "held ?ws = held (tp_workers p)"
    unfolding held_def by (simp add: image_mset.compositionality o_def) (rule arg_cong [of _ _ sum_mset], rule image_mset_cong, simp)
  ultimately show ?thesis using assms by (simp add: ThreadPool_stop_def notifyAll_notEmpty_def pool_inv_def)
qed

lemma spurious_inv:
  assumes "pool_inv p" and "i < length (tp_workers p)" and "tp_workers p ! i = WWaiting"
  shows "pool_inv (p\<lparr>tp_workers := (tp_workers p)[i := WNotified]\<rparr>)"
proof -
  have "tp_workers p \<noteq> []" using assms(2) by auto
  with one_worker [OF assms(2), of WNotified] assms one_worker_exited [of "tp_workers p" i WNotified] show ?thesis
    by (auto simp: pool_inv_def)
qed

lemma pool_step_inv:
  assumes "pool_inv p" and "pool_step_ok throws x p"
  shows "\<exists>p'. pool_step throws x p = Inr p' \<and> pool_inv p'"
proof (cases x)
  case (SpuriousProducer i)
  with assms show ?thesis by (auto simp: pool_inv_def)
qed (use assms in \<open>auto simp: start_pool_inv add_task_inv producer_inv run_in_thread_inv stop_inv join_inv spurious_inv\<close>)

lemma pool_reachable_inv: "pool_reachable throws p \<Longrightarrow> pool_inv p"
proof (induction rule: pool_reachable.induct)
  case (start m n)
  show ?case by (simp add: pool_inv_def setMaxQueueSize_def ThreadPool_ctor_def held_def waiters_def)
next
  case (start_callback m n)
  show ?case by (simp add: pool_inv_def setThreadInitCallback_def setMaxQueueSize_def ThreadPool_ctor_def held_def waiters_def)
next
  case (step p x p')
  with pool_step_inv [OF step.IH step.hyps(2)] show ?case by auto
qed


section \<open>Properties\<close>


text \<open>A pool with one worker and one task in its queue.\<close>

definition example_pool :: "nat threadPool" where
  "example_pool =
     \<lparr>tp_name = ''pool'', tp_threadInitCallback = False, tp_maxQueueSize = 1, tp_running = True, tp_queue = [7],
      tp_workers = [WNotified], tp_threadNames = [''pool1''], tp_joined = False, tp_initRuns = 0, tp_producers = [PDone],
      tp_added = [7], tp_taken = [], tp_done = []\<rparr>"

lemma example_pool_reachable: "pool_reachable throws example_pool"
proof -
  let ?p0 = "setMaxQueueSize 1 (ThreadPool_ctor ''pool'') :: nat threadPool"
  let ?p1 = "?p0\<lparr>tp_running := True, tp_workers := [WStarting], tp_threadNames := [''pool1'']\<rparr>"
  let ?p2 = "?p1\<lparr>tp_workers := [WReady]\<rparr>"
  let ?p3 = "?p2\<lparr>tp_workers := [WWaiting]\<rparr>"
  let ?p4 = "?p3\<lparr>tp_producers := [PAdding 7]\<rparr>"
  note defs = runInThread_def ThreadPool_take_def addTask_def addTask_locked_def isFull_def notify_notEmpty_def
    waiting_indices_def select_def setMaxQueueSize_def ThreadPool_ctor_def
  have name: "snprintf_trunc 32 (to_string 1) = ''1''" by code_simp
  have "pool_reachable throws ?p1"
    by (rule pool_reachable.step [OF pool_reachable.start [of _ 1 "''pool''"], where x = "StartPool 1"])
      (simp_all add: ThreadPool_start_def defs name)
  then have "pool_reachable throws ?p2"
    by (rule pool_reachable.step [where x = "WorkerStep 0 0"]) (simp_all add: defs)
  then have "pool_reachable throws ?p3"
    by (rule pool_reachable.step [where x = "WorkerStep 0 0"]) (simp_all add: defs)
  then have "pool_reachable throws ?p4"
    by (rule pool_reachable.step [where x = "AddTask 7"]) (simp_all add: defs)
  then show ?thesis
    by (rule pool_reachable.step [where x = "ProducerStep 0 0"]) (simp_all add: defs example_pool_def)
qed


end
