(* ===== verification/TcpServer.thy ===== *)
theory TcpServer
  imports Sockets ThreadPool "HOL-Library.List_Lexorder" "HOL-Library.Char_ord"
begin

text \<open>
  The loops of the worker threads (\<^verbatim>\<open>EventLoopThread\<close>, \<^verbatim>\<open>EventLoopThreadPool\<close>) and \<^verbatim>\<open>TcpServer\<close>, which extends the state of
  its acceptor. Event loops are addresses. A connection is its record in a heap; a call that
  \<^verbatim>\<open>runInLoop\<close> or \<^verbatim>\<open>queueInLoop\<close> hands to a loop is noted in \<open>srv_posts\<close> with that loop.

  The lemmas show that connections get distinct names, are given to the loops in turn, and can each be
  removed once.
\<close>

section \<open>EventLoopThread\<close>

record loopThread =
  lt_loop :: "nat option"
  lt_exiting :: bool
  lt_thread :: thread
  lt_callback :: bool

definition EventLoopThread_ctor :: "bool \<Rightarrow> string \<Rightarrow> int \<Rightarrow> loopThread" where
  "EventLoopThread_ctor cb n numCreated =
     \<lparr>lt_loop = None, lt_exiting = False, lt_thread = Thread_ctor n numCreated, lt_callback = cb\<rparr>"

text \<open>\<^verbatim>\<open>threadFunc\<close> with its loop at address \<open>a\<close>: up to the notification, and after the loop has ended.\<close>

definition threadFunc_begin :: "nat \<Rightarrow> loopThread \<Rightarrow> loopThread" where
  "threadFunc_begin a t = t\<lparr>lt_loop := Some a\<rparr>"

definition threadFunc_end :: "loopThread \<Rightarrow> loopThread" where
  "threadFunc_end t = t\<lparr>lt_loop := None\<rparr>"

definition startLoop :: "int \<Rightarrow> bool \<Rightarrow> nat \<Rightarrow> loopThread \<Rightarrow> (nat \<times> loopThread) res" where
  "startLoop gettid created a t =
     asserting (\<not> th_started (lt_thread t))
       (andThen (Thread_start gettid created (lt_thread t)) (\<lambda>th.
        let t = threadFunc_begin a (t\<lparr>lt_thread := th\<rparr>)
        in case lt_loop t of Some loop \<Rightarrow> Inr (loop, t) | None \<Rightarrow> Inl Blocked))"

text \<open>The loop that is told to quit, if any.\<close>

definition EventLoopThread_dtor :: "loopThread \<Rightarrow> (nat option \<times> loopThread) res" where
  "EventLoopThread_dtor t =
     (let t = t\<lparr>lt_exiting := True\<rparr>
      in case lt_loop t of
           None \<Rightarrow> Inr (None, t)
         | Some loop \<Rightarrow> andThen (Thread_join (lt_thread t)) (\<lambda>th. Inr (Some loop, t\<lparr>lt_thread := th\<rparr>)))"


section \<open>EventLoopThreadPool\<close>

text \<open>\<open>elp_inits\<close> are the loops the init callback was called with.\<close>

record loopPool =
  elp_baseLoop :: nat
  elp_name :: string
  elp_started :: bool
  elp_numThreads :: int
  elp_next :: int
  elp_threads :: "loopThread list"
  elp_loops :: "nat list"
  elp_inits :: "nat list"

definition EventLoopThreadPool_ctor :: "nat \<Rightarrow> string \<Rightarrow> loopPool" where
  "EventLoopThreadPool_ctor baseLoop nameArg =
     \<lparr>elp_baseLoop = baseLoop, elp_name = nameArg, elp_started = False, elp_numThreads = 0, elp_next = 0, elp_threads = [],
      elp_loops = [], elp_inits = []\<rparr>"

definition pool_setThreadNum :: "int \<Rightarrow> loopPool \<Rightarrow> loopPool" where
  "pool_setThreadNum numThreads p = p\<lparr>elp_numThreads := numThreads\<rparr>"

text \<open>
  The threads of the process: the id of the i-th thread of a pool, the address of the loop on its
  stack, and how many threads there were before.
\<close>

record threadEnv =
  te_tid :: "nat \<Rightarrow> int"
  te_loop :: "nat \<Rightarrow> nat"
  te_created :: int

fun start_threads :: "threadEnv \<Rightarrow> bool \<Rightarrow> nat list \<Rightarrow> loopPool \<Rightarrow> loopPool res" where
  "start_threads env cb [] p = Inr p"
| "start_threads env cb (i # ns) p =
     (let b = snprintf_trunc (length (elp_name p) + 32) (c_str (elp_name p) @ to_string (int i));
          t = EventLoopThread_ctor cb b (te_created env + int i + 1)
      in andThen (startLoop (te_tid env i) True (te_loop env i) t) (\<lambda>(loop, t).
         start_threads env cb ns
           (p\<lparr>elp_threads := elp_threads p @ [t], elp_loops := elp_loops p @ [loop],
              elp_inits := elp_inits p @ (if cb then [loop] else [])\<rparr>)))"

definition EventLoopThreadPool_start :: "threadEnv \<Rightarrow> bool \<Rightarrow> bool \<Rightarrow> loopPool \<Rightarrow> loopPool res" where
  "EventLoopThreadPool_start env inLoop cb p =
     asserting (\<not> elp_started p)
       (if \<not> inLoop then Inl (Fatal ''abortNotInLoopThread'')
        else andThen (start_threads env cb [0..<nat (elp_numThreads p)] (p\<lparr>elp_started := True\<rparr>)) (\<lambda>p.
             Inr (if elp_numThreads p = 0 \<and> cb then p\<lparr>elp_inits := elp_inits p @ [elp_baseLoop p]\<rparr> else p)))"

definition getNextLoop :: "bool \<Rightarrow> loopPool \<Rightarrow> (nat \<times> loopPool) res" where
  "getNextLoop inLoop p =
     (if \<not> inLoop then Inl (Fatal ''abortNotInLoopThread'')
      else asserting (elp_started p)
        (if elp_loops p = [] then Inr (elp_baseLoop p, p)
         else if elp_next p < 0 \<or> elp_next p \<ge> int (length (elp_loops p)) then Inl (UndefinedBehaviour ''loops_'')
         else let loop = elp_loops p ! nat (elp_next p); n = elp_next p + 1
              in Inr (loop, p\<lparr>elp_next := if n \<ge> int (length (elp_loops p)) then 0 else n\<rparr>)))"

definition getLoopForHash :: "bool \<Rightarrow> nat \<Rightarrow> loopPool \<Rightarrow> nat res" where
  "getLoopForHash inLoop hashCode p =
     (if \<not> inLoop then Inl (Fatal ''abortNotInLoopThread'')
      else Inr (if elp_loops p = [] then elp_baseLoop p else elp_loops p ! (hashCode mod length (elp_loops p))))"

definition getAllLoops :: "bool \<Rightarrow> loopPool \<Rightarrow> nat list res" where
  "getAllLoops inLoop p =
     (if \<not> inLoop then Inl (Fatal ''abortNotInLoopThread'')
      else asserting (elp_started p) (Inr (if elp_loops p = [] then [elp_baseLoop p] else elp_loops p)))"


section \<open>TcpServer\<close>

text \<open>A \<^verbatim>\<open>std::map\<close> with string keys is the list of its entries in order.\<close>

fun conn_insert :: "string \<Rightarrow> 'a \<Rightarrow> (string \<times> 'a) list \<Rightarrow> (string \<times> 'a) list" where
  "conn_insert k v [] = [(k, v)]"
| "conn_insert k v ((k', v') # r) =
     (if k = k' then (k, v) # r else if k < k' then (k, v) # (k', v') # r else (k', v') # conn_insert k v r)"

definition conn_erase :: "string \<Rightarrow> (string \<times> 'a) list \<Rightarrow> nat \<times> (string \<times> 'a) list" where
  "conn_erase k m = (length (filter (\<lambda>e. fst e = k) m), filter (\<lambda>e. fst e \<noteq> k) m)"

datatype conn_task = ConnectEstablished nat | ConnectDestroyed nat | RemoveConnectionInLoop nat

record 'cb tcpConn =
  tc_loop :: nat
  tc_name :: string
  tc_fd :: int
  tc_localAddr :: sockaddr_in
  tc_peerAddr :: sockaddr_in
  tc_connectionCallback :: 'cb
  tc_messageCallback :: 'cb
  tc_writeCompleteCallback :: "'cb option"

record ('k, 'cb) tcpServer = "'k acceptor" +
  srv_loop :: nat
  srv_ipPort :: string
  srv_name :: string
  srv_pool :: loopPool
  srv_connectionCallback :: 'cb
  srv_messageCallback :: 'cb
  srv_writeCompleteCallback :: "'cb option"
  srv_threadInitCallback :: bool
  srv_started :: int
  srv_nextConnId :: int
  srv_connections :: "(string \<times> nat) list"
  srv_conns :: "nat \<rightharpoonup> 'cb tcpConn"
  srv_posts :: "(nat \<times> conn_task) list"

type_synonym ('k, 'cb, 'a) srv_prog = "(('k, 'cb) tcpServer, 'a) prog"

text \<open>\<open>dc\<close> and \<open>dm\<close> are the default callbacks.\<close>

definition TcpServer_ctor ::
  "'k netApi \<Rightarrow> 'cb \<Rightarrow> 'cb \<Rightarrow> nat \<Rightarrow> nat \<Rightarrow> sockaddr_in \<Rightarrow> string \<Rightarrow> bool \<Rightarrow> 'k netState \<Rightarrow> ('k, 'cb) tcpServer res" where
  "TcpServer_ctor api dc dm loop a listenAddr nameArg reusePort s =
     andThen (toIpPort listenAddr) (\<lambda>ipPort.
     andThen (Acceptor_ctor api a listenAddr reusePort s) (\<lambda>s.
     Inr (acceptor.extend s
       \<lparr>srv_loop = loop, srv_ipPort = ipPort, srv_name = nameArg, srv_pool = EventLoopThreadPool_ctor loop nameArg,
        srv_connectionCallback = dc, srv_messageCallback = dm, srv_writeCompleteCallback = None, srv_threadInitCallback = False,
        srv_started = 0, srv_nextConnId = 1, srv_connections = [], srv_conns = Map.empty, srv_posts = []\<rparr>)))"

definition TcpServer_setThreadNum :: "int \<Rightarrow> ('k, 'cb, unit) srv_prog" where
  "TcpServer_setThreadNum numThreads =
     chain (ensure (\<lambda>_. 0 \<le> numThreads)) (\<lambda>_.
     modify (\<lambda>s. s\<lparr>srv_pool := pool_setThreadNum numThreads (srv_pool s)\<rparr>))"

definition TcpServer_setThreadInitCallback :: "('k, 'cb, unit) srv_prog" where
  "TcpServer_setThreadInitCallback = modify (\<lambda>s. s\<lparr>srv_threadInitCallback := True\<rparr>)"

definition TcpServer_setConnectionCallback :: "'cb \<Rightarrow> ('k, 'cb, unit) srv_prog" where
  "TcpServer_setConnectionCallback cb = modify (\<lambda>s. s\<lparr>srv_connectionCallback := cb\<rparr>)"

definition TcpServer_setMessageCallback :: "'cb \<Rightarrow> ('k, 'cb, unit) srv_prog" where
  "TcpServer_setMessageCallback cb = modify (\<lambda>s. s\<lparr>srv_messageCallback := cb\<rparr>)"

definition TcpServer_setWriteCompleteCallback :: "'cb \<Rightarrow> ('k, 'cb, unit) srv_prog" where
  "TcpServer_setWriteCompleteCallback cb = modify (\<lambda>s. s\<lparr>srv_writeCompleteCallback := Some cb\<rparr>)"

text \<open>The thread pool is started in the thread of the loop or not at all, so \<^verbatim>\<open>listen\<close> runs at once.\<close>

definition TcpServer_start :: "'k netApi \<Rightarrow> threadEnv \<Rightarrow> ('k, 'cb, unit) srv_prog" where
  "TcpServer_start api env =
     chain state (\<lambda>s.
     if srv_started s = 0 then
       chain (lift (EventLoopThreadPool_start env (in_loop s) (srv_threadInitCallback s) (srv_pool s))) (\<lambda>p.
       chain (modify (\<lambda>s. s\<lparr>srv_started := srv_started s + 1, srv_pool := p\<rparr>)) (\<lambda>_.
       chain (ensure (\<lambda>s. \<not> acc_listenning s)) (\<lambda>_.
       Acceptor_listen api)))
     else ret ())"

definition connName :: "('k, 'cb) tcpServer \<Rightarrow> int \<Rightarrow> string" where
  "connName s connId = srv_name s @ snprintf_trunc 64 (''-'' @ c_str (srv_ipPort s) @ ''#'' @ to_string connId)"

text \<open>The new connection is at address \<open>c\<close>.\<close>

definition newConnection :: "'k netApi \<Rightarrow> nat \<Rightarrow> int \<Rightarrow> sockaddr_in \<Rightarrow> ('k, 'cb, unit) srv_prog" where
  "newConnection api c sockfd peerAddr =
     chain assertInLoopThread (\<lambda>_.
     chain state (\<lambda>s.
     chain (lift (getNextLoop (in_loop s) (srv_pool s))) (\<lambda>(ioLoop, p).
     chain (lift (check_int (srv_nextConnId s + 1))) (\<lambda>nextId.
     chain (modify (\<lambda>s. s\<lparr>srv_pool := p, srv_nextConnId := nextId\<rparr>)) (\<lambda>_.
     chain (getLocalAddr api sockfd) (\<lambda>localAddr.
     let n = connName s (srv_nextConnId s);
         conn = \<lparr>tc_loop = ioLoop, tc_name = n, tc_fd = sockfd, tc_localAddr = localAddr, tc_peerAddr = peerAddr,
                 tc_connectionCallback = srv_connectionCallback s, tc_messageCallback = srv_messageCallback s,
                 tc_writeCompleteCallback = srv_writeCompleteCallback s\<rparr>
     in modify (\<lambda>s. s\<lparr>srv_conns := (srv_conns s)(c \<mapsto> conn), srv_connections := conn_insert n c (srv_connections s),
                      srv_posts := srv_posts s @ [(ioLoop, ConnectEstablished c)]\<rparr>)))))))"

definition conn_at :: "nat \<Rightarrow> ('k, 'cb, 'cb tcpConn) srv_prog" where
  "conn_at c s = (case srv_conns s c of None \<Rightarrow> Inl (UndefinedBehaviour ''TcpConnection'') | Some conn \<Rightarrow> Inr (conn, s))"

definition removeConnectionInLoop :: "nat \<Rightarrow> ('k, 'cb, unit) srv_prog" where
  "removeConnectionInLoop c =
     chain assertInLoopThread (\<lambda>_.
     chain (conn_at c) (\<lambda>conn.
     chain state (\<lambda>s.
     case conn_erase (tc_name conn) (srv_connections s) of
       (n, m) \<Rightarrow>
         chain (modify (\<lambda>s. s\<lparr>srv_connections := m\<rparr>)) (\<lambda>_.
         chain (ensure (\<lambda>_. n = 1)) (\<lambda>_.
         modify (\<lambda>s. s\<lparr>srv_posts := srv_posts s @ [(tc_loop conn, ConnectDestroyed c)]\<rparr>))))))"

definition removeConnection :: "nat \<Rightarrow> ('k, 'cb, unit) srv_prog" where
  "removeConnection c =
     chain state (\<lambda>s.
     if in_loop s then removeConnectionInLoop c
     else modify (\<lambda>s. s\<lparr>srv_posts := srv_posts s @ [(srv_loop s, RemoveConnectionInLoop c)]\<rparr>))"

fun destroy_connections :: "(string \<times> nat) list \<Rightarrow> ('k, 'cb, unit) srv_prog" where
  "destroy_connections [] = ret ()"
| "destroy_connections ((n, c) # m) =
     chain (conn_at c) (\<lambda>conn.
     chain (modify (\<lambda>s. s\<lparr>srv_posts := srv_posts s @ [(tc_loop conn, ConnectDestroyed c)]\<rparr>)) (\<lambda>_.
     destroy_connections m))"

definition TcpServer_dtor :: "('k, 'cb, unit) srv_prog" where
  "TcpServer_dtor = chain assertInLoopThread (\<lambda>_. chain state (\<lambda>s. destroy_connections (srv_connections s)))"

text \<open>The read event of the listening socket.\<close>

definition server_accept :: "'k netApi \<Rightarrow> nat \<Rightarrow> ('k, 'cb, unit) srv_prog" where
  "server_accept api c = Acceptor_handleRead api (Some (newConnection api c))"


section \<open>What the calls below leave alone\<close>

text \<open>A call of the reactor or of the system changes neither the state of its client nor the thread.\<close>

definition keeps_client :: "(('k, 'z) netState_scheme, 'a) prog \<Rightarrow> bool" where
  "keeps_client m \<longleftrightarrow> (\<forall>s x s'. m s = Inr (x, s') \<longrightarrow> netState.more s' = netState.more s \<and> in_loop s' = in_loop s)"

lemma keepsD: "keeps_client m \<Longrightarrow> m s = Inr (x, s') \<Longrightarrow> netState.more s' = netState.more s \<and> in_loop s' = in_loop s"
  by (simp add: keeps_client_def)

lemma keeps_chain [intro]:
  assumes "keeps_client m" and "\<And>x. keeps_client (f x)"
  shows "keeps_client (chain m f)"
  unfolding keeps_client_def
proof (intro allI impI)
  fix s y s' assume "chain m f s = Inr (y, s')"
  then obtain x s1 where "m s = Inr (x, s1)" "f x s1 = Inr (y, s')"
    by (cases "m s") (auto simp: chain_def)
  then show "netState.more s' = netState.more s \<and> in_loop s' = in_loop s"
    using keepsD [OF assms(1)] keepsD [OF assms(2)] by metis
qed

lemma keeps_basic [intro, simp]:
  "keeps_client (ret x)" "keeps_client (fail f)" "keeps_client state" "keeps_client (ensure P)" "keeps_client assertInLoopThread" "keeps_client (the_chan a)" "keeps_client (syscall g)"
  "keeps_client (syscall_addr addr h)" "keeps_client (logging api)"
  by (auto simp: keeps_client_def ret_def fail_def state_def ensure_def assertInLoopThread_def the_chan_def syscall_def syscall_addr_def
      logging_def modify_def split: if_splits option.splits prod.splits)

lemma keeps_set_chan [intro, simp]: "keeps_client (set_chan a f)"
  unfolding set_chan_def by (rule keeps_chain, simp) (auto simp: keeps_client_def modify_def)

lemma keeps_update [intro, simp]: "keeps_client (EPollPoller_update api operation a)"
  unfolding EPollPoller_update_def by (rule keeps_chain, simp) (auto simp: keeps_client_def split: prod.splits if_splits)

lemma keeps_poll_channels [intro, simp]: "keeps_client (modify (\<lambda>s. s\<lparr>poll_channels := f (poll_channels s)\<rparr>))"
  by (auto simp: keeps_client_def modify_def)

lemma keeps_updateChannel [intro, simp]: "keeps_client (EPollPoller_updateChannel api a)"
  unfolding EPollPoller_updateChannel_def Let_def by (auto intro!: keeps_chain)

lemma keeps_set_events [intro, simp]: "keeps_client (set_events api f a)"
  unfolding set_events_def Channel_update_def updateChannel_def by (auto intro!: keeps_chain)

lemma keeps_getLocalAddr: "keeps_client (getLocalAddr api fd)"
  unfolding getLocalAddr_def by (auto intro!: keeps_chain)

lemma keeps_accept: "keeps_client (Socket_accept api fd peeraddr)"
proof -
  have "keeps_client (setNonBlockAndCloseOnExec api fd)" for fd :: int
    unfolding setNonBlockAndCloseOnExec_def by (auto intro!: keeps_chain)
  moreover have "keeps_client (modify (\<lambda>s. s\<lparr>net_errno := e\<rparr>))" for e by (auto simp: keeps_client_def modify_def)
  ultimately show ?thesis
    unfolding Socket_accept_def sockets_accept_def Let_def by (auto intro!: keeps_chain split: prod.splits)
qed


section \<open>The connections of a server\<close>

lemma conn_insert_set:
  "k \<notin> fst ` set m \<Longrightarrow> set (conn_insert k v m) = insert (k, v) (set m)"
  by (induction m) (auto split: if_splits)

lemma conn_insert_sorted:
  "sorted_wrt (<) (map fst m) \<Longrightarrow> k \<notin> fst ` set m \<Longrightarrow> sorted_wrt (<) (map fst (conn_insert k v m))"
proof (induction m)
  case (Cons e m)
  obtain k' v' where e: "e = (k', v')" by (cases e)
  show ?case
  proof (cases "k < k'")
    case True
    with Cons.prems e show ?thesis by (auto intro: less_trans)
  next
    case False
    with Cons e have "k' < k" "sorted_wrt (<) (map fst (conn_insert k v m))" by auto
    with Cons.prems e False show ?thesis by (auto simp: conn_insert_set)
  qed
qed simp

lemma conn_erase_one:
  assumes "sorted_wrt (<) (map fst m)" and "(k, v) \<in> set m"
  shows "conn_erase k m = (1, filter (\<lambda>e. fst e \<noteq> k) m)" and "set (filter (\<lambda>e. fst e \<noteq> k) m) = set m - {(k, v)}"
proof -
  have d: "distinct (map fst m)" using assms(1) strict_sorted_iff by blast
  then have "inj_on fst (set m)" by (simp add: distinct_map)
  then have same: "fst e = k \<longleftrightarrow> e = (k, v)" if "e \<in> set m" for e
    using that assms(2) by (metis fst_conv inj_onD)
  then show "set (filter (\<lambda>e. fst e \<noteq> k) m) = set m - {(k, v)}" by auto
  have "filter (\<lambda>e. fst e = k) m = filter (\<lambda>e. e = (k, v)) m" by (rule filter_cong) (simp_all add: same)
  moreover have "length (filter (\<lambda>e. e = (k, v)) m) = 1"
    using d assms(2) distinct_length_filter [of m "\<lambda>e. e = (k, v)"] by (simp add: distinct_map)
  ultimately show "conn_erase k m = (1, filter (\<lambda>e. fst e \<noteq> k) m)" by (simp add: conn_erase_def)
qed

definition round_robin :: "('k, 'cb) tcpServer \<Rightarrow> nat" where
  "round_robin s =
     (let loops = elp_loops (srv_pool s)
      in if loops = [] then elp_baseLoop (srv_pool s) else loops ! nat ((srv_nextConnId s - 1) mod int (length loops)))"

definition srv_inv :: "('k, 'cb) tcpServer \<Rightarrow> bool" where
  "srv_inv s \<longleftrightarrow>
     in_loop s \<and> elp_started (srv_pool s) \<and> length (srv_ipPort s) \<le> 51 \<and> 1 \<le> srv_nextConnId s \<and> srv_nextConnId s < 2 ^ 31 \<and>
     (elp_loops (srv_pool s) \<noteq> [] \<longrightarrow> elp_next (srv_pool s) = (srv_nextConnId s - 1) mod int (length (elp_loops (srv_pool s)))) \<and>
     sorted_wrt (<) (map fst (srv_connections s)) \<and>
     (\<forall>n c. (n, c) \<in> set (srv_connections s) \<longrightarrow>
        (\<exists>conn i. srv_conns s c = Some conn \<and> tc_name conn = n \<and> 1 \<le> i \<and> i < srv_nextConnId s \<and> n = connName s i))"

lemma connName_inject:
  assumes "length (srv_ipPort s) \<le> 51" and "1 \<le> i" and "i < 2 ^ 31" and "1 \<le> j" and "j < 2 ^ 31" and "connName s i = connName s j"
  shows "i = j"
proof -
  let ?t = "\<lambda>i. ''-'' @ c_str (srv_ipPort s) @ ''#'' @ to_string i"
  have "length (?t i) < 64" if "1 \<le> i" "i < 2 ^ 31" for i :: int
  proof -
    have "nat i < 10 ^ 10" using that by simp
    from length_show_nat [OF this] that have "length (to_string i) \<le> 10" by (simp add: to_string_def)
    moreover have "length (c_str (srv_ipPort s)) \<le> 51" using assms(1) length_c_str_le [of "srv_ipPort s"] by linarith
    ultimately show ?thesis by simp
  qed
  then have "?t i = ?t j" using assms(2-) by (simp add: connName_def snprintf_trunc_id)
  then show ?thesis by simp
qed

lemma getNextLoop_turn:
  assumes "srv_inv s"
  shows "\<exists>p. getNextLoop True (srv_pool s) = Inr (round_robin s, p) \<and> elp_started p \<and> elp_loops p = elp_loops (srv_pool s) \<and>
    elp_baseLoop p = elp_baseLoop (srv_pool s) \<and>
    (elp_loops p \<noteq> [] \<longrightarrow> elp_next p = srv_nextConnId s mod int (length (elp_loops p)))"
proof (cases "elp_loops (srv_pool s) = []")
  case True
  with assms show ?thesis by (auto simp: getNextLoop_def srv_inv_def round_robin_def)
next
  case False
  let ?l = "int (length (elp_loops (srv_pool s)))"
  let ?i = "srv_nextConnId s - 1"
  have l: "0 < ?l" using False by simp
  have n: "elp_next (srv_pool s) = ?i mod ?l" using assms False by (simp add: srv_inv_def)
  have b: "0 \<le> ?i mod ?l" "?i mod ?l < ?l" using l by simp_all
  have "srv_nextConnId s mod ?l = (?i mod ?l + 1) mod ?l" by (simp add: mod_add_left_eq)
  also have "\<dots> = (if ?i mod ?l + 1 \<ge> ?l then 0 else ?i mod ?l + 1)"
    using b by (cases "?i mod ?l + 1 = ?l") auto
  finally have m: "(if ?i mod ?l + 1 \<ge> ?l then 0 else ?i mod ?l + 1) = srv_nextConnId s mod ?l" by simp
  have "getNextLoop True (srv_pool s) =
      Inr (round_robin s, (srv_pool s)\<lparr>elp_next := if ?i mod ?l + 1 \<ge> ?l then 0 else ?i mod ?l + 1\<rparr>)"
    using assms False b n by (simp add: getNextLoop_def round_robin_def srv_inv_def Let_def not_le not_less)
  then show ?thesis using assms False m by (simp add: srv_inv_def)
qed

lemma fresh_name:
  assumes "srv_inv s"
  shows "connName s (srv_nextConnId s) \<notin> fst ` set (srv_connections s)"
proof
  assume "connName s (srv_nextConnId s) \<in> fst ` set (srv_connections s)"
  then obtain c where "(connName s (srv_nextConnId s), c) \<in> set (srv_connections s)" by auto
  with assms obtain i where i: "1 \<le> i" "i < srv_nextConnId s" "connName s (srv_nextConnId s) = connName s i"
    unfolding srv_inv_def by blast
  have "srv_nextConnId s = i"
    by (rule connName_inject [OF _ _ _ _ _ i(3)]) (use assms i in \<open>simp_all add: srv_inv_def\<close>)
  with i show False by simp
qed

lemma newConnection_runs:
  assumes "srv_inv s" and "srv_nextConnId s < 2 ^ 31 - 1" and "srv_conns s c = None"
  shows "\<exists>s' conn. newConnection api c fd peer s = Inr ((), s') \<and> srv_inv s' \<and>
    set (srv_connections s') = insert (connName s (srv_nextConnId s), c) (set (srv_connections s)) \<and>
    srv_conns s' = (srv_conns s)(c \<mapsto> conn) \<and> tc_name conn = connName s (srv_nextConnId s) \<and> tc_fd conn = fd \<and>
    tc_peerAddr conn = peer \<and> tc_loop conn = round_robin s \<and> srv_posts s' = srv_posts s @ [(round_robin s, ConnectEstablished c)]"
proof -
  obtain p where p: "getNextLoop True (srv_pool s) = Inr (round_robin s, p)" "elp_started p"
    "elp_loops p \<noteq> [] \<longrightarrow> elp_next p = srv_nextConnId s mod int (length (elp_loops p))"
    using getNextLoop_turn [OF assms(1)] by blast
  let ?n = "connName s (srv_nextConnId s)"
  define s1 where "s1 = s\<lparr>srv_pool := p, srv_nextConnId := srv_nextConnId s + 1\<rparr>"
  obtain r e addr k where g: "n_getsockname api fd (kern s1) = ((r, e, addr), k)" by (metis surj_pair)
  define s2 where "s2 = s1\<lparr>kern := k, net_errno := if r < 0 then e else net_errno s1\<rparr>"
  define conn where "conn = \<lparr>tc_loop = round_robin s, tc_name = ?n, tc_fd = fd, tc_localAddr = if r < 0 then zero_sockaddr else addr,
    tc_peerAddr = peer, tc_connectionCallback = srv_connectionCallback s, tc_messageCallback = srv_messageCallback s,
    tc_writeCompleteCallback = srv_writeCompleteCallback s\<rparr>"
  define s' where "s' = s2\<lparr>srv_conns := (srv_conns s2)(c \<mapsto> conn), srv_connections := conn_insert ?n c (srv_connections s2),
    srv_posts := srv_posts s2 @ [(round_robin s, ConnectEstablished c)]\<rparr>"
  have inv: "in_loop s" "1 \<le> srv_nextConnId s" "sorted_wrt (<) (map fst (srv_connections s))" using assms(1) by (simp_all add: srv_inv_def)
  have "newConnection api c fd peer s = Inr ((), s')"
    using inv p(1) assms(2) g
    by (simp add: newConnection_def assertInLoopThread_def chain_def state_def lift_def modify_def ret_def check_int_def getLocalAddr_def
        syscall_addr_def s'_def s2_def s1_def conn_def Let_def)
  moreover have fields: "srv_conns s' = (srv_conns s)(c \<mapsto> conn)" "srv_connections s' = conn_insert ?n c (srv_connections s)"
    "srv_posts s' = srv_posts s @ [(round_robin s, ConnectEstablished c)]" "srv_pool s' = p" "srv_nextConnId s' = srv_nextConnId s + 1"
    "in_loop s' = in_loop s" "srv_ipPort s' = srv_ipPort s" "connName s' = connName s"
    by (auto simp: s'_def s2_def s1_def connName_def fun_eq_iff)
  have set: "set (srv_connections s') = insert (?n, c) (set (srv_connections s))"
    using fields(2) conn_insert_set [OF fresh_name [OF assms(1)]] by simp
  have ent: "\<exists>conn i. srv_conns s' d = Some conn \<and> tc_name conn = n \<and> 1 \<le> i \<and> i < srv_nextConnId s' \<and> n = connName s' i"
    if "(n, d) \<in> set (srv_connections s')" for n d
  proof (cases "(n, d) = (?n, c)")
    case True
    then show ?thesis using inv fields by (intro exI [of _ conn] exI [of _ "srv_nextConnId s"]) (simp add: conn_def)
  next
    case False
    then have "(n, d) \<in> set (srv_connections s)" using that set by auto
    then obtain conn' i where "srv_conns s d = Some conn'" "tc_name conn' = n" "1 \<le> i" "i < srv_nextConnId s" "n = connName s i"
      using assms(1) unfolding srv_inv_def by blast
    moreover from this(1) have "d \<noteq> c" using assms(3) by auto
    ultimately show ?thesis using fields by (intro exI [of _ conn'] exI [of _ i]) simp
  qed
  have "srv_inv s'"
    using assms(1,2) fields p(2,3) ent conn_insert_sorted [OF inv(3) fresh_name [OF assms(1)]] unfolding srv_inv_def by simp
  moreover have "tc_name conn = ?n" "tc_fd conn = fd" "tc_peerAddr conn = peer" "tc_loop conn = round_robin s"
    by (simp_all add: conn_def)
  ultimately show ?thesis using set fields(1,3) by blast
qed

lemma removeConnection_runs:
  assumes "srv_inv s" and "(n, c) \<in> set (srv_connections s)"
  shows "\<exists>s'. removeConnectionInLoop c s = Inr ((), s') \<and> set (srv_connections s') = set (srv_connections s) - {(n, c)} \<and>
    removeConnectionInLoop c s' = Inl AssertFailed"
proof -
  obtain conn where conn: "srv_conns s c = Some conn" "tc_name conn = n" using assms unfolding srv_inv_def by blast
  have sorted: "sorted_wrt (<) (map fst (srv_connections s))" "in_loop s" using assms(1) by (simp_all add: srv_inv_def)
  note e = conn_erase_one [OF sorted(1) assms(2)]
  let ?m = "filter (\<lambda>e. fst e \<noteq> n) (srv_connections s)"
  let ?s' = "s\<lparr>srv_connections := ?m, srv_posts := srv_posts s @ [(tc_loop conn, ConnectDestroyed c)]\<rparr>"
  have "removeConnectionInLoop c s = Inr ((), ?s')"
    using conn sorted(2) e(1)
    by (simp add: removeConnectionInLoop_def assertInLoopThread_def chain_def state_def conn_at_def modify_def ensure_def)
  moreover have "removeConnectionInLoop c ?s' = Inl AssertFailed"
    using conn sorted(2)
    by (simp add: removeConnectionInLoop_def assertInLoopThread_def chain_def state_def conn_at_def modify_def ensure_def conn_erase_def
        filter_empty_conv)
  ultimately show ?thesis using e(2) by (intro exI [of _ ?s']) simp
qed

text \<open>A server from its constructor on; \<open>elsewhere\<close> is what other parts of the program do to the system.\<close>

inductive server_reachable :: "'k netApi \<Rightarrow> ('k, 'cb) tcpServer \<Rightarrow> bool" for api where
  started: "sockaddr_ok listenAddr \<Longrightarrow> in_loop s0 \<Longrightarrow> TcpServer_ctor api dc dm loop a listenAddr n reusePort s0 = Inr s1 \<Longrightarrow>
    TcpServer_setThreadNum numThreads s1 = Inr ((), s2) \<Longrightarrow> TcpServer_start api env s2 = Inr ((), s) \<Longrightarrow> server_reachable api s"
| accepted: "server_reachable api s \<Longrightarrow> srv_conns s c = None \<Longrightarrow> server_accept api c s = Inr ((), s') \<Longrightarrow> server_reachable api s'"
| removed: "server_reachable api s \<Longrightarrow> removeConnectionInLoop c s = Inr ((), s') \<Longrightarrow> server_reachable api s'"
| elsewhere: "server_reachable api s \<Longrightarrow> server_reachable api (s\<lparr>kern := k, net_errno := e\<rparr>)"

lemma start_threads_loops:
  "start_threads env cb ns p = Inr p' \<Longrightarrow>
   elp_loops p' = elp_loops p @ map (te_loop env) ns \<and> elp_started p' = elp_started p \<and> elp_next p' = elp_next p \<and>
   elp_baseLoop p' = elp_baseLoop p"
proof (induction ns arbitrary: p)
  case (Cons i ns)
  from Cons.prems obtain l t p1 where "startLoop (te_tid env i) True (te_loop env i)
      (EventLoopThread_ctor cb (snprintf_trunc (length (elp_name p) + 32) (c_str (elp_name p) @ to_string (int i))) (te_created env + int i + 1)) = Inr (l, t)"
    and p1: "p1 = p\<lparr>elp_threads := elp_threads p @ [t], elp_loops := elp_loops p @ [l], elp_inits := elp_inits p @ (if cb then [l] else [])\<rparr>"
      "start_threads env cb ns p1 = Inr p'"
    by (auto simp: Let_def andThen_def split: sum.splits)
  then have "l = te_loop env i"
    by (auto simp: startLoop_def asserting_def andThen_def threadFunc_begin_def Let_def split: sum.splits if_splits)
  with Cons.IH [OF p1(2)] p1(1) show ?case by simp
qed simp

lemma acceptor_ctor_frame:
  "Acceptor_ctor api a listenAddr reusePort s = Inr s' \<Longrightarrow> in_loop s \<Longrightarrow> in_loop s' \<and> \<not> acc_listenning s'"
proof -
  assume c: "Acceptor_ctor api a listenAddr reusePort s = Inr s'" and l: "in_loop s"
  have 1: "keeps_client (createNonblockingOrDie api f)" for f
    unfolding createNonblockingOrDie_def setNonBlockAndCloseOnExec_def by (auto intro!: keeps_chain)
  have 2: "keeps_client (chain (setReuseAddr api fd True) (\<lambda>_. chain (setReusePort api fd reusePort) (\<lambda>_. bindAddress api fd listenAddr)))" for fd
    unfolding setReuseAddr_def set_option_def setReusePort_def bindAddress_def bindOrDie_def by (auto intro!: keeps_chain)
  from c obtain fd s1 i s2 u s3 where s: "createNonblockingOrDie api (sin_family listenAddr) s = Inr (fd, s1)"
    "syscall (n_open_null api) (s1\<lparr>chan_heap := (chan_heap s1)(a \<mapsto> Channel_ctor fd)\<rparr>) = Inr (i, s2)"
    "chain (setReuseAddr api fd True) (\<lambda>_. chain (setReusePort api fd reusePort) (\<lambda>_. bindAddress api fd listenAddr)) s2 = Inr (u, s3)"
    "s' = netState.extend s3 \<lparr>acc_fd = fd, acc_channel = a, acc_listenning = False, acc_idleFd = i\<rparr>"
    by (auto simp: Acceptor_ctor_def andThen_def asserting_def split: sum.splits if_splits)
  have "in_loop s3"
    using keepsD [OF 1 s(1)] keepsD [OF keeps_basic(7) s(2)] keepsD [OF 2 s(3)] l by simp
  then show ?thesis using s(4) by (simp add: netState.defs)
qed

lemma listen_frame:
  assumes "Acceptor_listen api s = Inr ((), s')"
  shows "in_loop s' = in_loop s \<and> acceptor.more s' = acceptor.more s"
proof -
  have "keeps_client (Socket_listen api fd)" for fd
    unfolding Socket_listen_def listenOrDie_def by (auto intro!: keeps_chain)
  then have k: "keeps_client (chain (Socket_listen api fd) (\<lambda>_. enableReading (n_epoll api) a))" for fd a
    unfolding enableReading_def by (auto intro!: keeps_chain)
  let ?s = "s\<lparr>acc_listenning := True\<rparr>"
  from assms have "chain (Socket_listen api (acc_fd ?s)) (\<lambda>_. enableReading (n_epoll api) (acc_channel ?s)) ?s = Inr ((), s')"
    by (simp add: Acceptor_listen_def assertInLoopThread_def chain_def modify_def state_def split: if_splits)
  from keepsD [OF k this] have "netState.more s' = netState.more ?s" "in_loop s' = in_loop s" by simp_all
  then show ?thesis by (cases s'; cases s) simp
qed

lemma server_more:
  fixes s s' :: "('k, 'cb) tcpServer"
  assumes "acceptor.more s' = acceptor.more s"
  shows "srv_ipPort s' = srv_ipPort s" "srv_pool s' = srv_pool s" "srv_nextConnId s' = srv_nextConnId s"
    "srv_connections s' = srv_connections s" "srv_conns s' = srv_conns s" "srv_name s' = srv_name s"
  using assms by (cases s'; cases s; simp)+

lemma pool_start_frame:
  assumes "EventLoopThreadPool_start env inLoop cb p = Inr q"
  shows "elp_started q \<and> elp_next q = elp_next p"
proof -
  from assms obtain r where r: "start_threads env cb [0..<nat (elp_numThreads p)] (p\<lparr>elp_started := True\<rparr>) = Inr r"
    "q = (if elp_numThreads r = 0 \<and> cb then r\<lparr>elp_inits := elp_inits r @ [elp_baseLoop r]\<rparr> else r)"
    by (cases "start_threads env cb [0..<nat (elp_numThreads p)] (p\<lparr>elp_started := True\<rparr>)")
      (simp_all add: EventLoopThreadPool_start_def asserting_def split: if_splits)
  from start_threads_loops [OF r(1)] r(2) show ?thesis by simp
qed

lemma server_ctor_frame:
  assumes "sockaddr_ok listenAddr" and "in_loop s0" and "TcpServer_ctor api dc dm loop a listenAddr n reusePort s0 = Inr s1"
  shows "in_loop s1" "length (srv_ipPort s1) \<le> 21" "elp_next (srv_pool s1) = 0" "srv_started s1 = 0" "srv_nextConnId s1 = 1"
    "srv_connections s1 = []"
proof -
  note ip = toIpPort_text [OF assms(1)]
  obtain b where b: "Acceptor_ctor api a listenAddr reusePort s0 = Inr b"
    using assms(3) ip(1) by (cases "Acceptor_ctor api a listenAddr reusePort s0") (simp_all add: TcpServer_ctor_def)
  have "in_loop b" using acceptor_ctor_frame [OF b assms(2)] by simp
  with assms(3) b ip show "in_loop s1" "length (srv_ipPort s1) \<le> 21" "elp_next (srv_pool s1) = 0" "srv_started s1 = 0"
    "srv_nextConnId s1 = 1" "srv_connections s1 = []"
    by (auto simp: TcpServer_ctor_def acceptor.defs EventLoopThreadPool_ctor_def)
qed

lemma server_start_frame:
  assumes "TcpServer_start api env s = Inr ((), s')" and "srv_started s = 0"
  shows "\<exists>p. EventLoopThreadPool_start env (in_loop s) (srv_threadInitCallback s) (srv_pool s) = Inr p \<and>
    Acceptor_listen api (s\<lparr>srv_started := 1, srv_pool := p\<rparr>) = Inr ((), s')"
  using assms
  by (cases "EventLoopThreadPool_start env (in_loop s) (srv_threadInitCallback s) (srv_pool s)")
    (simp_all add: TcpServer_start_def chain_def state_def lift_def modify_def ensure_def split: if_splits)

lemma started_inv:
  assumes "sockaddr_ok listenAddr" and "in_loop s0" and "TcpServer_ctor api dc dm loop a listenAddr n reusePort s0 = Inr s1"
    and "TcpServer_setThreadNum numThreads s1 = Inr ((), s2)" and "TcpServer_start api env s2 = Inr ((), s)"
  shows "srv_inv s"
proof -
  note s1 = server_ctor_frame [OF assms(1-3)]
  have s2: "s2 = s1\<lparr>srv_pool := pool_setThreadNum numThreads (srv_pool s1)\<rparr>"
    using assms(4) by (simp add: TcpServer_setThreadNum_def ensure_def modify_def chain_def split: if_splits)
  obtain p where p: "EventLoopThreadPool_start env (in_loop s2) (srv_threadInitCallback s2) (srv_pool s2) = Inr p"
    "Acceptor_listen api (s2\<lparr>srv_started := 1, srv_pool := p\<rparr>) = Inr ((), s)"
    using server_start_frame [OF assms(5)] s1(4) s2 by auto
  have "elp_started p" "elp_next p = 0" using pool_start_frame [OF p(1)] s1(3) s2 by (simp_all add: pool_setThreadNum_def)
  moreover have "in_loop s" and "acceptor.more s = acceptor.more (s2\<lparr>srv_started := 1, srv_pool := p\<rparr>)"
    using listen_frame [OF p(2)] s1(1) s2 by simp_all
  moreover note server_more [OF this(2)]
  ultimately show ?thesis using s1 s2 by (simp add: srv_inv_def)
qed

lemma srv_inv_more:
  fixes s s' :: "('k, 'cb) tcpServer"
  assumes "srv_inv s" and "acceptor.more s' = acceptor.more s" and "in_loop s'"
  shows "srv_inv s'"
proof -
  note m = server_more [OF assms(2)]
  have "connName s' = connName s" by (simp add: connName_def fun_eq_iff m)
  with assms(1,3) m show ?thesis unfolding srv_inv_def by simp
qed

lemma net_more: "netState.more s' = netState.more s \<Longrightarrow> acceptor.more s' = acceptor.more s"
  for s s' :: "('k, 'z) acceptor_scheme"
  by (cases s'; cases s) simp

lemma use_idleFd_frame: "use_idleFd api s = Inr ((), s') \<Longrightarrow> acceptor.more s' = acceptor.more s \<and> in_loop s' = in_loop s"
  by (auto simp: use_idleFd_def net_prog_defs split: prod.splits)

lemma newConnection_inv:
  assumes "srv_inv s" and "srv_conns s c = None" and "newConnection api c fd peer s = Inr ((), s')"
  shows "srv_inv s'"
proof -
  obtain p where p: "getNextLoop True (srv_pool s) = Inr (round_robin s, p)" using getNextLoop_turn [OF assms(1)] by blast
  have "srv_nextConnId s < 2 ^ 31 - 1"
  proof (rule ccontr)
    assume "\<not> srv_nextConnId s < 2 ^ 31 - 1"
    then have "check_int (srv_nextConnId s + 1) = Inl (UndefinedBehaviour ''signed overflow'')" by (simp add: check_int_def)
    then have "newConnection api c fd peer s = Inl (UndefinedBehaviour ''signed overflow'')"
      using assms(1) p by (simp add: newConnection_def assertInLoopThread_def chain_def state_def lift_def srv_inv_def)
    with assms(3) show False by simp
  qed
  from newConnection_runs [OF assms(1) this assms(2), of api fd peer] assms(3) show ?thesis by auto
qed

lemma accept_inv:
  assumes "srv_inv s" and "srv_conns s c = None" and "server_accept api c s = Inr ((), s')"
  shows "srv_inv s'"
proof -
  have l: "in_loop s" using assms(1) by (simp add: srv_inv_def)
  let ?a = "Socket_accept api (acc_fd s) (InetAddress_ctor 0 False) s"
  obtain connfd addr s1 where a: "?a = Inr ((connfd, addr), s1)"
    using assms(3) l by (cases ?a) (auto simp: server_accept_def Acceptor_handleRead_def assertInLoopThread_def chain_def state_def)
  have more: "acceptor.more s1 = acceptor.more s" "in_loop s1" using keepsD [OF keeps_accept a] l net_more [of s1 s] by simp_all
  have inv: "srv_inv s1" by (rule srv_inv_more [OF assms(1) more])
  show ?thesis
  proof (cases "connfd \<ge> 0")
    case True
    then have "newConnection api c connfd addr s1 = Inr ((), s')"
      using assms(3) l a by (simp add: server_accept_def Acceptor_handleRead_def assertInLoopThread_def chain_def state_def)
    moreover have "srv_conns s1 c = None" using assms(2) server_more(5) [OF more(1)] by simp
    ultimately show ?thesis using newConnection_inv [OF inv] by blast
  next
    case False
    let ?s = "s1\<lparr>net_errno := errno_after_log api (net_errno s1)\<rparr>"
    have "(if net_errno ?s = EMFILE then use_idleFd api else ret ()) ?s = Inr ((), s')"
      using assms(3) l a False
      by (simp add: server_accept_def Acceptor_handleRead_def assertInLoopThread_def chain_def state_def logging_def modify_def)
    then have "acceptor.more s' = acceptor.more ?s \<and> in_loop s' = in_loop ?s"
      using use_idleFd_frame [of api ?s s'] by (auto simp: ret_def split: if_splits)
    then have "acceptor.more s' = acceptor.more s1" "in_loop s'" using more(2) by (cases s1; simp)+
    then show ?thesis by (rule srv_inv_more [OF inv])
  qed
qed

lemma remove_inv:
  assumes "srv_inv s" and "removeConnectionInLoop c s = Inr ((), s')"
  shows "srv_inv s'"
proof -
  have l: "in_loop s" using assms(1) by (simp add: srv_inv_def)
  obtain conn where "srv_conns s c = Some conn"
    using assms(2) l by (cases "srv_conns s c") (simp_all add: removeConnectionInLoop_def assertInLoopThread_def conn_at_def chain_def)
  then have s': "s' = s\<lparr>srv_connections := filter (\<lambda>e. fst e \<noteq> tc_name conn) (srv_connections s),
      srv_posts := srv_posts s @ [(tc_loop conn, ConnectDestroyed c)]\<rparr>"
    using assms(2) l
    by (simp add: removeConnectionInLoop_def assertInLoopThread_def conn_at_def chain_def state_def modify_def ensure_def conn_erase_def
        split: if_splits)
  have "connName s' = connName s" by (simp add: s' connName_def fun_eq_iff)
  moreover have "sorted_wrt (<) (map fst (filter P (srv_connections s)))" for P
    using assms(1) by (simp add: srv_inv_def sorted_wrt_map sorted_wrt_filter)
  ultimately show ?thesis using assms(1) unfolding srv_inv_def s' by simp
qed

lemma server_reachable_inv: "server_reachable api s \<Longrightarrow> srv_inv s"
proof (induction rule: server_reachable.induct)
  case (elsewhere s k e)
  then show ?case by (intro srv_inv_more [OF elsewhere.IH]) (cases s; simp add: srv_inv_def)+
qed (auto intro: started_inv accept_inv remove_inv)


section \<open>Properties\<close>

text \<open>
  C38. The connections of a server that has been started, after any accepts and removals. As long as
  fewer than \<open>2 ^ 31 - 2\<close> connections were made, a new connection gets a name no other connection has and
  the next loop in turn, is entered under its name and established in its loop. Every connection in the table can be removed,
  which removes nothing else, and a second removal of it fails the assertion.
\<close>

theorem server_connections:
  assumes "server_reachable api s"
  shows "(srv_nextConnId s < 2 ^ 31 - 1 \<and> srv_conns s c = None \<longrightarrow>
      (\<exists>s' conn. newConnection api c fd peer s = Inr ((), s') \<and> tc_name conn = connName s (srv_nextConnId s) \<and>
        tc_name conn \<notin> fst ` set (srv_connections s) \<and> set (srv_connections s') = insert (tc_name conn, c) (set (srv_connections s)) \<and>
        srv_conns s' = (srv_conns s)(c \<mapsto> conn) \<and> tc_fd conn = fd \<and> tc_peerAddr conn = peer \<and>
        tc_loop conn = (let loops = elp_loops (srv_pool s)
          in if loops = [] then elp_baseLoop (srv_pool s) else loops ! nat ((srv_nextConnId s - 1) mod int (length loops))) \<and>
        srv_posts s' = srv_posts s @ [(tc_loop conn, ConnectEstablished c)])) \<and>
    (\<forall>n d. (n, d) \<in> set (srv_connections s) \<longrightarrow>
      (\<exists>s'. removeConnectionInLoop d s = Inr ((), s') \<and> set (srv_connections s') = set (srv_connections s) - {(n, d)} \<and>
        removeConnectionInLoop d s' = Inl AssertFailed))"
proof -
  note inv = server_reachable_inv [OF assms]
  have "\<exists>s' conn. newConnection api c fd peer s = Inr ((), s') \<and> tc_name conn = connName s (srv_nextConnId s) \<and>
        tc_name conn \<notin> fst ` set (srv_connections s) \<and> set (srv_connections s') = insert (tc_name conn, c) (set (srv_connections s)) \<and>
        srv_conns s' = (srv_conns s)(c \<mapsto> conn) \<and> tc_fd conn = fd \<and> tc_peerAddr conn = peer \<and> tc_loop conn = round_robin s \<and>
        srv_posts s' = srv_posts s @ [(tc_loop conn, ConnectEstablished c)]"
    if "srv_nextConnId s < 2 ^ 31 - 1" "srv_conns s c = None"
    using newConnection_runs [OF inv that, of api fd peer] fresh_name [OF inv] by metis
  then show ?thesis using removeConnection_runs [OF inv] unfolding round_robin_def by blast
qed

text \<open>A server with two worker threads on the small kernel.\<close>

definition small_net :: "small_kernel netState" where
  "small_net =
     \<lparr>chan_heap = Map.empty, poll_channels = Map.empty, events_size = 16, kern = \<lparr>sk_flags = Map.empty, sk_next = 4, sk_waiting = []\<rparr>,
      in_loop = True, loop_eventHandling = False, activeChannels = [], currentActiveChannel = None, net_errno = 0\<rparr>"

definition small_ctor :: "(small_kernel, nat) tcpServer res" where
  "small_ctor = TcpServer_ctor small_api 0 1 9 0 (InetAddress_ctor 80 False) ''IM'' False small_net"

definition small_env :: threadEnv where
  "small_env = \<lparr>te_tid = \<lambda>i. 100 + int i, te_loop = \<lambda>i. 10 + i, te_created = 1\<rparr>"

lemma small_server_starts:
  "(case small_ctor of
      Inr s1 \<Rightarrow>
        (case TcpServer_setThreadNum 2 s1 of
           Inr (_, s2) \<Rightarrow>
             (case TcpServer_start small_api small_env s2 of
                Inr (_, s) \<Rightarrow> srv_nextConnId s = 1 \<and> srv_conns s 5 = None \<and> connName s 1 = ''IM-0.0.0.0:80#1'' \<and>
                  elp_loops (srv_pool s) = [10, 11] \<and> srv_connections s = []
              | Inl _ \<Rightarrow> False)
         | Inl _ \<Rightarrow> False)
    | Inl _ \<Rightarrow> False)"
  by code_simp

lemma case_InrE: "(case r of Inr x \<Rightarrow> P x | Inl _ \<Rightarrow> False) \<Longrightarrow> \<exists>x. r = Inr x \<and> P x"
  by (cases r) auto

theorem server_connections_witness:
  "\<exists>(s :: (small_kernel, nat) tcpServer) s'. server_reachable small_api s \<and>
     newConnection small_api 5 4 (InetAddress_ctor 4000 True) s = Inr ((), s') \<and> set (srv_connections s') = {(''IM-0.0.0.0:80#1'', 5)} \<and>
     srv_posts s' = srv_posts s @ [(10, ConnectEstablished 5)]"
proof -
  obtain s1 s2 s where s1: "small_ctor = Inr s1" and s2: "TcpServer_setThreadNum 2 s1 = Inr ((), s2)"
    and s3: "TcpServer_start small_api small_env s2 = Inr ((), s)" and
    s: "srv_nextConnId s = 1" "srv_conns s 5 = None" "connName s 1 = ''IM-0.0.0.0:80#1''" "elp_loops (srv_pool s) = [10, 11]"
    "srv_connections s = []"
    using small_server_starts by (auto dest!: case_InrE)
  have r: "server_reachable small_api s"
    by (rule server_reachable.started [OF InetAddress_ok(2) _ s1 [unfolded small_ctor_def] s2 s3]) (simp add: small_net_def)
  with server_connections [OF r, of 5 4 "InetAddress_ctor 4000 True"] s show ?thesis by auto
qed

end
