(* ===== verification/Spec2Isabelle.thy ===== *)
theory Spec2Isabelle
  imports Offline TcpRun Logging TimerRun EventLoop TcpServer
begin

text \<open>
  Verification of the instant messaging server.
\<close>

end
